(* ===== verification/Prelude.thy ===== *)
theory Prelude
  imports "HOL-Library.Word" "HOL-Library.AList"
begin

text \<open>
  Prelude of the REDesk development: the names of the machine types, the theorem
  collections the components extend, and the generic facts they share about
  association lists (the model of \<open>std::map\<close> and \<open>std::unordered_map\<close>),
  little-endian byte strings and decimal printing.
\<close>

unbundle bit_operations_syntax

section \<open>Machine types and collections\<close>

type_synonym byte = "8 word"
type_synonym u16 = "16 word"
type_synonym u32 = "32 word"
type_synonym u64 = "64 word"

named_theorems op_defs "definitions of the operations of a component"
named_theorems alist_simps "lookups in updated association lists"
named_theorems wire_simps "facts about byte layouts"

declare Let_def [simp]

section \<open>Association lists as the standard containers\<close>

text \<open>
  A container is an association list with distinct keys: \<open>map_of\<close> is \<open>find\<close>,
  \<open>AList.update\<close> is \<open>operator[]\<close> followed by an assignment, \<open>emplace\<close> leaves an
  existing key alone, and \<open>keep\<close> is the erase loop over an iterator.
\<close>

definition emplace :: "'k \<Rightarrow> 'v \<Rightarrow> ('k \<times> 'v) list \<Rightarrow> ('k \<times> 'v) list" where
  "emplace k v al = (if map_of al k = None then al @ [(k, v)] else al)"

definition keep :: "('v \<Rightarrow> bool) \<Rightarrow> ('k \<times> 'v) list \<Rightarrow> ('k \<times> 'v) list" where
  "keep P al = filter (\<lambda>kv. P (snd kv)) al"

abbreviation keys_ok :: "('k \<times> 'v) list \<Rightarrow> bool" where
  "keys_ok al \<equiv> distinct (map fst al)"

lemma map_of_update [alist_simps, simp]:
  "map_of (AList.update k v al) = (map_of al)(k \<mapsto> v)"
  by (rule update_conv')

lemma map_of_emplace [alist_simps, simp]:
  "map_of (emplace k v al) = (if map_of al k = None then (map_of al)(k \<mapsto> v) else map_of al)"
  by (auto simp: emplace_def fun_eq_iff map_add_def split: option.splits)

lemma keys_ok_update [intro, simp]: "keys_ok al \<Longrightarrow> keys_ok (AList.update k v al)"
  by (rule distinct_update)

lemma keys_ok_emplace [intro, simp]: "keys_ok al \<Longrightarrow> keys_ok (emplace k v al)"
  by (auto simp: emplace_def map_of_eq_None_iff)

lemma keys_ok_keep [intro, simp]: "keys_ok al \<Longrightarrow> keys_ok (keep P al)"
  by (simp add: keep_def distinct_map_filter)

lemma map_of_keep [alist_simps]:
  assumes "keys_ok al"
  shows "map_of (keep P al) k =
    (case map_of al k of None \<Rightarrow> None | Some v \<Rightarrow> if P v then Some v else None)"
  using assms
proof (induction al)
  case Nil
  then show ?case by (simp add: keep_def)
next
  case (Cons kv al)
  then show ?case
    by (cases kv) (auto simp: keep_def map_of_eq_None_iff split: option.splits)
qed

lemma keep_id: "(\<And>k v. (k, v) \<in> set al \<Longrightarrow> P v) \<Longrightarrow> keep P al = al"
  by (auto simp: keep_def filter_id_conv)

lemma length_keep: "length (keep P al) \<le> length al"
  by (simp add: keep_def)

lemma length_update:
  "length (AList.update k v al) = (if map_of al k = None then Suc (length al) else length al)"
  by (induction al) (auto split: if_splits)

lemma set_update_subset: "set (AList.update k v al) \<subseteq> insert (k, v) (set al)"
  by (induction al) (auto split: if_splits)

section \<open>Little-endian byte strings\<close>

text \<open>
  \<open>le_bytes n w\<close> is the loop \<open>out[i] = (w >> (i * 8)) & 0xFF\<close> for \<open>i < n\<close>;
  \<open>of_le_bytes\<close> is the loop \<open>w |= (W)in[i] << (i * 8)\<close>.
\<close>

definition le_bytes :: "nat \<Rightarrow> 'a::len word \<Rightarrow> byte list" where
  "le_bytes n w = map (\<lambda>i. ucast (drop_bit (8 * i) w AND 0xFF)) [0..<n]"

definition of_le_bytes :: "byte list \<Rightarrow> 'a::len word" where
  "of_le_bytes bs = fold (\<lambda>i acc. acc OR push_bit (8 * i) (ucast (bs ! i))) [0..<length bs] 0"

lemma length_le_bytes [simp]: "length (le_bytes n w) = n"
  by (simp add: le_bytes_def)

lemma and_255_take_bit: "w AND 0xFF = take_bit 8 (w :: 'a::len word)"
  by (simp add: take_bit_eq_mask mask_eq_exp_minus_1)

lemma bit_le_bytes:
  "i < n \<Longrightarrow> bit (le_bytes n w ! i) k \<longleftrightarrow> k < 8 \<and> bit w (8 * i + k)"
  by (auto simp only: le_bytes_def length_upt nth_map nth_upt and_255_take_bit bit_ucast_iff
      bit_take_bit_iff bit_drop_bit_eq comp_apply add_0 diff_zero
      dest: bit_imp_le_length) (simp add: bit_imp_le_length)?

lemma div_8_unique:
  "n div 8 = (m :: nat) \<longleftrightarrow> 8 * m \<le> n \<and> n < 8 * m + 8"
  by linarith

lemma bit_shifted_byte:
  "bit (push_bit (8 * m) (ucast (b :: byte)) :: 'a::len word) n \<longleftrightarrow>
     n < LENGTH('a) \<and> n div 8 = m \<and> bit b (n mod 8)"
proof (cases "8 * m \<le> n \<and> n < 8 * m + 8")
  case True
  then obtain r where n: "n = 8 * m + r" and r: "r < 8"
    by (metis le_add_diff_inverse nat_add_left_cancel_less)
  then have "n mod 8 = r" and "n div 8 = m" and "n - 8 * m = r" by simp_all
  with n show ?thesis
    by (auto simp: bit_push_bit_iff bit_ucast_iff)
next
  case False
  then have "\<not> (8 * m \<le> n \<and> bit b (n - 8 * m))"
    by (auto dest: bit_imp_le_length)
  with False show ?thesis
    by (auto simp: bit_push_bit_iff bit_ucast_iff div_8_unique)
qed

lemma bit_of_le_bytes_upto:
  fixes acc :: "'a::len word" and bs :: "byte list"
  assumes "m \<le> length bs"
  shows "bit (fold (\<lambda>i acc. acc OR push_bit (8 * i) (ucast (bs ! i))) [0..<m] acc) n
    \<longleftrightarrow> bit acc n \<or> (n < LENGTH('a) \<and> n div 8 < m \<and> bit (bs ! (n div 8)) (n mod 8))"
  using assms
proof (induction m)
  case 0
  then show ?case by simp
next
  case (Suc m)
  then show ?case
    by (auto simp: bit_or_iff less_Suc_eq bit_shifted_byte)
qed

lemma bit_of_le_bytes:
  "bit (of_le_bytes bs :: 'a::len word) n
    \<longleftrightarrow> n < LENGTH('a) \<and> n div 8 < length bs \<and> bit (bs ! (n div 8)) (n mod 8)"
  by (simp add: of_le_bytes_def bit_of_le_bytes_upto)

lemma of_le_le_bytes [wire_simps]:
  fixes w :: "'a::len word"
  assumes "LENGTH('a) \<le> 8 * n"
  shows "of_le_bytes (le_bytes n w) = w"
proof (rule bit_eqI)
  fix k
  show "bit (of_le_bytes (le_bytes n w) :: 'a word) k \<longleftrightarrow> bit w k"
  proof (cases "k < LENGTH('a)")
    case True
    with assms have "k div 8 < n" by linarith
    then show ?thesis
      using True by (simp add: bit_of_le_bytes bit_le_bytes)
  next
    case False
    then show ?thesis by (auto simp: bit_of_le_bytes dest: bit_imp_le_length)
  qed
qed

lemma le_of_le_bytes [wire_simps]:
  assumes "8 * length bs \<le> LENGTH('a::len)"
  shows "le_bytes (length bs) (of_le_bytes bs :: 'a word) = bs"
proof (rule nth_equalityI)
  fix i assume i: "i < length (le_bytes (length bs) (of_le_bytes bs :: 'a word))"
  show "le_bytes (length bs) (of_le_bytes bs :: 'a word) ! i = bs ! i"
  proof (rule bit_eqI)
    fix k
    have k: "bit (bs ! i) k \<Longrightarrow> k < 8" by (auto dest: bit_imp_le_length)
    have "(8 * i + k) div 8 = i" and "(8 * i + k) mod 8 = k" if "k < 8" using that by simp_all
    with i k assms show "bit (le_bytes (length bs) (of_le_bytes bs :: 'a word) ! i) k = bit (bs ! i) k"
      by (cases "k < 8") (auto simp: bit_le_bytes bit_of_le_bytes)
  qed
qed simp

section \<open>Decimal printing\<close>

text \<open>\<open>std::to_string\<close> on an unsigned value.\<close>

fun to_string :: "nat \<Rightarrow> string" where
  "to_string n = (if n < 10 then [char_of (48 + n)] else to_string (n div 10) @ [char_of (48 + n mod 10)])"

declare to_string.simps [simp del]

lemma to_string_nonempty [simp]: "to_string n \<noteq> []"
  by (subst to_string.simps) simp

text \<open>Reading a decimal string back: \<open>to_string\<close> is injective, with leading zeros ignored.\<close>

definition string_val :: "string \<Rightarrow> nat" where
  "string_val s = foldl (\<lambda>a c. 10 * a + (of_char c - 48)) 0 s"

lemma of_char_digit: "d < 10 \<Longrightarrow> (of_char (char_of (48 + d :: nat) :: char) :: nat) = 48 + d"
  by simp

lemma string_val_to_string [simp]: "string_val (to_string n) = n"
proof (induction n rule: to_string.induct)
  case (1 n)
  show ?case
  proof (cases "n < 10")
    case True
    then show ?thesis
      by (subst to_string.simps) (simp add: string_val_def of_char_digit del: of_char_of)
  next
    case False
    with "1.IH" have "string_val (to_string (n div 10)) = n div 10" by simp
    moreover have "(of_char (char_of (48 + n mod 10 :: nat) :: char) :: nat) = 48 + n mod 10"
      by (rule of_char_digit) simp
    ultimately show ?thesis
      using False by (subst to_string.simps) (simp add: string_val_def del: of_char_of)
  qed
qed

lemma string_val_zeros [simp]: "string_val (replicate k (CHR ''0'') @ s) = string_val s"
  by (induction k) (simp_all add: string_val_def)

lemma to_string_inj [simp]: "to_string m = to_string n \<longleftrightarrow> m = n"
  by (metis string_val_to_string)

lemma length_to_string_le: "0 < k \<Longrightarrow> n < 10 ^ k \<Longrightarrow> length (to_string n) \<le> k"
proof (induction n arbitrary: k rule: to_string.induct)
  case (1 n)
  show ?case
  proof (cases "n < 10")
    case True
    with "1.prems" show ?thesis by (subst to_string.simps) simp
  next
    case False
    then obtain j where k: "k = Suc j" and "0 < j"
      using "1.prems" by (cases k; cases "k - 1") auto
    moreover have "n div 10 < 10 ^ j"
      using "1.prems" k by (simp add: less_mult_imp_div_less mult.commute)
    ultimately have "length (to_string (n div 10)) \<le> j"
      using "1.IH" False by blast
    with False k show ?thesis by (subst to_string.simps) simp
  qed
qed

end
