(* ===== verification/Common_Types.thy ===== *)
theory Common_Types
  imports Prelude
begin

text \<open>
  The shared value types of \<open>core/common/types.h\<close>: error codes, \<open>Status\<close>,
  \<open>Result<T>\<close>, geometry, pixel formats, captured frames and encoded packets.
  A \<open>Result<T>\<close> is \<open>Inl\<close> of the failed status or \<open>Inr\<close> of the value: the code
  builds results with \<open>good\<close> and \<open>fail\<close> only, and a failed one holds \<open>T{}\<close>, which
  no caller reads.
\<close>

datatype error_code =
    Ok | Unsupported | PermissionDenied | NotFound | InvalidArgument
  | Timeout | ConnectionLost | AccessLost | Again | Internal

record status =
  code :: error_code
  message :: string

definition status_ok :: "status \<Rightarrow> bool" where
  "status_ok s \<longleftrightarrow> code s = Ok"

definition success :: status where
  "success = \<lparr>code = Ok, message = ''''\<rparr>"

definition error_status :: "error_code \<Rightarrow> string \<Rightarrow> status" where
  "error_status c msg = \<lparr>code = c, message = msg\<rparr>"

type_synonym 'a result = "status + 'a"

definition good :: "'a \<Rightarrow> 'a result" where
  "good v = Inr v"

definition fail :: "error_code \<Rightarrow> string \<Rightarrow> 'a result" where
  "fail c msg = Inl (error_status c msg)"

definition result_status :: "'a result \<Rightarrow> status" where
  "result_status r = (case r of Inl s \<Rightarrow> s | Inr _ \<Rightarrow> success)"

lemma success_simps [simp]:
  "code success = Ok" "status_ok success"
  by (simp_all add: success_def status_ok_def)

lemma error_status_simps [simp]:
  "code (error_status c msg) = c" "message (error_status c msg) = msg"
  "status_ok (error_status c msg) \<longleftrightarrow> c = Ok"
  "error_status c msg = error_status c' msg' \<longleftrightarrow> c = c' \<and> msg = msg'"
  by (simp_all add: error_status_def status_ok_def)

lemma error_not_success [simp]:
  "c \<noteq> Ok \<Longrightarrow> error_status c msg \<noteq> success" "c \<noteq> Ok \<Longrightarrow> success \<noteq> error_status c msg"
  by (simp_all add: error_status_def success_def)

lemma result_simps [simp]:
  "good v = good w \<longleftrightarrow> v = w" "good v \<noteq> fail c msg" "fail c msg \<noteq> good v"
  "result_status (good v) = success" "result_status (fail c msg) = error_status c msg"
  "fail c msg = (fail c' msg' :: 'a result) \<longleftrightarrow> c = c' \<and> msg = msg'"
  "(case good v of Inl s \<Rightarrow> f s | Inr x \<Rightarrow> g x) = g v"
  "(case fail c msg of Inl s \<Rightarrow> f s | Inr x \<Rightarrow> g x) = f (error_status c msg)"
  by (auto simp: good_def fail_def result_status_def)

section \<open>Geometry, frames, packets\<close>

record Size =
  width :: u32
  height :: u32

record rect =
  rect_x :: "32 word"
  rect_y :: "32 word"
  rect_width :: "32 word"
  rect_height :: "32 word"

datatype pixel_format = PF_Unknown | BGRA8 | NV12 | P010 | I444

text \<open>
  \<open>native_handle\<close> is an opaque pointer, null (\<open>None\<close>) or not. \<open>static_cast\<close> from an
  integer outside the enumerators is a value of the enumeration's underlying type, so the
  format of a decoded frame is kept as its 32-bit code; \<open>pixel_format_code\<close> is the code
  of an enumerator.
\<close>

definition pixel_format_code :: "pixel_format \<Rightarrow> u32" where
  "pixel_format_code f =
     (case f of PF_Unknown \<Rightarrow> 0 | BGRA8 \<Rightarrow> 1 | NV12 \<Rightarrow> 2 | P010 \<Rightarrow> 3 | I444 \<Rightarrow> 4)"

record video_frame =
  frame_size :: Size
  format :: u32
  timestamp_us :: u64
  native_handle :: "u64 option"
  cpu_pixels :: "byte list"
  dirty_rects :: "rect list"
  is_idle :: bool

record encoded_packet =
  packet_data :: "byte list"
  packet_timestamp_us :: u64
  keyframe :: bool

definition default_frame :: video_frame where
  "default_frame = \<lparr>frame_size = \<lparr>width = 0, height = 0\<rparr>, format = 0, timestamp_us = 0,
     native_handle = None, cpu_pixels = [], dirty_rects = [], is_idle = False\<rparr>"

lemma pixel_format_code_inj: "pixel_format_code f = pixel_format_code g \<Longrightarrow> f = g"
  by (cases f; cases g; simp add: pixel_format_code_def)

end
