(* ===== verification/Interfaces.thy ===== *)
theory Interfaces
  imports Prelude
begin

text \<open>
  The contracts between the components, as locales. \<open>run_invariant\<close> and
  \<open>run_relation\<close> lift one-step facts of a component to whole histories of calls;
  \<open>prefix_codec\<close> is what a sender and a receiver of self-delimiting frames owe each
  other; \<open>expiring_table\<close> is what the two servers rely on in their tables of
  time-stamped entries. Every locale is interpreted on the model's own definitions in
  the theory of the component that provides it.
\<close>

section \<open>Histories of calls\<close>

locale run_invariant =
  fixes step :: "'s \<Rightarrow> 'e \<Rightarrow> 's" and inv :: "'s \<Rightarrow> bool"
  assumes step_inv: "inv s \<Longrightarrow> inv (step s e)"
begin

lemma run_inv: "inv s \<Longrightarrow> inv (foldl step s es)"
  by (induction es arbitrary: s) (simp_all add: step_inv)

end

text \<open>
  A relation between the state before and after a call (something only grows, something
  is never overwritten) that holds for every call holds between the ends of a history.
\<close>

locale run_relation = run_invariant +
  fixes rel :: "'s \<Rightarrow> 's \<Rightarrow> bool"
  assumes rel_refl: "rel s s"
    and rel_trans: "rel s t \<Longrightarrow> rel t u \<Longrightarrow> rel s u"
    and step_rel: "inv s \<Longrightarrow> rel s (step s e)"
begin

lemma run_rel: "inv s \<Longrightarrow> rel s (foldl step s es)"
proof (induction es arbitrary: s)
  case Nil
  then show ?case by (simp add: rel_refl)
next
  case (Cons e es)
  then have "rel s (step s e)" and "rel (step s e) (foldl step (step s e) es)"
    by (auto intro: step_rel step_inv)
  then show ?case by (auto intro: rel_trans)
qed

end

section \<open>Self-delimiting frames\<close>

text \<open>
  \<open>dec\<close> reads one frame off the front of a byte stream and returns what is left.
  \<open>wf\<close> are the values the sender may encode.
\<close>

fun decode_all :: "(byte list \<Rightarrow> ('a \<times> byte list) option) \<Rightarrow> nat \<Rightarrow> byte list \<Rightarrow> 'a list \<times> byte list" where
  "decode_all dec 0 bs = ([], bs)"
| "decode_all dec (Suc fuel) bs =
     (case dec bs of
        None \<Rightarrow> ([], bs)
      | Some (x, rest) \<Rightarrow> (let (xs, left) = decode_all dec fuel rest in (x # xs, left)))"

locale prefix_codec =
  fixes enc :: "'a \<Rightarrow> byte list"
    and dec :: "byte list \<Rightarrow> ('a \<times> byte list) option"
    and wf :: "'a \<Rightarrow> bool"
  assumes dec_enc: "wf x \<Longrightarrow> dec (enc x @ rest) = Some (x, rest)"
begin

lemma enc_inj_rest:
  assumes "wf x" and "wf y" and "enc x @ r = enc y @ t"
  shows "x = y \<and> r = t"
proof -
  have "Some (x, r) = dec (enc x @ r)" by (simp only: dec_enc [OF assms(1)])
  also have "\<dots> = Some (y, t)" by (simp only: assms(3) dec_enc [OF assms(2)])
  finally show ?thesis by simp
qed

lemma enc_inj: "wf x \<Longrightarrow> wf y \<Longrightarrow> enc x = enc y \<Longrightarrow> x = y"
  using enc_inj_rest [of x y "[]" "[]"] by simp

lemma decode_all_concat:
  "list_all wf xs \<Longrightarrow> dec rest = None \<Longrightarrow>
     decode_all dec (length xs + k) (concat (map enc xs) @ rest) = (xs, rest)"
proof (induction xs)
  case Nil
  then show ?case by (cases k) simp_all
next
  case (Cons x xs)
  then show ?case by (simp add: dec_enc)
qed

lemma stream_inj:
  assumes "list_all wf xs" and "list_all wf ys" and "dec [] = None"
    and "concat (map enc xs) = concat (map enc ys)"
  shows "xs = ys"
proof -
  let ?n = "length xs + length ys"
  from assms(1,3) have "decode_all dec ?n (concat (map enc xs) @ []) = (xs, [])"
    by (rule decode_all_concat)
  moreover from assms(2,3) have
    "decode_all dec (length ys + length xs) (concat (map enc ys) @ []) = (ys, [])"
    by (rule decode_all_concat)
  ultimately show ?thesis using assms(4) by (simp add: add.commute)
qed

end

section \<open>Stores of keyed entries\<close>

text \<open>
  \<open>get\<close> finds the entry of a key, \<open>put\<close> stores an entry under its own key: the contract of the
  clipboard, of the registry and of every table that replaces an entry as a whole.
\<close>

locale keyed_store =
  fixes get :: "'t \<Rightarrow> 'k \<Rightarrow> 'v option"
    and put :: "'v \<Rightarrow> 't \<Rightarrow> 't"
    and key_of :: "'v \<Rightarrow> 'k"
  assumes get_put: "get (put v t) k = (if k = key_of v then Some v else get t k)"
begin

lemma get_puts:
  "get (fold put vs t) k = (case find (\<lambda>v. key_of v = k) (rev vs) of Some v \<Rightarrow> Some v | None \<Rightarrow> get t k)"
proof (induction vs rule: rev_induct)
  case Nil
  then show ?case by simp
next
  case (snoc v vs)
  then show ?case by (simp add: get_put)
qed

lemma put_put: "key_of v = key_of w \<Longrightarrow> get (put w (put v t)) k = get (put w t) k"
  by (simp add: get_put)

lemma put_commute: "key_of v \<noteq> key_of w \<Longrightarrow> get (put w (put v t)) k = get (put v (put w t)) k"
  by (auto simp: get_put)

end

section \<open>Tables of time-stamped entries\<close>

text \<open>
  \<open>get\<close> looks a key up, \<open>sweep now ttl\<close> drops the entries whose stamp is more than
  \<open>ttl\<close> seconds old and returns how many it dropped, \<open>size\<close> counts the entries.
\<close>

locale expiring_table =
  fixes get :: "'t \<Rightarrow> 'k \<Rightarrow> 'v option"
    and sweep :: "int \<Rightarrow> int \<Rightarrow> 't \<Rightarrow> nat \<times> 't"
    and table_size :: "'t \<Rightarrow> nat"
    and stamp :: "'v \<Rightarrow> int"
    and ok :: "'t \<Rightarrow> bool"
  assumes sweep_get: "ok t \<Longrightarrow> get (snd (sweep now ttl t)) k =
      (case get t k of None \<Rightarrow> None
       | Some v \<Rightarrow> if now - stamp v > ttl then None else Some v)"
    and sweep_count: "ok t \<Longrightarrow> table_size t = fst (sweep now ttl t) + table_size (snd (sweep now ttl t))"
    and sweep_ok: "ok t \<Longrightarrow> ok (snd (sweep now ttl t))"
begin

lemma sweep_keeps_fresh:
  "ok t \<Longrightarrow> get t k = Some v \<Longrightarrow> now - stamp v \<le> ttl \<Longrightarrow> get (snd (sweep now ttl t)) k = Some v"
  by (simp add: sweep_get)

lemma sweep_drops_stale:
  "ok t \<Longrightarrow> get (snd (sweep now ttl t)) k = Some v \<Longrightarrow> now - stamp v \<le> ttl"
  by (auto simp: sweep_get split: option.splits if_splits)

lemma sweep_invents_nothing:
  "ok t \<Longrightarrow> get (snd (sweep now ttl t)) k = Some v \<Longrightarrow> get t k = Some v"
  by (auto simp: sweep_get split: option.splits if_splits)

text \<open>Sweeping twice at one time, or later with the same ttl, forgets nothing it should keep.\<close>

lemma sweep_sweep:
  "ok t \<Longrightarrow> now \<le> now' \<Longrightarrow>
     get (snd (sweep now' ttl (snd (sweep now ttl t)))) k = get (snd (sweep now' ttl t)) k"
  by (auto simp: sweep_get sweep_ok split: option.splits)

end

end
