(* ===== verification/Session_Core.thy ===== *)
theory Session_Core
  imports Common_Types Interfaces "HOL-Library.Sublist"
begin

text \<open>
  The session manager of \<open>core/session/session.{h,cpp}\<close>: capability masks, sessions,
  the permission gate, the lifecycle operations, the TOFU pins, the allow and deny lists
  and the audit log. A callback that is installed is the flag \<open>state_cb\<close> or
  \<open>audit_cb\<close>, and its calls are recorded in \<open>cb_log\<close> in the order the code makes
  them; callbacks do not call back into the manager here. For those that do (in Session_Callbacks),
  \<open>cb_calls\<close> records the calls they make; no operation of the code reads either log. The clock is the parameter \<open>clk\<close>:
  the code reads it once per audit record, so \<open>clk n\<close> is the reading for record \<open>n\<close>.
\<close>

section \<open>Capability masks\<close>

type_synonym capabilities = u32

definition CapNone :: capabilities where "CapNone = 0"
definition ViewOnly :: capabilities where "ViewOnly = push_bit 0 1"
definition Control :: capabilities where "Control = push_bit 1 1"
definition Clipboard :: capabilities where "Clipboard = push_bit 2 1"
definition FileTransfer :: capabilities where "FileTransfer = push_bit 3 1"
definition Audio :: capabilities where "Audio = push_bit 4 1"
definition InputInjection :: capabilities where "InputInjection = push_bit 5 1"
definition Elevation :: capabilities where "Elevation = push_bit 6 1"

lemmas capability_defs = CapNone_def ViewOnly_def Control_def Clipboard_def FileTransfer_def
  Audio_def InputInjection_def Elevation_def

definition hasCapability :: "capabilities \<Rightarrow> capabilities \<Rightarrow> bool" where
  "hasCapability granted needed \<longleftrightarrow> (granted AND needed) = needed"

definition cap_toString :: "capabilities \<Rightarrow> string" where
  "cap_toString single =
     (if single = CapNone then ''None''
      else if single = ViewOnly then ''ViewOnly''
      else if single = Control then ''Control''
      else if single = Clipboard then ''Clipboard''
      else if single = FileTransfer then ''FileTransfer''
      else if single = Audio then ''Audio''
      else if single = InputInjection then ''InputInjection''
      else if single = Elevation then ''Elevation''
      else ''Mixed'')"

text \<open>The set of capabilities a mask stands for, as bit numbers.\<close>

definition caps_set :: "capabilities \<Rightarrow> nat set" where
  "caps_set w = set (filter (bit w) [0..<32])"

section \<open>Sessions and the audit log\<close>

datatype session_state = Pending | Authenticating | Active | Denied | Closed

fun state_toString :: "session_state \<Rightarrow> string" where
  "state_toString Pending = ''Pending''"
| "state_toString Authenticating = ''Authenticating''"
| "state_toString Active = ''Active''"
| "state_toString Denied = ''Denied''"
| "state_toString Closed = ''Closed''"

datatype audit_event =
    SessionRequested | HandshakeStarted | HandshakeCompleted | AuthSucceeded | AuthFailed
  | CapabilityGranted | CapabilityDenied | PermissionCheckDenied | KeyChangeDetected
  | SessionActivated | SessionClosed

fun event_toString :: "audit_event \<Rightarrow> string" where
  "event_toString SessionRequested = ''SessionRequested''"
| "event_toString HandshakeStarted = ''HandshakeStarted''"
| "event_toString HandshakeCompleted = ''HandshakeCompleted''"
| "event_toString AuthSucceeded = ''AuthSucceeded''"
| "event_toString AuthFailed = ''AuthFailed''"
| "event_toString CapabilityGranted = ''CapabilityGranted''"
| "event_toString CapabilityDenied = ''CapabilityDenied''"
| "event_toString PermissionCheckDenied = ''PermissionCheckDenied''"
| "event_toString KeyChangeDetected = ''KeyChangeDetected''"
| "event_toString SessionActivated = ''SessionActivated''"
| "event_toString SessionClosed = ''SessionClosed''"

record audit_record =
  audit_timestamp_us :: u64
  peer_fingerprint :: string
  event :: audit_event
  detail :: string

record peer_info =
  redesk_id :: string
  fingerprint :: string
  static_key :: "byte list"

record session =
  sess_id :: u64
  peer :: peer_info
  state :: session_state
  granted :: capabilities

definition new_session :: "u64 \<Rightarrow> peer_info \<Rightarrow> session" where
  "new_session i p = \<lparr>sess_id = i, peer = p, state = Pending, granted = CapNone\<rparr>"

definition isAllowed :: "session \<Rightarrow> capabilities \<Rightarrow> bool" where
  "isAllowed s needed \<longleftrightarrow> state s = Active \<and> hasCapability (granted s) needed"

definition setState :: "session_state \<Rightarrow> session \<Rightarrow> session" where
  "setState st s = s\<lparr>state := st\<rparr>"

definition grant :: "capabilities \<Rightarrow> session \<Rightarrow> session" where
  "grant caps s = s\<lparr>granted := granted s OR caps\<rparr>"

section \<open>The manager\<close>

text \<open>The public operations of the manager that can change it, as calls.\<close>

datatype session_op =
    OpBegin peer_info
  | OpHandshakeStarted u64
  | OpHandshakeCompleted u64 string
  | OpAuthorize u64 capabilities
  | OpDeny u64 string
  | OpCheck u64 capabilities
  | OpClose u64
  | OpStateCallback bool
  | OpAuditCallback bool
  | OpCeiling capabilities
  | OpAllowPeer string
  | OpDenyPeer string

datatype cb_event = StateCb u64 session_state | AuditCb audit_record

record manager =
  sessions :: "(u64 \<times> session) list"
  next_id :: u64
  audit :: "audit_record list"
  state_cb :: bool
  audit_cb :: bool
  cb_log :: "cb_event list"
  cb_calls :: "session_op list"
  ceiling :: capabilities
  allow_list :: "string set"
  deny_list :: "string set"
  tofu_pins :: "(string \<times> string) list"

definition init_manager :: manager where
  "init_manager = \<lparr>sessions = [], next_id = 1, audit = [], state_cb = False, audit_cb = False,
     cb_log = [], cb_calls = [], ceiling = ViewOnly, allow_list = {}, deny_list = {}, tofu_pins = []\<rparr>"

type_synonym clock = "nat \<Rightarrow> u64"

definition record_audit ::
  "clock \<Rightarrow> string \<Rightarrow> audit_event \<Rightarrow> string \<Rightarrow> manager \<Rightarrow> manager" where
  "record_audit clk fp ev det m =
     (let r = \<lparr>audit_timestamp_us = clk (length (audit m)), peer_fingerprint = fp,
               event = ev, detail = det\<rparr>;
          m' = m\<lparr>audit := audit m @ [r]\<rparr>
      in if audit_cb m' then m'\<lparr>cb_log := cb_log m' @ [AuditCb r]\<rparr> else m')"

definition store_session :: "u64 \<Rightarrow> session \<Rightarrow> manager \<Rightarrow> manager" where
  "store_session i s m = m\<lparr>sessions := AList.update i s (sessions m)\<rparr>"

text \<open>\<open>s\<close> is the session stored under the key \<open>i\<close>, which the code holds by reference.\<close>

definition transition :: "u64 \<Rightarrow> session \<Rightarrow> session_state \<Rightarrow> manager \<Rightarrow> manager" where
  "transition i s to m =
     (let m' = store_session i (setState to s) m
      in if state_cb m' then m'\<lparr>cb_log := cb_log m' @ [StateCb (sess_id s) to]\<rparr> else m')"

definition beginSession :: "clock \<Rightarrow> manager \<Rightarrow> peer_info \<Rightarrow> u64 result \<times> manager" where
  "beginSession clk m p =
     (if deny_list m \<noteq> {} \<and> fingerprint p \<in> deny_list m then
        (fail PermissionDenied ''peer is on the deny list'',
         record_audit clk (fingerprint p) CapabilityDenied ''peer on deny-list'' m)
      else
        (let i = next_id m;
             m1 = m\<lparr>next_id := next_id m + 1\<rparr>;
             m2 = m1\<lparr>sessions := emplace i (new_session i p) (sessions m1)\<rparr>
         in (good i,
             record_audit clk (fingerprint p) SessionRequested (''id='' @ redesk_id p) m2)))"

definition unknown_session :: status where
  "unknown_session = error_status NotFound ''unknown session''"

definition onHandshakeStarted :: "clock \<Rightarrow> manager \<Rightarrow> u64 \<Rightarrow> status \<times> manager" where
  "onHandshakeStarted clk m i =
     (case map_of (sessions m) i of
        None \<Rightarrow> (unknown_session, m)
      | Some s \<Rightarrow>
          (success,
           record_audit clk (fingerprint (peer s)) HandshakeStarted ''''
             (transition i s Authenticating m)))"

definition onHandshakeCompleted :: "clock \<Rightarrow> manager \<Rightarrow> u64 \<Rightarrow> string \<Rightarrow> status \<times> manager" where
  "onHandshakeCompleted clk m i fp =
     (case map_of (sessions m) i of
        None \<Rightarrow> (unknown_session, m)
      | Some s \<Rightarrow>
          (let p = (if fingerprint (peer s) = '''' then (peer s)\<lparr>fingerprint := fp\<rparr> else peer s);
               m1 = record_audit clk (fingerprint p) HandshakeCompleted '''' m
           in if fp \<in> deny_list m1 then
                (error_status PermissionDenied ''peer denied'',
                 transition i s Denied
                   (record_audit clk fp AuthFailed ''peer on deny-list (post-handshake)'' m1))
              else
                (case map_of (tofu_pins m1) (redesk_id p) of
                   Some pinned \<Rightarrow>
                     (success,
                      if pinned \<noteq> fp then
                        record_audit clk fp KeyChangeDetected
                          (''id='' @ redesk_id p @ '' expected='' @ pinned) m1
                      else m1)
                 | None \<Rightarrow>
                     (success, m1\<lparr>tofu_pins := AList.update (redesk_id p) fp (tofu_pins m1)\<rparr>))))"

definition authorize :: "clock \<Rightarrow> manager \<Rightarrow> u64 \<Rightarrow> capabilities \<Rightarrow> status \<times> manager" where
  "authorize clk m i requested =
     (case map_of (sessions m) i of
        None \<Rightarrow> (unknown_session, m)
      | Some s \<Rightarrow>
          (let fp = fingerprint (peer s);
               ceiling_bits = ceiling m OR ViewOnly;
               allowed_bits = requested AND ceiling_bits;
               refused_bits = requested AND NOT ceiling_bits;
               m1 = (if refused_bits \<noteq> 0 then
                       record_audit clk fp CapabilityDenied
                         (''above ceiling: requested='' @ to_string (unat requested) @
                          '' ceiling='' @ to_string (unat ceiling_bits)) m
                     else m)
           in if allowed_bits = 0 then
                (error_status PermissionDenied ''no requested capability is within policy'',
                 transition i s Denied m1)
              else
                (let s' = grant (allowed_bits OR ViewOnly) s;
                     m2 = record_audit clk fp CapabilityGranted
                            (''granted='' @ to_string (unat (allowed_bits OR ViewOnly)))
                            (store_session i s' m1);
                     m3 = record_audit clk fp AuthSucceeded '''' m2;
                     m4 = transition i s' Active m3
                 in (success, record_audit clk fp SessionActivated '''' m4))))"

definition deny :: "clock \<Rightarrow> manager \<Rightarrow> u64 \<Rightarrow> string \<Rightarrow> status \<times> manager" where
  "deny clk m i reason =
     (case map_of (sessions m) i of
        None \<Rightarrow> (unknown_session, m)
      | Some s \<Rightarrow>
          (success,
           transition i s Denied (record_audit clk (fingerprint (peer s)) AuthFailed reason m)))"

definition checkPermission :: "clock \<Rightarrow> manager \<Rightarrow> u64 \<Rightarrow> capabilities \<Rightarrow> bool \<times> manager" where
  "checkPermission clk m i needed =
     (case map_of (sessions m) i of
        None \<Rightarrow> (False, m)
      | Some s \<Rightarrow>
          if isAllowed s needed then (True, m)
          else (False,
                record_audit clk (fingerprint (peer s)) PermissionCheckDenied
                  (''needed='' @ to_string (unat needed) @ '' state='' @ state_toString (state s)) m))"

definition closeSession :: "clock \<Rightarrow> manager \<Rightarrow> u64 \<Rightarrow> status \<times> manager" where
  "closeSession clk m i =
     (case map_of (sessions m) i of
        None \<Rightarrow> (unknown_session, m)
      | Some s \<Rightarrow>
          (success,
           record_audit clk (fingerprint (peer s)) SessionClosed '''' (transition i s Closed m)))"

definition isBeingControlled :: "manager \<Rightarrow> bool" where
  "isBeingControlled m \<longleftrightarrow>
     list_ex (\<lambda>(i, s). state s = Active \<and> hasCapability (granted s) Control) (sessions m)"

definition find_session :: "manager \<Rightarrow> u64 \<Rightarrow> session option" where
  "find_session m i = map_of (sessions m) i"

definition setStateCallback :: "bool \<Rightarrow> manager \<Rightarrow> manager" where
  "setStateCallback installed m = m\<lparr>state_cb := installed\<rparr>"

definition setAuditCallback :: "bool \<Rightarrow> manager \<Rightarrow> manager" where
  "setAuditCallback installed m = m\<lparr>audit_cb := installed\<rparr>"

definition auditLog :: "manager \<Rightarrow> audit_record list" where
  "auditLog m = audit m"

definition setCapabilityCeiling :: "capabilities \<Rightarrow> manager \<Rightarrow> manager" where
  "setCapabilityCeiling c m = m\<lparr>ceiling := c\<rparr>"

definition allowPeer :: "string \<Rightarrow> manager \<Rightarrow> manager" where
  "allowPeer fp m = m\<lparr>allow_list := insert fp (allow_list m), deny_list := deny_list m - {fp}\<rparr>"

definition denyPeer :: "string \<Rightarrow> manager \<Rightarrow> manager" where
  "denyPeer fp m = m\<lparr>deny_list := insert fp (deny_list m), allow_list := allow_list m - {fp}\<rparr>"

section \<open>Histories\<close>

fun session_step :: "clock \<Rightarrow> manager \<Rightarrow> session_op \<Rightarrow> manager" where
  "session_step clk m (OpBegin p) = snd (beginSession clk m p)"
| "session_step clk m (OpHandshakeStarted i) = snd (onHandshakeStarted clk m i)"
| "session_step clk m (OpHandshakeCompleted i fp) = snd (onHandshakeCompleted clk m i fp)"
| "session_step clk m (OpAuthorize i c) = snd (authorize clk m i c)"
| "session_step clk m (OpDeny i r) = snd (deny clk m i r)"
| "session_step clk m (OpCheck i c) = snd (checkPermission clk m i c)"
| "session_step clk m (OpClose i) = snd (closeSession clk m i)"
| "session_step clk m (OpStateCallback b) = setStateCallback b m"
| "session_step clk m (OpAuditCallback b) = setAuditCallback b m"
| "session_step clk m (OpCeiling c) = setCapabilityCeiling c m"
| "session_step clk m (OpAllowPeer fp) = allowPeer fp m"
| "session_step clk m (OpDenyPeer fp) = denyPeer fp m"

definition session_run :: "clock \<Rightarrow> session_op list \<Rightarrow> manager" where
  "session_run clk ops = foldl (session_step clk) init_manager ops"

lemmas session_op_defs = beginSession_def onHandshakeStarted_def onHandshakeCompleted_def
  authorize_def deny_def checkPermission_def closeSession_def setStateCallback_def
  setAuditCallback_def setCapabilityCeiling_def allowPeer_def denyPeer_def

end
