(* ===== verification/Session_Gate.thy ===== *)
theory Session_Gate
  imports Session_Core
begin

text \<open>
  The contract of the session manager and the proofs that the code keeps it: an abstract
  access-control machine that knows only which sessions are active and which capabilities
  each holds, the refinement of the manager to it, and what histories of calls can and
  cannot do to grants, pins, peers and the audit log.
\<close>

section \<open>Field access through the helpers\<close>

lemma record_audit_fields [simp]:
  "sessions (record_audit clk fp ev d m) = sessions m"
  "next_id (record_audit clk fp ev d m) = next_id m"
  "state_cb (record_audit clk fp ev d m) = state_cb m"
  "audit_cb (record_audit clk fp ev d m) = audit_cb m"
  "ceiling (record_audit clk fp ev d m) = ceiling m"
  "allow_list (record_audit clk fp ev d m) = allow_list m"
  "deny_list (record_audit clk fp ev d m) = deny_list m"
  "tofu_pins (record_audit clk fp ev d m) = tofu_pins m"
  "audit (record_audit clk fp ev d m) = audit m @
     [\<lparr>audit_timestamp_us = clk (length (audit m)), peer_fingerprint = fp, event = ev, detail = d\<rparr>]"
  by (simp_all add: record_audit_def)

lemma store_session_fields [simp]:
  "sessions (store_session i s m) = AList.update i s (sessions m)"
  "next_id (store_session i s m) = next_id m"
  "ceiling (store_session i s m) = ceiling m"
  "deny_list (store_session i s m) = deny_list m"
  "tofu_pins (store_session i s m) = tofu_pins m"
  "audit (store_session i s m) = audit m"
  by (simp_all add: store_session_def)

lemma transition_fields [simp]:
  "sessions (transition i s st m) = AList.update i (s\<lparr>state := st\<rparr>) (sessions m)"
  "next_id (transition i s st m) = next_id m"
  "ceiling (transition i s st m) = ceiling m"
  "deny_list (transition i s st m) = deny_list m"
  "tofu_pins (transition i s st m) = tofu_pins m"
  "audit (transition i s st m) = audit m"
  by (simp_all add: transition_def setState_def)

lemma new_session_fields [simp]:
  "state (new_session i p) = Pending" "granted (new_session i p) = 0"
  "peer (new_session i p) = p" "sess_id (new_session i p) = i"
  by (simp_all add: new_session_def CapNone_def)

lemma grant_fields [simp]:
  "state (grant c s) = state s" "granted (grant c s) = granted s OR c"
  "peer (grant c s) = peer s" "sess_id (grant c s) = sess_id s"
  by (simp_all add: grant_def)

section \<open>Masks as sets\<close>

lemma in_caps_set [simp]: "b \<in> caps_set w \<longleftrightarrow> bit w b"
  by (auto simp: caps_set_def dest: bit_imp_le_length)

lemma caps_set_ops [simp]:
  "caps_set (a OR b) = caps_set a \<union> caps_set b"
  "caps_set (a AND b) = caps_set a \<inter> caps_set b"
  "caps_set 0 = {}"
  "caps_set ViewOnly = {0}"
  by (auto simp: bit_or_iff bit_and_iff ViewOnly_def bit_1_iff)

lemma caps_set_empty [simp]: "caps_set w = {} \<longleftrightarrow> w = 0"
proof
  assume e: "caps_set w = {}"
  have "\<not> bit w n" for n
    using e in_caps_set [of n w] by blast
  then show "w = 0" by (auto intro: bit_eqI)
qed simp

lemma hasCapability_subset: "hasCapability g n \<longleftrightarrow> caps_set n \<subseteq> caps_set g"
proof
  assume "hasCapability g n"
  then have "g AND n = n" by (simp add: hasCapability_def)
  then have "caps_set g \<inter> caps_set n = caps_set n" by (metis caps_set_ops(2))
  then show "caps_set n \<subseteq> caps_set g" by blast
next
  assume s: "caps_set n \<subseteq> caps_set g"
  have "g AND n = n"
  proof (rule bit_eqI)
    fix b
    show "bit (g AND n) b \<longleftrightarrow> bit n b"
      using s in_caps_set [of b n] in_caps_set [of b g] by (auto simp: bit_and_iff)
  qed
  then show "hasCapability g n" by (simp add: hasCapability_def)
qed

section \<open>The abstract access-control machine\<close>

text \<open>
  A session is active or not and holds a set of capabilities. Everything that ends or
  restarts a session makes it inactive; the only way to become active is a grant, clamped
  to the ceiling (the view capability is always under it and always granted).
\<close>

record access =
  acc_sessions :: "u64 \<Rightarrow> (bool \<times> nat set) option"
  acc_next :: u64
  acc_blocked :: "string set"
  acc_ceiling :: "nat set"

definition deactivate :: "u64 \<Rightarrow> access \<Rightarrow> access" where
  "deactivate i a =
     (case acc_sessions a i of
        None \<Rightarrow> a
      | Some (act, g) \<Rightarrow> a\<lparr>acc_sessions := (acc_sessions a)(i \<mapsto> (False, g))\<rparr>)"

fun access_step :: "access \<Rightarrow> session_op \<Rightarrow> access" where
  "access_step a (OpBegin p) =
     (if fingerprint p \<in> acc_blocked a then a
      else a\<lparr>acc_next := acc_next a + 1,
             acc_sessions := (if acc_sessions a (acc_next a) = None
                              then (acc_sessions a)(acc_next a \<mapsto> (False, {}))
                              else acc_sessions a)\<rparr>)"
| "access_step a (OpHandshakeStarted i) = deactivate i a"
| "access_step a (OpHandshakeCompleted i fp) =
     (if fp \<in> acc_blocked a then deactivate i a else a)"
| "access_step a (OpAuthorize i c) =
     (case acc_sessions a i of
        None \<Rightarrow> a
      | Some (act, g) \<Rightarrow>
          (let ok = caps_set c \<inter> (acc_ceiling a \<union> {0})
           in if ok = {} then deactivate i a
              else a\<lparr>acc_sessions := (acc_sessions a)(i \<mapsto> (True, g \<union> ok \<union> {0}))\<rparr>))"
| "access_step a (OpDeny i r) = deactivate i a"
| "access_step a (OpCheck i c) = a"
| "access_step a (OpClose i) = deactivate i a"
| "access_step a (OpStateCallback b) = a"
| "access_step a (OpAuditCallback b) = a"
| "access_step a (OpCeiling c) = a\<lparr>acc_ceiling := caps_set c\<rparr>"
| "access_step a (OpAllowPeer fp) = a\<lparr>acc_blocked := acc_blocked a - {fp}\<rparr>"
| "access_step a (OpDenyPeer fp) = a\<lparr>acc_blocked := insert fp (acc_blocked a)\<rparr>"

definition access_allowed :: "access \<Rightarrow> u64 \<Rightarrow> nat set \<Rightarrow> bool" where
  "access_allowed a i needed \<longleftrightarrow> (\<exists>g. acc_sessions a i = Some (True, g) \<and> needed \<subseteq> g)"

definition abs_session :: "session \<Rightarrow> bool \<times> nat set" where
  "abs_session s = (state s = Active, caps_set (granted s))"

definition abs_manager :: "manager \<Rightarrow> access" where
  "abs_manager m =
     \<lparr>acc_sessions = (\<lambda>i. map_option abs_session (map_of (sessions m) i)),
      acc_next = next_id m, acc_blocked = deny_list m, acc_ceiling = caps_set (ceiling m)\<rparr>"

lemma allowed_bits_empty:
  "caps_set c \<inter> (caps_set k \<union> {0}) = {} \<longleftrightarrow> c AND (k OR ViewOnly) = 0"
  by (metis caps_set_empty caps_set_ops(1,2,4))

lemma allowed_bits_set:
  "caps_set (c AND (k OR ViewOnly) OR ViewOnly) = caps_set c \<inter> (caps_set k \<union> {0}) \<union> {0}"
  by (simp only: caps_set_ops)

lemmas abs_defs = abs_manager_def abs_session_def deactivate_def

lemma abs_step: "abs_manager (session_step clk m op) = access_step (abs_manager m) op"
proof (cases op)
  case (OpBegin p)
  then show ?thesis
    by (auto simp: beginSession_def abs_defs fun_eq_iff)
next
  case (OpAuthorize i c)
  show ?thesis
  proof (cases "map_of (sessions m) i")
    case None
    with OpAuthorize show ?thesis by (simp add: authorize_def abs_defs)
  next
    case (Some s)
    show ?thesis
    proof (cases "c AND (ceiling m OR ViewOnly) = 0")
      case True
      then have "caps_set c \<inter> (caps_set (ceiling m) \<union> {0}) = {}"
        by (simp only: allowed_bits_empty)
      with True OpAuthorize Some show ?thesis
        by (simp add: authorize_def abs_defs fun_eq_iff)
    next
      case False
      then have ne: "caps_set c \<inter> (caps_set (ceiling m) \<union> {0}) \<noteq> {}"
        by (simp only: allowed_bits_empty not_False_eq_True)
      from False OpAuthorize Some have
        "abs_manager (session_step clk m op) = (abs_manager m)\<lparr>acc_sessions :=
           (acc_sessions (abs_manager m))(i \<mapsto> (True, caps_set (granted s) \<union>
              caps_set (c AND (ceiling m OR ViewOnly) OR ViewOnly)))\<rparr>"
        by (simp add: authorize_def abs_defs fun_eq_iff)
      also have "\<dots> = access_step (abs_manager m) op"
        using ne OpAuthorize Some
        unfolding allowed_bits_set by (auto simp: abs_defs Un_assoc)
      finally show ?thesis .
    qed
  qed
qed (auto simp: session_op_defs abs_defs fun_eq_iff split: option.splits)

lemma abs_run: "abs_manager (foldl (session_step clk) m ops) = foldl access_step (abs_manager m) ops"
  by (induction ops arbitrary: m) (simp_all add: abs_step)

lemma abs_check: "fst (checkPermission clk m i needed) = access_allowed (abs_manager m) i (caps_set needed)"
  by (auto simp: checkPermission_def access_allowed_def abs_defs isAllowed_def hasCapability_subset
      split: option.splits)

section \<open>Histories\<close>

lemma session_run_snoc [simp]:
  "session_run clk [] = init_manager"
  "session_run clk (ops @ [op]) = session_step clk (session_run clk ops) op"
  by (simp_all add: session_run_def)

definition ends_session :: "u64 \<Rightarrow> session_op \<Rightarrow> bool" where
  "ends_session i op \<longleftrightarrow>
     op = OpHandshakeStarted i \<or> op = OpClose i \<or> (\<exists>r. op = OpDeny i r)"

text \<open>What one call does to one session: it becomes active only by a successful grant.\<close>

lemma access_step_active:
  assumes "acc_sessions (access_step a op) i = Some (True, g)"
  shows "(acc_sessions a i = Some (True, g) \<and> \<not> ends_session i op)
    \<or> (\<exists>c act g'. op = OpAuthorize i c \<and> acc_sessions a i = Some (act, g') \<and>
         caps_set c \<inter> (acc_ceiling a \<union> {0}) \<noteq> {})"
  using assms
  by (cases op) (auto simp: deactivate_def ends_session_def split: if_splits option.splits prod.splits)

text \<open>What one call adds to one session's capabilities.\<close>

lemma access_step_grants:
  assumes "acc_sessions (access_step a op) i = Some (act, g)" and "b \<in> g"
  shows "(\<exists>act' g'. acc_sessions a i = Some (act', g') \<and> b \<in> g')
    \<or> (\<exists>c. op = OpAuthorize i c \<and> (b = 0 \<or> b \<in> caps_set c \<and> b \<in> acc_ceiling a))"
  using assms
  by (cases op) (auto simp: deactivate_def split: if_splits option.splits prod.splits)

lemma authorize_success_iff:
  "fst (authorize clk m i c) = success \<longleftrightarrow>
     map_of (sessions m) i \<noteq> None \<and> c AND (ceiling m OR ViewOnly) \<noteq> 0"
  by (auto simp: authorize_def unknown_session_def split: option.splits)

text \<open>
  Along any history: sessions are never removed and keep their peer, their capabilities
  only grow, the audit log only grows, and a pinned fingerprint is never replaced.
\<close>

definition session_evolves :: "session \<Rightarrow> session \<Rightarrow> bool" where
  "session_evolves s t \<longleftrightarrow>
     peer t = peer s \<and> sess_id t = sess_id s \<and> caps_set (granted s) \<subseteq> caps_set (granted t)"

definition manager_evolves :: "manager \<Rightarrow> manager \<Rightarrow> bool" where
  "manager_evolves m m' \<longleftrightarrow>
     prefix (audit m) (audit m') \<and>
     map_of (tofu_pins m) \<subseteq>\<^sub>m map_of (tofu_pins m') \<and>
     (\<forall>i s. map_of (sessions m) i = Some s \<longrightarrow>
        (\<exists>s'. map_of (sessions m') i = Some s' \<and> session_evolves s s'))"

lemma session_evolves_refl [simp]: "session_evolves s s"
  by (simp add: session_evolves_def)

lemma session_evolves_state [simp]: "session_evolves s (s\<lparr>state := st\<rparr>)"
  by (simp add: session_evolves_def)

lemma session_evolves_grant [simp]: "session_evolves s ((grant c s)\<lparr>state := st\<rparr>)"
  by (auto simp: session_evolves_def)

lemma manager_evolves_refl: "manager_evolves m m"
  by (auto simp: manager_evolves_def)

lemma manager_evolves_trans:
  assumes "manager_evolves m m'" and "manager_evolves m' m''"
  shows "manager_evolves m m''"
  unfolding manager_evolves_def
proof (intro conjI allI impI)
  show "prefix (audit m) (audit m'')"
    using assms by (auto simp: manager_evolves_def intro: prefix_order.trans)
  show "map_of (tofu_pins m) \<subseteq>\<^sub>m map_of (tofu_pins m'')"
    using assms by (auto simp: manager_evolves_def intro: map_le_trans)
next
  fix i s assume "map_of (sessions m) i = Some s"
  then obtain s' where "map_of (sessions m') i = Some s'" and 1: "session_evolves s s'"
    using assms(1) by (auto simp: manager_evolves_def)
  then obtain s'' where "map_of (sessions m'') i = Some s''" and "session_evolves s' s''"
    using assms(2) by (auto simp: manager_evolves_def)
  with 1 show "\<exists>s''. map_of (sessions m'') i = Some s'' \<and> session_evolves s s''"
    by (auto simp: session_evolves_def)
qed

lemma manager_evolves_step: "manager_evolves m (session_step clk m op)"
proof (cases op)
  case (OpBegin p)
  then show ?thesis
    by (auto simp: beginSession_def manager_evolves_def)
next
  case (OpHandshakeCompleted i fp)
  then show ?thesis
    by (auto simp: onHandshakeCompleted_def manager_evolves_def map_le_def split: option.splits)
next
  case (OpAuthorize i c)
  then show ?thesis
    by (auto simp: authorize_def manager_evolves_def split: option.splits)
qed (auto simp: session_op_defs manager_evolves_def split: option.splits)

interpretation session_history: run_relation "session_step clk" "\<lambda>_. True" manager_evolves for clk
  by unfold_locales (auto intro: manager_evolves_refl manager_evolves_trans manager_evolves_step)

lemma sessions_keys_ok_step:
  "keys_ok (sessions m) \<Longrightarrow> keys_ok (sessions (session_step clk m op))"
  by (cases op) (auto simp: session_op_defs split: option.splits)

interpretation session_keys: run_invariant "session_step clk" "\<lambda>m. keys_ok (sessions m)" for clk
  by unfold_locales (rule sessions_keys_ok_step)

lemma session_run_keys_ok: "keys_ok (sessions (session_run clk ops))"
  unfolding session_run_def by (rule session_keys.run_inv) (simp add: init_manager_def)

lemma session_run_abs: "abs_manager (session_run clk ops) = foldl access_step (abs_manager init_manager) ops"
  by (simp add: session_run_def abs_run)

lemma session_run_append: "session_run clk (ops @ ops') = foldl (session_step clk) (session_run clk ops) ops'"
  by (simp add: session_run_def)

lemma abs_active:
  "acc_sessions (abs_manager m) i = Some (True, g) \<longleftrightarrow>
     (\<exists>s. map_of (sessions m) i = Some s \<and> state s = Active \<and> g = caps_set (granted s))"
  by (auto simp: abs_defs)

section \<open>Properties of the session manager\<close>

text \<open>C1: after any history of calls the manager is the abstract access-control machine run
  on the same calls, and the run-time gate answers true exactly when the machine has the
  session active and holding every capability of the request.\<close>

theorem session_manager_refines:
  "abs_manager (session_run clk ops) = foldl access_step (abs_manager init_manager) ops
   \<and> fst (checkPermission clk (session_run clk ops) i needed)
       = access_allowed (foldl access_step (abs_manager init_manager) ops) i (caps_set needed)"
  by (simp add: abs_check session_run_abs)

text \<open>C3: default deny. A session is active only if some earlier call of \<open>authorize\<close> for it
  succeeded, and no later call closed it, denied it or restarted its handshake.\<close>

theorem active_only_by_authorize:
  assumes "map_of (sessions (session_run clk ops)) i = Some s" and "state s = Active"
  shows "\<exists>pre c post. ops = pre @ OpAuthorize i c # post
    \<and> fst (authorize clk (session_run clk pre) i c) = success
    \<and> (\<forall>op \<in> set post. \<not> ends_session i op)"
proof -
  from assms have "acc_sessions (abs_manager (session_run clk ops)) i = Some (True, caps_set (granted s))"
    by (auto simp: abs_active)
  then show ?thesis
  proof (induction ops arbitrary: s rule: rev_induct)
    case Nil
    then show ?case by (simp add: abs_defs init_manager_def)
  next
    case (snoc op ops)
    let ?a = "abs_manager (session_run clk ops)"
    from snoc.prems have "acc_sessions (access_step ?a op) i = Some (True, caps_set (granted s))"
      by (simp add: abs_step)
    from access_step_active [OF this] show ?case
    proof (elim disjE conjE exE)
      assume act: "acc_sessions ?a i = Some (True, caps_set (granted s))" and "\<not> ends_session i op"
      with snoc.IH [OF act] show ?thesis by fastforce
    next
      fix c act g'
      assume op: "op = OpAuthorize i c" and "acc_sessions ?a i = Some (act, g')"
        and "caps_set c \<inter> (acc_ceiling ?a \<union> {0}) \<noteq> {}"
      then have "fst (authorize clk (session_run clk ops) i c) = success"
        using allowed_bits_empty [of c "ceiling (session_run clk ops)"]
        by (auto simp: authorize_success_iff abs_manager_def simp del: caps_set_ops)
      with op show ?thesis by fastforce
    qed
  qed
qed

definition demo_peer :: peer_info where
  "demo_peer = \<lparr>redesk_id = ''729'', fingerprint = ''fp'', static_key = []\<rparr>"

lemmas demo_eval = session_run_def session_op_defs demo_peer_def init_manager_def emplace_def
  record_audit_def transition_def store_session_def setState_def new_session_def grant_def
  capability_defs unknown_session_def

lemma demo_active:
  "\<exists>s. map_of (sessions (session_run (\<lambda>_. 0) [OpBegin demo_peer, OpAuthorize 1 ViewOnly])) 1 = Some s
     \<and> state s = Active \<and> bit (granted s) 0"
  by (simp add: demo_eval)

theorem active_only_by_authorize_witness:
  "\<exists>pre c post. [OpBegin demo_peer, OpAuthorize 1 ViewOnly] = pre @ OpAuthorize 1 c # post
    \<and> fst (authorize (\<lambda>_. 0) (session_run (\<lambda>_. 0) pre) 1 c) = success
    \<and> (\<forall>op \<in> set post. \<not> ends_session 1 op)"
  using demo_active active_only_by_authorize by blast

text \<open>C4: least privilege. Every capability a session holds is the view capability or was
  requested for this session by an \<open>authorize\<close> call at a moment when the machine's ceiling
  contained it.\<close>

theorem grants_requested_under_ceiling:
  assumes "map_of (sessions (session_run clk ops)) i = Some s" and "b \<in> caps_set (granted s)"
  shows "b = 0 \<or> (\<exists>pre c post. ops = pre @ OpAuthorize i c # post
    \<and> b \<in> caps_set c \<and> b \<in> caps_set (ceiling (session_run clk pre)))"
proof -
  from assms have "\<exists>act g. acc_sessions (abs_manager (session_run clk ops)) i = Some (act, g) \<and> b \<in> g"
    by (auto simp: abs_defs)
  then show ?thesis
  proof (induction ops rule: rev_induct)
    case Nil
    then show ?case by (simp add: abs_defs init_manager_def)
  next
    case (snoc op ops)
    let ?a = "abs_manager (session_run clk ops)"
    from snoc.prems obtain act g where
      "acc_sessions (access_step ?a op) i = Some (act, g)" and "b \<in> g"
      by (auto simp: abs_step)
    from access_step_grants [OF this] show ?case
    proof (elim disjE)
      assume "\<exists>act' g'. acc_sessions ?a i = Some (act', g') \<and> b \<in> g'"
      from snoc.IH [OF this] show ?thesis by fastforce
    next
      assume "\<exists>c. op = OpAuthorize i c \<and> (b = 0 \<or> b \<in> caps_set c \<and> b \<in> acc_ceiling ?a)"
      then show ?thesis by (fastforce simp: abs_manager_def)
    qed
  qed
qed

theorem grants_requested_under_ceiling_witness:
  "\<exists>s. map_of (sessions (session_run (\<lambda>_. 0)
        [OpBegin demo_peer, OpCeiling Control, OpAuthorize 1 Control])) 1 = Some s
    \<and> 1 \<in> caps_set (granted s)
    \<and> ((1 :: nat) = 0 \<or> (\<exists>pre c post. [OpBegin demo_peer, OpCeiling Control, OpAuthorize 1 Control]
          = pre @ OpAuthorize 1 c # post
        \<and> 1 \<in> caps_set c \<and> 1 \<in> caps_set (ceiling (session_run (\<lambda>_. 0) pre))))"
proof -
  have "\<exists>s. map_of (sessions (session_run (\<lambda>_. 0)
        [OpBegin demo_peer, OpCeiling Control, OpAuthorize 1 Control])) 1 = Some s
    \<and> 1 \<in> caps_set (granted s)"
    by (simp add: demo_eval bit_or_iff bit_1_iff)
  then show ?thesis using grants_requested_under_ceiling by blast
qed

text \<open>C21: What the manager keeps, and what it fails to take up. Along any further calls the audit log only
  grows, a pinned fingerprint is never replaced, and every session stays, with its id and at least the
  capabilities it had (so nothing ever revokes a capability). It also stays with the peer it was begun
  with, which is a defect where that peer had no fingerprint: the one that a completed handshake
  presents is never recorded on the session, neither by that call nor by any later one, although the
  comment in the code says that it is recorded there as the authoritative identity.\<close>

theorem manager_never_forgets:
  "manager_evolves (session_run clk ops) (session_run clk (ops @ ops'))
   \<and> (case map_of (sessions (session_run clk ops)) i of None \<Rightarrow> True
      | Some s \<Rightarrow> map_option (fingerprint \<circ> peer) (map_of (sessions (session_run clk (ops @ OpHandshakeCompleted i fp # ops'))) i)
                    = Some (fingerprint (peer s)))"
proof -
  have ev: "manager_evolves (session_run clk ops) (session_run clk (ops @ ops'))" for ops'
    unfolding session_run_append by (rule session_history.run_rel) simp
  have "map_option (fingerprint \<circ> peer) (map_of (sessions (session_run clk (ops @ OpHandshakeCompleted i fp # ops'))) i)
      = Some (fingerprint (peer s))" if "map_of (sessions (session_run clk ops)) i = Some s" for s
    using ev [of "OpHandshakeCompleted i fp # ops'"] that by (force simp: manager_evolves_def session_evolves_def)
  with ev show ?thesis by (simp split: option.split)
qed

text \<open>\<open>onHandshakeCompleted\<close> on a known session. A fingerprint on the deny list denies
  the session and audits the failure; otherwise the session keeps its state and the first
  fingerprint seen for a routing id is pinned, a repeated one is accepted silently and a
  different one is audited as a key change and leaves the pin alone.\<close>

theorem handshake_completed_cases:
  assumes "map_of (sessions m) i = Some s"
  shows "let r = onHandshakeCompleted clk m i fp; m' = snd r;
             rid = redesk_id (peer s); new = map event (drop (length (audit m)) (audit m'))
         in if fp \<in> deny_list m then
              code (fst r) = PermissionDenied \<and> new = [HandshakeCompleted, AuthFailed]
              \<and> map_option state (map_of (sessions m') i) = Some Denied \<and> tofu_pins m' = tofu_pins m
            else fst r = success \<and> sessions m' = sessions m
              \<and> (case map_of (tofu_pins m) rid of
                   None \<Rightarrow> new = [HandshakeCompleted] \<and> map_of (tofu_pins m') = (map_of (tofu_pins m))(rid \<mapsto> fp)
                 | Some pinned \<Rightarrow> tofu_pins m' = tofu_pins m
                     \<and> new = (if pinned = fp then [HandshakeCompleted]
                              else [HandshakeCompleted, KeyChangeDetected]))"
  using assms by (auto simp: onHandshakeCompleted_def split: option.splits)

theorem handshake_completed_cases_witness:
  "let m = session_run (\<lambda>_. 0) [OpBegin demo_peer, OpHandshakeCompleted 1 ''old''];
       r = onHandshakeCompleted (\<lambda>_. 0) m 1 ''new''
   in map event (drop (length (audit m)) (audit (snd r))) = [HandshakeCompleted, KeyChangeDetected]"
proof -
  let ?m = "session_run (\<lambda>_. 0) [OpBegin demo_peer, OpHandshakeCompleted 1 ''old'']"
  have s: "map_of (sessions ?m) 1 = Some (new_session 1 demo_peer)"
    and d: "deny_list ?m = {}" and p: "map_of (tofu_pins ?m) ''729'' = Some ''old''"
    by (simp_all add: demo_eval)
  from handshake_completed_cases [OF s, of "\<lambda>_. 0" "''new''"] d p show ?thesis
    by (simp add: demo_peer_def)
qed

text \<open>the audit trail of the gate. A refused check of a known session adds exactly one
  \<open>PermissionCheckDenied\<close> record under the session's fingerprint and changes no session,
  pin or policy; an allowed check, and a check of an unknown session, change nothing.\<close>

theorem checkPermission_audits_denials:
  "let r = checkPermission clk m i needed; m' = snd r
   in sessions m' = sessions m \<and> tofu_pins m' = tofu_pins m \<and> deny_list m' = deny_list m
      \<and> ceiling m' = ceiling m
      \<and> (case map_of (sessions m) i of
           None \<Rightarrow> \<not> fst r \<and> m' = m
         | Some s \<Rightarrow>
             if fst r then m' = m
             else \<exists>rec. audit m' = audit m @ [rec] \<and> event rec = PermissionCheckDenied
                 \<and> peer_fingerprint rec = fingerprint (peer s))"
  by (simp add: checkPermission_def split: option.splits)

text \<open>\<open>isBeingControlled\<close>, the indicator of the user interface, is on exactly when some
  session would pass the gate for the control capability.\<close>

theorem being_controlled_iff_gate:
  "isBeingControlled (session_run clk ops) \<longleftrightarrow>
     (\<exists>i. fst (checkPermission clk (session_run clk ops) i Control))"
proof -
  let ?m = "session_run clk ops"
  have "isBeingControlled ?m \<longleftrightarrow> (\<exists>i s. (i, s) \<in> set (sessions ?m) \<and> isAllowed s Control)"
    by (auto simp: isBeingControlled_def list_ex_iff isAllowed_def)
  also have "\<dots> \<longleftrightarrow> (\<exists>i s. map_of (sessions ?m) i = Some s \<and> isAllowed s Control)"
    using session_run_keys_ok by (metis map_of_is_SomeI map_of_SomeD)
  also have "\<dots> \<longleftrightarrow> (\<exists>i. fst (checkPermission clk ?m i Control))"
    by (auto simp: checkPermission_def split: option.splits)
  finally show ?thesis .
qed

text \<open>\<open>authorize\<close> asks neither for the state of the session nor for the deny list: on any
  known session, closed and denied ones included, a request that meets the ceiling makes
  the session active with the clamped grant.\<close>

theorem authorize_ignores_state_and_deny_list:
  assumes "map_of (sessions m) i = Some s" and "c AND (ceiling m OR ViewOnly) \<noteq> 0"
  shows "fst (authorize clk m i c) = success
    \<and> map_of (sessions (snd (authorize clk m i c))) i
        = Some (s\<lparr>state := Active,
                  granted := granted s OR (c AND (ceiling m OR ViewOnly) OR ViewOnly)\<rparr>)"
  using assms by (simp add: authorize_def grant_def)

theorem authorize_ignores_state_and_deny_list_witness:
  "\<exists>s. fingerprint (peer s) \<in> deny_list (session_run (\<lambda>_. 0)
         [OpBegin demo_peer, OpDenyPeer ''fp'', OpHandshakeCompleted 1 ''fp'', OpAuthorize 1 ViewOnly])
     \<and> map_of (sessions (session_run (\<lambda>_. 0)
         [OpBegin demo_peer, OpDenyPeer ''fp'', OpHandshakeCompleted 1 ''fp'', OpAuthorize 1 ViewOnly])) 1 = Some s
     \<and> state s = Active"
proof -
  let ?m = "session_run (\<lambda>_. 0) [OpBegin demo_peer, OpDenyPeer ''fp'', OpHandshakeCompleted 1 ''fp'']"
  have s: "map_of (sessions ?m) 1 = Some ((new_session 1 demo_peer)\<lparr>state := Denied\<rparr>)"
    and c: "ViewOnly AND (ceiling ?m OR ViewOnly) \<noteq> 0" and d: "''fp'' \<in> deny_list ?m"
    by (simp_all add: demo_eval)
  have d': "''fp'' \<in> deny_list (snd (authorize (\<lambda>_. 0) ?m 1 ViewOnly))"
    using d by (auto simp: authorize_def split: option.splits)
  have run: "session_run (\<lambda>_. 0) [OpBegin demo_peer, OpDenyPeer ''fp'', OpHandshakeCompleted 1 ''fp'',
      OpAuthorize 1 ViewOnly] = snd (authorize (\<lambda>_. 0) ?m 1 ViewOnly)"
    by (simp add: session_run_def)
  from authorize_ignores_state_and_deny_list [OF s c, of "\<lambda>_. 0"] d' show ?thesis
    unfolding run by (simp add: demo_peer_def)
qed

text \<open>on first contact the fingerprint learned from the handshake is not written to the
  session: a session created with an empty fingerprint keeps it, so the records of later
  calls about it are filed under the empty string.\<close>

theorem first_contact_fingerprint_lost:
  assumes "map_of (sessions m) i = Some s" and "fingerprint (peer s) = ''''" and "fp \<notin> deny_list m"
  shows "let m1 = snd (onHandshakeCompleted clk m i fp); m2 = snd (authorize clk m1 i c)
         in map_of (sessions m1) i = Some s
           \<and> (\<forall>rec \<in> set (drop (length (audit m1)) (audit m2)). peer_fingerprint rec = '''')"
  using assms
  by (auto simp: onHandshakeCompleted_def authorize_def split: option.splits if_splits)

definition anonymous_peer :: peer_info where
  "anonymous_peer = \<lparr>redesk_id = ''729'', fingerprint = '''', static_key = []\<rparr>"

theorem first_contact_fingerprint_lost_witness:
  "let m = session_run (\<lambda>_. 0) [OpBegin anonymous_peer];
       m1 = snd (onHandshakeCompleted (\<lambda>_. 0) m 1 ''learned'')
   in map_of (sessions m1) 1 = Some (new_session 1 anonymous_peer)"
proof -
  let ?m = "session_run (\<lambda>_. 0) [OpBegin anonymous_peer]"
  have s: "map_of (sessions ?m) 1 = Some (new_session 1 anonymous_peer)"
    and f: "fingerprint (peer (new_session 1 anonymous_peer)) = ''''"
    and d: "''learned'' \<notin> deny_list ?m"
    by (simp_all add: demo_eval anonymous_peer_def)
  from first_contact_fingerprint_lost [OF s f d, of "\<lambda>_. 0" ViewOnly] show ?thesis by simp
qed

end
