(* ===== verification/Session_Table.thy ===== *)
theory Session_Table
  imports Session_Gate
begin

text \<open>
  The session table of \<open>core/session/session.cpp\<close> over any history of calls: which ids it holds and
  what each entry looks like. Ids are counted in 64 bits, so the statements are about histories with
  fewer than 2 to the 64 calls.
\<close>

section \<open>Well-formed managers\<close>

text \<open>The table holds the ids 1, 2, 3, ... in the order of creation, the next id is the one after them,
  every session carries the id it is filed under, and an active session may always be viewed.\<close>

definition session_entry_ok :: "u64 \<times> session \<Rightarrow> bool" where
  "session_entry_ok e \<longleftrightarrow> sess_id (snd e) = fst e \<and> (state (snd e) = Active \<longrightarrow> hasCapability (granted (snd e)) ViewOnly)"

definition manager_wf :: "manager \<Rightarrow> bool" where
  "manager_wf m \<longleftrightarrow> map fst (sessions m) = map (\<lambda>k. of_nat (Suc k)) [0..<length (sessions m)]
     \<and> next_id m = of_nat (Suc (length (sessions m)))
     \<and> list_all session_entry_ok (sessions m) \<and> keys_ok (tofu_pins m)"

lemma map_fst_update: "map_of al k \<noteq> None \<Longrightarrow> map fst (AList.update k v al) = map fst al"
  by (induction al) auto

lemma view_only_granted: "hasCapability (g OR (x OR ViewOnly)) ViewOnly"
  unfolding hasCapability_subset by (simp add: ViewOnly_def) (auto simp: bit_simps)

lemma manager_wf_store:
  assumes "manager_wf m" and "map_of (sessions m) i = Some s" and "session_entry_ok (i, s')"
    and "sessions m' = AList.update i s' (sessions m)" and "next_id m' = next_id m" and "tofu_pins m' = tofu_pins m"
  shows "manager_wf m'"
proof -
  have "length (sessions m') = length (sessions m)" using assms(2,4) by (simp add: length_update)
  moreover have "map fst (sessions m') = map fst (sessions m)" using assms(2,4) by (simp add: map_fst_update)
  moreover have "list_all session_entry_ok (sessions m')"
    using assms(1,3,4) set_update_subset [of i s' "sessions m"] by (auto simp: manager_wf_def list_all_iff)
  ultimately show ?thesis using assms(1,5,6) by (simp add: manager_wf_def)
qed

lemma manager_wf_leave:
  assumes "manager_wf m" and "map_of (sessions m) i = Some s" and "to \<noteq> Active"
    and "sessions m' = AList.update i (s\<lparr>state := to\<rparr>) (sessions m)" and "next_id m' = next_id m" and "tofu_pins m' = tofu_pins m"
  shows "manager_wf m'"
proof -
  have "session_entry_ok (i, s)" using assms(1,2) by (auto simp: manager_wf_def list_all_iff dest: map_of_SomeD)
  then have "session_entry_ok (i, s\<lparr>state := to\<rparr>)" using assms(3) by (simp add: session_entry_ok_def)
  from manager_wf_store [OF assms(1,2) this assms(4-6)] show ?thesis .
qed

lemma manager_wf_same:
  "manager_wf m \<Longrightarrow> sessions m' = sessions m \<Longrightarrow> next_id m' = next_id m \<Longrightarrow> keys_ok (tofu_pins m') \<Longrightarrow> manager_wf m'"
  by (simp add: manager_wf_def)

lemma wf_entry: "manager_wf m \<Longrightarrow> map_of (sessions m) i = Some s \<Longrightarrow> session_entry_ok (i, s)"
  by (auto simp: manager_wf_def list_all_iff dest: map_of_SomeD)

lemma fresh_id:
  assumes "manager_wf m" and "length (sessions m) + 1 < 2 ^ 64"
  shows "map_of (sessions m) (next_id m) = None"
proof -
  have neq: "of_nat (Suc (length (sessions m))) \<noteq> (of_nat (Suc k) :: u64)" if "k < length (sessions m)" for k
  proof
    assume "of_nat (Suc (length (sessions m))) = (of_nat (Suc k) :: u64)"
    then have "unat (of_nat (Suc (length (sessions m))) :: u64) = unat (of_nat (Suc k) :: u64)" by simp
    with that assms(2) show False by (simp only: unat_of_nat) simp
  qed
  have next_id: "next_id m = of_nat (Suc (length (sessions m)))"
    and ids: "map fst (sessions m) = map (\<lambda>k. of_nat (Suc k)) [0..<length (sessions m)]"
    using assms(1) unfolding manager_wf_def by blast+
  have "next_id m \<notin> set (map fst (sessions m))"
  proof
    assume "next_id m \<in> set (map fst (sessions m))"
    then have "of_nat (Suc (length (sessions m))) \<in> (\<lambda>k. of_nat (Suc k) :: u64) ` {0..<length (sessions m)}"
      unfolding next_id ids set_map set_upt .
    then obtain k where "k \<in> {0..<length (sessions m)}" "of_nat (Suc (length (sessions m))) = (of_nat (Suc k) :: u64)"
      by (rule imageE) blast
    with neq show False by (metis atLeastLessThan_iff)
  qed
  then show ?thesis by (simp add: map_of_eq_None_iff)
qed

lemma manager_wf_step:
  assumes "manager_wf m" and "length (sessions m) + 1 < 2 ^ 64"
  shows "manager_wf (session_step clk m op)"
proof (cases op)
  case (OpBegin p)
  let ?n = "length (sessions m)"
  from fresh_id [OF assms] have "emplace (next_id m) (new_session (next_id m) p) (sessions m)
      = sessions m @ [(next_id m, new_session (next_id m) p)]" by (simp add: emplace_def)
  moreover have "session_entry_ok (next_id m, new_session (next_id m) p)" by (simp add: session_entry_ok_def)
  ultimately show ?thesis using OpBegin assms(1) by (simp add: beginSession_def manager_wf_def)
next
  case (OpHandshakeStarted i)
  then show ?thesis
    using assms(1) manager_wf_leave [OF assms(1), of i _ Authenticating]
    by (auto simp: onHandshakeStarted_def split: option.splits)
next
  case (OpHandshakeCompleted i fp)
  have "keys_ok (tofu_pins m)" using assms(1) by (simp add: manager_wf_def)
  with OpHandshakeCompleted show ?thesis
    using assms(1) manager_wf_leave [OF assms(1), of i _ Denied] manager_wf_same [OF assms(1)]
    by (auto simp: onHandshakeCompleted_def split: option.splits)
next
  case (OpAuthorize i c)
  show ?thesis
  proof (cases "map_of (sessions m) i")
    case (Some s)
    have "session_entry_ok (i, (grant (c AND (ceiling m OR ViewOnly) OR ViewOnly) s)\<lparr>state := Active\<rparr>)"
      "session_entry_ok (i, s\<lparr>state := Denied\<rparr>)"
      using wf_entry [OF assms(1) Some] by (simp_all add: session_entry_ok_def view_only_granted)
    with OpAuthorize Some show ?thesis
      by (auto simp: authorize_def intro: manager_wf_store [OF assms(1) Some])
  qed (use OpAuthorize assms in \<open>simp add: authorize_def\<close>)
next
  case (OpDeny i r)
  then show ?thesis
    using assms(1) manager_wf_leave [OF assms(1), of i _ Denied]
    by (auto simp: deny_def split: option.splits)
next
  case (OpClose i)
  then show ?thesis
    using assms(1) manager_wf_leave [OF assms(1), of i _ Closed]
    by (auto simp: closeSession_def split: option.splits)
next
  case (OpCheck i c)
  have "keys_ok (tofu_pins m)" using assms(1) by (simp add: manager_wf_def)
  with OpCheck assms(1) show ?thesis
    by (auto simp: checkPermission_def intro: manager_wf_same [OF assms(1)] split: option.splits)
qed (use assms(1) in \<open>simp_all add: session_op_defs manager_wf_def\<close>)

section \<open>Histories\<close>

lemma length_sessions_step: "length (sessions (session_step clk m op)) \<le> Suc (length (sessions m))"
  by (cases op) (auto simp: session_op_defs length_update emplace_def split: option.splits)

lemma session_run_wf:
  "length ops < 2 ^ 64 - 1 \<Longrightarrow> manager_wf (session_run clk ops) \<and> length (sessions (session_run clk ops)) \<le> length ops"
proof (induction ops rule: rev_induct)
  case Nil
  then show ?case by (simp add: session_run_def init_manager_def manager_wf_def)
next
  case (snoc op ops)
  then have IH: "manager_wf (session_run clk ops)" "length (sessions (session_run clk ops)) \<le> length ops" by simp_all
  moreover from this snoc.prems have "manager_wf (session_step clk (session_run clk ops) op)"
    by (intro manager_wf_step) simp_all
  moreover have "length (sessions (session_step clk (session_run clk ops) op)) \<le> Suc (length (sessions (session_run clk ops)))"
    by (rule length_sessions_step)
  ultimately show ?case by simp
qed

text \<open>C20: The session table stays well formed: after any history of fewer than 2 to the 64 calls it holds the
  ids 1, 2, 3, ... once each and in order, every session carries the id it is filed under, an active
  session may always be viewed, every peer has one pin; and a new session gets an id that no session
  ever had, is filed under it as pending with no capability, and changes no other session.\<close>

theorem session_table_well_formed:
  assumes "length ops < 2 ^ 64 - 1"
  shows "manager_wf (session_run clk ops)
    \<and> (case beginSession clk (session_run clk ops) p of
         (Inl st, m) \<Rightarrow> sessions m = sessions (session_run clk ops)
       | (Inr i, m) \<Rightarrow> find_session (session_run clk ops) i = None
           \<and> sessions m = sessions (session_run clk ops) @ [(i, new_session i p)])"
proof -
  have wf: "manager_wf (session_run clk ops)" and l: "length (sessions (session_run clk ops)) \<le> length ops"
    using session_run_wf [OF assms] by simp_all
  from l assms have "length (sessions (session_run clk ops)) + 1 < 2 ^ 64" by simp
  from fresh_id [OF wf this] wf show ?thesis
    by (simp add: beginSession_def find_session_def emplace_def fail_def good_def)
qed

theorem session_table_well_formed_witness:
  "sessions (snd (beginSession (\<lambda>_. 0) (session_run (\<lambda>_. 0) [OpBegin demo_peer, OpClose 1]) demo_peer))
     = [(1, (new_session 1 demo_peer)\<lparr>state := Closed\<rparr>), (2, new_session 2 demo_peer)]"
proof -
  have "fst (beginSession (\<lambda>_. 0) (session_run (\<lambda>_. 0) [OpBegin demo_peer, OpClose 1]) demo_peer) = Inr 2"
    "sessions (session_run (\<lambda>_. 0) [OpBegin demo_peer, OpClose 1]) = [(1, (new_session 1 demo_peer)\<lparr>state := Closed\<rparr>)]"
    by (simp_all add: demo_eval good_def)
  with session_table_well_formed [of "[OpBegin demo_peer, OpClose 1]" "\<lambda>_. 0" demo_peer] show ?thesis
    by (cases "beginSession (\<lambda>_. 0) (session_run (\<lambda>_. 0) [OpBegin demo_peer, OpClose 1]) demo_peer") simp
qed

end
