(* ===== verification/Crypto_Core.thy ===== *)
theory Crypto_Core
  imports Common_Types Interfaces
begin

text \<open>
  The crypto layer of \<open>core/crypto/crypto.h\<close> with the default implementation of
  \<open>core/crypto/crypto_stub.cpp\<close>: identities and their safety-number fingerprint, the
  Noise session surface with its two-message handshake and XOR cipher, and the in-memory
  key store. A 32-byte \<open>std::array\<close> is a byte list; the sessions and identities built by
  the factories keep its length. An output parameter that an operation leaves alone on an
  error is the value of a \<open>result\<close>. Log lines are not modelled.
\<close>

section \<open>Identities and fingerprints\<close>

definition kX25519PublicKeyLen :: nat where "kX25519PublicKeyLen = 32"
definition kX25519SecretKeyLen :: nat where "kX25519SecretKeyLen = 32"

record identity =
  public_key :: "byte list"
  secret_key :: "byte list"
  has_secret :: bool

definition default_identity :: identity where
  "default_identity = \<lparr>public_key = replicate kX25519PublicKeyLen 0,
     secret_key = replicate kX25519SecretKeyLen 0, has_secret = False\<rparr>"

definition fnv1a :: "byte list \<Rightarrow> u64" where
  "fnv1a data = foldl (\<lambda>h b. (h XOR ucast b) * 1099511628211) 1469598103934665603 data"

text \<open>\<open>%05u\<close> of \<open>snprintf\<close>.\<close>

definition fmt_05u :: "nat \<Rightarrow> string" where
  "fmt_05u n = replicate (5 - length (to_string n)) (CHR ''0'') @ to_string n"

definition fingerprint_of_hash :: "u64 \<Rightarrow> string" where
  "fingerprint_of_hash h =
     fmt_05u (unat (h mod 100000)) @ '' '' @
     fmt_05u (unat ((h div 100000) mod 100000)) @ '' '' @
     fmt_05u (unat ((h div 10000000000) mod 100000)) @ '' '' @
     fmt_05u (unat ((h div 1000000000000000) mod 100000)) @ '' '' @
     fmt_05u (unat ((drop_bit 1 h) mod 100000))"

definition identity_fingerprint :: "identity \<Rightarrow> string" where
  "identity_fingerprint i = fingerprint_of_hash (fnv1a (public_key i))"

definition derivePublic :: "byte list \<Rightarrow> byte list" where
  "derivePublic sk = map (\<lambda>i. sk ! (length sk - 1 - i) XOR 0x5A) [0..<kX25519PublicKeyLen]"

definition makeStubIdentity :: "byte \<Rightarrow> identity" where
  "makeStubIdentity seed =
     (let sk = map (\<lambda>i. seed + of_nat (i * 7 + 1)) [0..<kX25519SecretKeyLen]
      in \<lparr>public_key = derivePublic sk, secret_key = sk, has_secret = True\<rparr>)"

section \<open>The Noise session\<close>

datatype noise_pattern = XK | KK
datatype handshake_role = Initiator | Responder

record noise =
  pattern :: noise_pattern
  role :: handshake_role
  local :: identity
  remote_static :: "byte list"
  remote_known :: bool
  handshake_done :: bool
  messages_written :: nat
  messages_read :: nat
  send_nonce :: u64
  recv_nonce :: u64

definition kMaxMessage :: nat where "kMaxMessage = 65535"

definition createNoiseSession ::
  "noise_pattern \<Rightarrow> handshake_role \<Rightarrow> identity \<Rightarrow> byte list \<Rightarrow> noise" where
  "createNoiseSession p r local_static remote =
     \<lparr>pattern = p, role = r, local = local_static, remote_static = remote,
      remote_known = (p = KK), handshake_done = False,
      messages_written = 0, messages_read = 0, send_nonce = 0, recv_nonce = 0\<rparr>"

definition maybeComplete :: "noise \<Rightarrow> noise" where
  "maybeComplete s =
     (if remote_known s \<and> 1 \<le> messages_written s \<and> 1 \<le> messages_read s
      then s\<lparr>handshake_done := True\<rparr> else s)"

definition writeMessage :: "noise \<Rightarrow> byte list \<Rightarrow> byte list result \<times> noise" where
  "writeMessage s payload =
     (if handshake_done s then (fail InvalidArgument ''handshake already complete'', s)
      else (good (public_key (local s) @ payload),
            maybeComplete (s\<lparr>messages_written := messages_written s + 1\<rparr>)))"

definition readMessage :: "noise \<Rightarrow> byte list \<Rightarrow> byte list result \<times> noise" where
  "readMessage s msg =
     (if handshake_done s then (fail InvalidArgument ''handshake already complete'', s)
      else if length msg < kX25519PublicKeyLen then
        (fail InvalidArgument ''short handshake message'', s)
      else (good (drop kX25519PublicKeyLen msg),
            maybeComplete (s\<lparr>remote_static := take kX25519PublicKeyLen msg, remote_known := True,
                             messages_read := messages_read s + 1\<rparr>)))"

definition isHandshakeComplete :: "noise \<Rightarrow> bool" where
  "isHandshakeComplete s \<longleftrightarrow> handshake_done s"

definition stream_key :: "noise \<Rightarrow> byte list" where
  "stream_key s = public_key (local s) @ remote_static s"

definition handshakeHash :: "noise \<Rightarrow> byte list" where
  "handshakeHash s = le_bytes 8 (fnv1a (stream_key s))"

definition remoteStaticKey :: "noise \<Rightarrow> byte list" where
  "remoteStaticKey s = remote_static s"

definition xor_key_byte :: "byte list \<Rightarrow> u64 \<Rightarrow> nat \<Rightarrow> byte" where
  "xor_key_byte key nonce i = key ! (i mod length key) XOR ucast ((nonce + of_nat i) AND 0xFF)"

definition xorStream :: "noise \<Rightarrow> byte list \<Rightarrow> u64 \<Rightarrow> byte list" where
  "xorStream s xs nonce =
     map (\<lambda>i. xs ! i XOR xor_key_byte (stream_key s) nonce i) [0..<length xs]"

definition encrypt :: "noise \<Rightarrow> byte list \<Rightarrow> byte list \<Rightarrow> byte list result \<times> noise" where
  "encrypt s plaintext ad =
     (if \<not> handshake_done s then (fail InvalidArgument ''handshake not complete'', s)
      else if length plaintext > kMaxMessage then
        (fail InvalidArgument ''plaintext exceeds 65535-byte Noise cap'', s)
      else (let nonce = send_nonce s
            in (good (le_bytes 8 nonce @ xorStream s plaintext nonce),
                s\<lparr>send_nonce := send_nonce s + 1\<rparr>)))"

definition decrypt :: "noise \<Rightarrow> byte list \<Rightarrow> byte list \<Rightarrow> byte list result \<times> noise" where
  "decrypt s ciphertext ad =
     (if \<not> handshake_done s then (fail InvalidArgument ''handshake not complete'', s)
      else if length ciphertext < 8 then (fail InvalidArgument ''short ciphertext'', s)
      else (let nonce = (of_le_bytes (take 8 ciphertext) :: u64)
            in if nonce < recv_nonce s then (fail PermissionDenied ''replayed/old nonce'', s)
               else (good (xorStream s (drop 8 ciphertext) nonce),
                     s\<lparr>recv_nonce := nonce + 1\<rparr>)))"

definition rekey :: "noise \<Rightarrow> noise" where
  "rekey s = s"

section \<open>The key store\<close>

record keystore =
  ks_identity :: identity
  have_identity :: bool
  seed :: byte

definition createKeyStore :: keystore where
  "createKeyStore = \<lparr>ks_identity = default_identity, have_identity = False, seed = 1\<rparr>"

definition ks_load :: "keystore \<Rightarrow> identity result" where
  "ks_load k = (if \<not> have_identity k then fail NotFound ''no stored identity''
                else good (ks_identity k))"

definition ks_generate :: "keystore \<Rightarrow> identity result \<times> keystore" where
  "ks_generate k =
     (let i = makeStubIdentity (seed k)
      in (good i, k\<lparr>ks_identity := i, seed := seed k + 1, have_identity := True\<rparr>))"

definition ks_store :: "keystore \<Rightarrow> identity \<Rightarrow> status \<times> keystore" where
  "ks_store k i = (success, k\<lparr>ks_identity := i, have_identity := True\<rparr>)"

definition ks_loadOrGenerate :: "keystore \<Rightarrow> identity result \<times> keystore" where
  "ks_loadOrGenerate k = (if have_identity k then (good (ks_identity k), k) else ks_generate k)"

section \<open>Histories\<close>

datatype noise_op =
    NWrite "byte list" | NRead "byte list" | NEncrypt "byte list" "byte list"
  | NDecrypt "byte list" "byte list" | NRekey

fun noise_step :: "noise \<Rightarrow> noise_op \<Rightarrow> noise" where
  "noise_step s (NWrite p) = snd (writeMessage s p)"
| "noise_step s (NRead m) = snd (readMessage s m)"
| "noise_step s (NEncrypt p ad) = snd (encrypt s p ad)"
| "noise_step s (NDecrypt c ad) = snd (decrypt s c ad)"
| "noise_step s NRekey = rekey s"

lemmas noise_op_defs = writeMessage_def readMessage_def encrypt_def decrypt_def rekey_def
  maybeComplete_def

text \<open>The bodies a receiver accepts from a sequence of ciphertexts, with their nonces.\<close>

fun accepted :: "noise \<Rightarrow> byte list list \<Rightarrow> u64 list" where
  "accepted s [] = []"
| "accepted s (c # cs) =
     (case decrypt s c [] of
        (Inl e, s') \<Rightarrow> accepted s' cs
      | (Inr p, s') \<Rightarrow> of_le_bytes (take 8 c) # accepted s' cs)"

end
