(* ===== verification/Crypto_Proofs.thy ===== *)
theory Crypto_Proofs
  imports Crypto_Core
begin

text \<open>
  What the crypto layer guarantees and what it does not: the safety number shows the whole
  hash, the handshake completes exactly when both sides have spoken, nonces are strictly
  increasing up to the wrap, the cipher inverts itself only under an equally oriented key,
  and the key store is stable.
\<close>

section \<open>The safety number\<close>

lemma length_fmt_05u [simp]: "n < 100000 \<Longrightarrow> length (fmt_05u n) = 5"
  using length_to_string_le [of 5 n] by (simp add: fmt_05u_def)

lemma fmt_05u_inj: "fmt_05u m = fmt_05u n \<Longrightarrow> m = n"
  unfolding fmt_05u_def by (metis string_val_zeros string_val_to_string)

lemma unat_group [simp]:
  "unat (h div 100000 :: u64) = unat h div 100000"
  "unat (h div 10000000000 :: u64) = unat h div 10000000000"
  "unat (h div 1000000000000000 :: u64) = unat h div 1000000000000000"
  "unat (h mod 100000 :: u64) = unat h mod 100000"
  by (simp_all add: unat_div unat_mod)

lemma base_100000:
  fixes n :: nat
  assumes "n < 100000 ^ 4"
  shows "n = n mod 100000 + 100000 * (n div 100000 mod 100000)
    + 10000000000 * (n div 10000000000 mod 100000)
    + 1000000000000000 * (n div 1000000000000000 mod 100000)"
proof -
  have "n = n mod 100000 + 100000 * (n div 100000)" by simp
  moreover have "n div 100000 = n div 100000 mod 100000 + 100000 * (n div 10000000000)"
    using mod_mult_div_eq [of "n div 100000" 100000] by (simp add: div_mult2_eq [symmetric])
  moreover have "n div 10000000000 = n div 10000000000 mod 100000 + 100000 * (n div 1000000000000000)"
    using mod_mult_div_eq [of "n div 10000000000" 100000] by (simp add: div_mult2_eq [symmetric])
  moreover have "n div 1000000000000000 mod 100000 = n div 1000000000000000"
    using assms by (intro mod_less) (simp add: less_mult_imp_div_less)
  ultimately show ?thesis by linarith
qed

lemma length_fingerprint: "length (fingerprint_of_hash h) = 29"
  by (simp add: fingerprint_of_hash_def)

lemma fingerprint_of_hash_inj: "fingerprint_of_hash g = fingerprint_of_hash h \<Longrightarrow> g = h"
proof -
  assume eq: "fingerprint_of_hash g = fingerprint_of_hash h"
  have u: "unat w < 100000 ^ 4" for w :: u64
  proof -
    have "unat w < 2 ^ LENGTH(64)" by (rule unsigned_less)
    then show ?thesis by simp
  qed
  from eq have
    "fmt_05u (unat g mod 100000) = fmt_05u (unat h mod 100000) \<and>
     fmt_05u (unat g div 100000 mod 100000) = fmt_05u (unat h div 100000 mod 100000) \<and>
     fmt_05u (unat g div 10000000000 mod 100000) = fmt_05u (unat h div 10000000000 mod 100000) \<and>
     fmt_05u (unat g div 1000000000000000 mod 100000) = fmt_05u (unat h div 1000000000000000 mod 100000)"
    by (simp add: fingerprint_of_hash_def append_eq_append_conv)
  then have "unat g mod 100000 = unat h mod 100000"
    and "unat g div 100000 mod 100000 = unat h div 100000 mod 100000"
    and "unat g div 10000000000 mod 100000 = unat h div 10000000000 mod 100000"
    and "unat g div 1000000000000000 mod 100000 = unat h div 1000000000000000 mod 100000"
    by (auto dest: fmt_05u_inj)
  then have "unat g = unat h"
    using base_100000 [OF u [of g]] base_100000 [OF u [of h]] by metis
  then show "g = h" by (rule unsigned_word_eqI)
qed

text \<open>the 29-character safety number loses nothing of the 64-bit hash it is made from:
  two identities show the same safety number exactly when their public keys hash alike.\<close>

theorem fingerprint_shows_whole_hash:
  "length (identity_fingerprint i) = 29 \<and>
   (identity_fingerprint i = identity_fingerprint j
      \<longleftrightarrow> fnv1a (public_key i) = fnv1a (public_key j))"
  by (auto simp: identity_fingerprint_def length_fingerprint dest: fingerprint_of_hash_inj)

section \<open>The handshake\<close>

definition handshake_inv :: "noise \<Rightarrow> bool" where
  "handshake_inv s \<longleftrightarrow>
     (handshake_done s \<longleftrightarrow> 1 \<le> messages_written s \<and> 1 \<le> messages_read s) \<and>
     (remote_known s \<longleftrightarrow> pattern s = KK \<or> 1 \<le> messages_read s)"

lemma handshake_inv_step: "handshake_inv s \<Longrightarrow> handshake_inv (noise_step s op)"
  by (cases op) (auto simp: noise_op_defs handshake_inv_def)

interpretation noise_run: run_invariant noise_step handshake_inv
  by unfold_locales (rule handshake_inv_step)

lemma handshake_inv_init: "handshake_inv (createNoiseSession p r l k)"
  by (auto simp: handshake_inv_def createNoiseSession_def)

text \<open>What a call contributes to the handshake, as long as it is not done.\<close>

definition is_write :: "noise_op \<Rightarrow> bool" where
  "is_write op \<longleftrightarrow> (\<exists>p. op = NWrite p)"

definition is_read :: "noise_op \<Rightarrow> bool" where
  "is_read op \<longleftrightarrow> (\<exists>m. op = NRead m \<and> kX25519PublicKeyLen \<le> length m)"

lemma noise_step_counts:
  assumes "handshake_inv s"
  shows "1 \<le> messages_written (noise_step s op) \<longleftrightarrow> 1 \<le> messages_written s \<or> is_write op"
    and "1 \<le> messages_read (noise_step s op) \<longleftrightarrow> 1 \<le> messages_read s \<or> is_read op"
  using assms
  by (cases op; auto simp: noise_op_defs handshake_inv_def is_write_def is_read_def)+

lemma noise_run_counts:
  assumes "handshake_inv s"
  shows "(1 \<le> messages_written (foldl noise_step s ops) \<longleftrightarrow>
            1 \<le> messages_written s \<or> list_ex is_write ops)
    \<and> (1 \<le> messages_read (foldl noise_step s ops) \<longleftrightarrow>
            1 \<le> messages_read s \<or> list_ex is_read ops)"
  using assms
proof (induction ops arbitrary: s)
  case Nil
  then show ?case by simp
next
  case (Cons op ops)
  then show ?case
    using handshake_inv_step [of s op] noise_step_counts [of s op] by auto
qed

text \<open>in any history of calls on a fresh session, of either pattern and role, the
  handshake is complete exactly when the history holds a \<open>writeMessage\<close> and a
  \<open>readMessage\<close> of at least 32 bytes; the order does not matter.\<close>

theorem handshake_complete_iff:
  "isHandshakeComplete (foldl noise_step (createNoiseSession p r l k) ops) \<longleftrightarrow>
     list_ex is_write ops \<and> list_ex is_read ops"
proof -
  let ?s = "createNoiseSession p r l k"
  have "handshake_inv (foldl noise_step ?s ops)"
    by (rule noise_run.run_inv [OF handshake_inv_init])
  then have "isHandshakeComplete (foldl noise_step ?s ops) \<longleftrightarrow>
      1 \<le> messages_written (foldl noise_step ?s ops) \<and> 1 \<le> messages_read (foldl noise_step ?s ops)"
    by (simp add: handshake_inv_def isHandshakeComplete_def)
  also have "\<dots> \<longleftrightarrow> list_ex is_write ops \<and> list_ex is_read ops"
    using noise_run_counts [OF handshake_inv_init, of p r l k ops]
    by (simp add: createNoiseSession_def)
  finally show ?thesis .
qed

section \<open>The cipher\<close>

lemma length_xorStream [simp]: "length (xorStream s xs n) = length xs"
  by (simp add: xorStream_def)

lemma xorStream_nth [simp]:
  "i < length xs \<Longrightarrow> xorStream s xs n ! i = xs ! i XOR xor_key_byte (stream_key s) n i"
  by (simp add: xorStream_def)

lemma xorStream_cross:
  "xorStream t (xorStream s xs n) n =
     map (\<lambda>i. xs ! i XOR (xor_key_byte (stream_key s) n i XOR xor_key_byte (stream_key t) n i))
       [0..<length xs]"
  by (rule nth_equalityI) (simp_all add: xor.assoc)

lemma decrypt_encrypted:
  assumes "handshake_done s" and "handshake_done t" and "length p \<le> kMaxMessage"
    and "recv_nonce t \<le> send_nonce s" and "fst (encrypt s p ad) = good c"
  shows "decrypt t c ad' =
    (good (xorStream t (xorStream s p (send_nonce s)) (send_nonce s)),
     t\<lparr>recv_nonce := send_nonce s + 1\<rparr>)"
proof -
  from assms(1,3,5) have c: "c = le_bytes 8 (send_nonce s) @ xorStream s p (send_nonce s)"
    by (simp add: encrypt_def)
  have "(of_le_bytes (le_bytes 8 (send_nonce s)) :: u64) = send_nonce s"
    by (rule of_le_le_bytes) simp
  then show ?thesis
    using assms(2,4) by (simp add: decrypt_def c)
qed

text \<open>a session that holds the same key stream in the same orientation, and has seen no
  later nonce, decrypts every ciphertext to its plaintext, whatever the associated data.\<close>

theorem cipher_roundtrip_same_orientation:
  assumes "handshake_done s" and "handshake_done t" and "stream_key t = stream_key s"
    and "recv_nonce t \<le> send_nonce s" and "length p \<le> kMaxMessage"
    and "fst (encrypt s p ad) = good c"
  shows "fst (decrypt t c ad') = good p"
proof -
  have "xorStream t (xorStream s p n) n = p" for n
    unfolding xorStream_cross assms(3) by (simp add: map_nth)
  with decrypt_encrypted [OF assms(1,2,5,4,6)] show ?thesis by simp
qed

definition demo_noise :: noise where
  "demo_noise = snd (readMessage
     (snd (writeMessage (createNoiseSession XK Initiator (makeStubIdentity 1) (replicate 32 0)) []))
     (replicate 32 7))"

lemma demo_noise_done: "handshake_done demo_noise" "send_nonce demo_noise = 0" "recv_nonce demo_noise = 0"
  by (simp_all add: demo_noise_def noise_op_defs createNoiseSession_def kX25519PublicKeyLen_def)

theorem cipher_roundtrip_same_orientation_witness:
  "\<exists>c. fst (encrypt demo_noise [1, 2, 3] []) = good c
     \<and> fst (decrypt demo_noise c []) = good [1, 2, 3]"
proof -
  have n: "recv_nonce demo_noise \<le> send_nonce demo_noise"
    and l: "length [1, 2, 3 :: byte] \<le> kMaxMessage"
    by (simp_all add: demo_noise_done kMaxMessage_def)
  obtain c where c: "fst (encrypt demo_noise [1, 2, 3] []) = good c"
    using demo_noise_done l by (simp add: encrypt_def)
  from cipher_roundtrip_same_orientation [OF demo_noise_done(1) demo_noise_done(1) refl n l c] c
  show ?thesis by blast
qed

text \<open>The two ends of an honest handshake: each writes its key and reads the other's.\<close>

definition handshake_pair :: "noise_pattern \<Rightarrow> identity \<Rightarrow> identity \<Rightarrow> noise \<times> noise" where
  "handshake_pair p ia ib =
     (let a0 = createNoiseSession p Initiator ia (public_key ib);
          b0 = createNoiseSession p Responder ib (public_key ia);
          (m1, a1) = writeMessage a0 [];
          b1 = (case m1 of Inl e \<Rightarrow> b0 | Inr m \<Rightarrow> snd (readMessage b0 m));
          (m2, b2) = writeMessage b1 [];
          a2 = (case m2 of Inl e \<Rightarrow> a1 | Inr m \<Rightarrow> snd (readMessage a1 m))
      in (a2, b2))"

lemma handshake_pair_ends:
  assumes "length (public_key ia) = 32" and "length (public_key ib) = 32"
  shows "handshake_done (fst (handshake_pair p ia ib))" "handshake_done (snd (handshake_pair p ia ib))"
    "stream_key (fst (handshake_pair p ia ib)) = public_key ia @ public_key ib"
    "stream_key (snd (handshake_pair p ia ib)) = public_key ib @ public_key ia"
    "send_nonce (fst (handshake_pair p ia ib)) = 0" "recv_nonce (snd (handshake_pair p ia ib)) = 0"
  using assms
  by (simp_all add: handshake_pair_def noise_op_defs createNoiseSession_def kX25519PublicKeyLen_def
      stream_key_def)

lemma xor_mask_cancel: "(x XOR m) XOR (y XOR m) = x XOR (y :: byte)"
  by (simp add: xor.assoc xor.left_commute xor.commute)

lemma mod_64_32: "i mod 64 = i mod 32 \<or> i mod 64 = 32 + i mod (32 :: nat)"
proof -
  have "i mod 64 = 32 * (i div 32 mod 2) + i mod 32"
    using mod_mult2_eq [of i 32 2] by simp
  moreover have "i div 32 mod 2 = 0 \<or> i div 32 mod 2 = 1" by linarith
  ultimately show ?thesis by auto
qed

lemma swapped_keys_nth:
  assumes "length ka = 32" and "length kb = 32"
  shows "(ka @ kb) ! (i mod 64) XOR (kb @ ka) ! (i mod 64) = ka ! (i mod 32) XOR (kb ! (i mod 32) :: byte)"
proof -
  have 1: "(ka @ kb) ! r = ka ! r" "(kb @ ka) ! r = kb ! r"
    and 2: "(ka @ kb) ! (32 + r) = kb ! r" "(kb @ ka) ! (32 + r) = ka ! r" if "r < 32" for r
    using that assms by (simp_all add: nth_append)
  from mod_64_32 [of i] show ?thesis
  proof
    assume "i mod 64 = i mod 32"
    then show ?thesis by (simp only: 1 [of "i mod 32"] mod_less_divisor zero_less_numeral)
  next
    assume "i mod 64 = 32 + i mod 32"
    then show ?thesis
      by (simp only: 2 [of "i mod 32"] mod_less_divisor zero_less_numeral xor.commute)
  qed
qed

lemma all_mod_32: "(\<forall>i < n. P (i mod 32)) \<longleftrightarrow> (\<forall>i < min n (32 :: nat). P i)"
proof (intro iffI allI impI)
  fix i assume a: "\<forall>i < n. P (i mod 32)" and "i < min n 32"
  then have "i < n" and "i mod 32 = i" by simp_all
  with a show "P i" by metis
next
  fix i assume "\<forall>i < min n 32. P i" and "i < n"
  moreover from \<open>i < n\<close> have "i mod 32 < min n 32"
    by (simp add: le_less_trans [OF mod_less_eq_dividend])
  ultimately show "P (i mod 32)" by blast
qed

lemma map_eq_self_iff: "map f [0..<length p] = p \<longleftrightarrow> (\<forall>i < length p. f i = p ! i)"
proof -
  have "map f [0..<length p] = p \<longleftrightarrow> map f [0..<length p] = map ((!) p) [0..<length p]"
    by (simp only: map_nth)
  also have "\<dots> \<longleftrightarrow> (\<forall>i < length p. f i = p ! i)" by (simp add: Ball_def)
  finally show ?thesis .
qed

lemma xor_mask_id: "(x :: byte) XOR (a XOR b) = x \<longleftrightarrow> a = b"
proof
  assume "x XOR (a XOR b) = x"
  then have "x XOR (x XOR (a XOR b)) = x XOR x" by simp
  then have "a XOR b = 0" by (simp flip: xor.assoc)
  then have "a XOR (a XOR b) = a" by simp
  then show "a = b" by (simp flip: xor.assoc)
qed simp

text \<open>C35: the peers of a handshake do not understand each other. The key stream is
  local key then remote key at both ends, so what the responder decrypts is the plaintext
  masked with both public keys: it equals what was sent only where the keys agree.\<close>

theorem peer_decrypts_to_masked_plaintext:
  assumes "length (public_key ia) = 32" and "length (public_key ib) = 32"
    and "length p \<le> kMaxMessage"
    and "fst (encrypt (fst (handshake_pair pat ia ib)) p ad) = good c"
  shows "\<exists>q. fst (decrypt (snd (handshake_pair pat ia ib)) c ad') = good q \<and> length q = length p
    \<and> q = map (\<lambda>i. p ! i XOR (public_key ia ! (i mod 32) XOR public_key ib ! (i mod 32))) [0..<length p]
    \<and> (q = p \<longleftrightarrow> take (length p) (public_key ia) = take (length p) (public_key ib))"
proof -
  let ?a = "fst (handshake_pair pat ia ib)" and ?b = "snd (handshake_pair pat ia ib)"
  note ends = handshake_pair_ends [OF assms(1,2), of pat]
  let ?q = "map (\<lambda>i. p ! i XOR (public_key ia ! (i mod 32) XOR public_key ib ! (i mod 32))) [0..<length p]"
  have "recv_nonce ?b \<le> send_nonce ?a" by (simp add: ends)
  then have d: "fst (decrypt ?b c ad') = good (xorStream ?b (xorStream ?a p (send_nonce ?a)) (send_nonce ?a))"
    using decrypt_encrypted [OF ends(1,2) assms(3) _ assms(4)] by simp
  have "xor_key_byte (stream_key ?a) n i XOR xor_key_byte (stream_key ?b) n i =
      public_key ia ! (i mod 32) XOR public_key ib ! (i mod 32)" for n i
    unfolding xor_key_byte_def ends xor_mask_cancel
    using assms(1,2) swapped_keys_nth [OF assms(1,2), of i] by simp
  then have q: "fst (decrypt ?b c ad') = good ?q"
    unfolding d xorStream_cross by simp
  have "?q = p \<longleftrightarrow> (\<forall>i < length p. public_key ia ! (i mod 32) = public_key ib ! (i mod 32))"
    unfolding map_eq_self_iff xor_mask_id ..
  also have "\<dots> \<longleftrightarrow> (\<forall>i < min (length p) 32. public_key ia ! i = public_key ib ! i)"
    using all_mod_32 [of "length p" "\<lambda>j. public_key ia ! j = public_key ib ! j"] by simp
  also have "\<dots> \<longleftrightarrow> take (length p) (public_key ia) = take (length p) (public_key ib)"
    using assms(1,2) by (auto simp: list_eq_iff_nth_eq)
  finally show ?thesis using q by auto
qed

lemma length_derivePublic [simp]: "length (derivePublic sk) = 32"
  by (simp add: derivePublic_def kX25519PublicKeyLen_def)

lemma length_stub_key [simp]: "length (public_key (makeStubIdentity sd)) = 32"
  by (simp add: makeStubIdentity_def)

lemma stub_secret_nth: "i < 32 \<Longrightarrow> secret_key (makeStubIdentity sd) ! i = sd + of_nat (i * 7 + 1)"
  by (simp add: makeStubIdentity_def kX25519SecretKeyLen_def)

lemma stub_public_nth:
  "i < 32 \<Longrightarrow> public_key (makeStubIdentity sd) ! i = (sd + of_nat ((31 - i) * 7 + 1)) XOR 0x5A"
  by (simp add: makeStubIdentity_def derivePublic_def kX25519SecretKeyLen_def kX25519PublicKeyLen_def)

theorem peer_decrypts_to_masked_plaintext_witness:
  "\<exists>c q. fst (encrypt (fst (handshake_pair XK (makeStubIdentity 1) (makeStubIdentity 2))) [0] []) = good c
    \<and> fst (decrypt (snd (handshake_pair XK (makeStubIdentity 1) (makeStubIdentity 2))) c []) = good q
    \<and> q \<noteq> [0]"
proof -
  let ?a = "fst (handshake_pair XK (makeStubIdentity 1) (makeStubIdentity 2))"
  have l: "length [0 :: byte] \<le> kMaxMessage" by (simp add: kMaxMessage_def)
  obtain c where c: "fst (encrypt ?a [0] []) = good c"
    using handshake_pair_ends(1) [of "makeStubIdentity 1" "makeStubIdentity 2" XK] l
    by (simp add: encrypt_def)
  have len: "length (public_key (makeStubIdentity 1)) = 32" "length (public_key (makeStubIdentity 2)) = 32"
    by simp_all
  from peer_decrypts_to_masked_plaintext [OF len l c, of "[]"] obtain q where
    q: "fst (decrypt (snd (handshake_pair XK (makeStubIdentity 1) (makeStubIdentity 2))) c []) = good q"
    and eq: "q = [0] \<longleftrightarrow> take 1 (public_key (makeStubIdentity 1)) = take 1 (public_key (makeStubIdentity 2))"
    by auto
  have "public_key (makeStubIdentity 1) ! 0 \<noteq> public_key (makeStubIdentity 2) ! 0"
    by (simp add: stub_public_nth)
  then have "q \<noteq> [0]"
    unfolding eq using len by (metis nth_take zero_less_one)
  with c q show ?thesis by blast
qed

section \<open>Replay\<close>

lemma decrypt_result:
  "decrypt s c ad = (r, s') \<Longrightarrow>
     (\<exists>p. r = Inr p \<and> recv_nonce s \<le> of_le_bytes (take 8 c)
        \<and> recv_nonce s' = of_le_bytes (take 8 c) + 1 \<and> handshake_done s' = handshake_done s)
   \<or> (\<exists>e. r = Inl e \<and> s' = s)"
  by (auto simp: decrypt_def good_def fail_def not_less split: if_splits)

lemma less_plus_one: "n \<noteq> (- 1 :: u64) \<Longrightarrow> n + 1 \<le> m \<Longrightarrow> n < m"
proof -
  assume n: "n \<noteq> - 1" and m: "n + 1 \<le> m"
  have "1 + n \<noteq> 0" using n by (auto simp: eq_neg_iff_add_eq_0 add.commute)
  then have "unat (1 + n) = Suc (unat n)" by (rule unatSuc)
  with m show "n < m" by (simp add: word_less_nat_alt word_le_nat_alt add.commute)
qed

lemma accepted_increasing:
  "sorted_wrt (<) (takeWhile (\<lambda>n. n \<noteq> - 1) (accepted s cs))
   \<and> list_all (\<lambda>n. recv_nonce s \<le> n) (takeWhile (\<lambda>n. n \<noteq> - 1) (accepted s cs))"
proof (induction cs arbitrary: s)
  case Nil
  then show ?case by simp
next
  case (Cons c cs)
  obtain r s' where d: "decrypt s c [] = (r, s')" by fastforce
  show ?case
  proof (cases r)
    case (Inl e)
    with decrypt_result [OF d] have "s' = s" by auto
    with Cons.IH [of s] d Inl show ?thesis by simp
  next
    case (Inr p)
    let ?n = "of_le_bytes (take 8 c) :: u64"
    from decrypt_result [OF d] Inr have n: "recv_nonce s \<le> ?n" and r: "recv_nonce s' = ?n + 1"
      by auto
    have lt: "?n \<noteq> - 1 \<Longrightarrow> recv_nonce s' \<le> m \<Longrightarrow> ?n < m" for m
      unfolding r by (rule less_plus_one)
    from Cons.IH [of s'] d Inr n lt show ?thesis
      by (fastforce simp: list_all_iff)
  qed
qed

text \<open>C22: replay protection. Over any sequence of ciphertexts, well formed or not, the nonces
  of those a session accepts are strictly increasing (so none is accepted twice), up to the
  first one that carries the largest 64-bit nonce.\<close>

theorem accepted_nonces_increase:
  "sorted_wrt (<) (takeWhile (\<lambda>n. n \<noteq> - 1) (accepted s cs))"
  using accepted_increasing by blast

text \<open>the largest nonce disarms it. A ciphertext whose nonce bytes are all 0xFF is accepted
  by every session with a finished handshake, whatever it has seen, and afterwards the
  session accepts any ciphertext of at least 8 bytes again, old ones included.\<close>

theorem largest_nonce_resets_replay_window:
  assumes "handshake_done s"
  shows "let (r, s') = decrypt s (replicate 8 255 @ body) ad
         in (\<exists>p. r = good p) \<and> recv_nonce s' = 0
          \<and> (8 \<le> length c \<longrightarrow> (\<exists>p. fst (decrypt s' c ad') = good p))"
proof -
  have "le_bytes 8 (- 1 :: u64) = replicate 8 (- 1)"
  proof (rule nth_equalityI)
    fix i assume "i < length (le_bytes 8 (- 1 :: u64))"
    then show "le_bytes 8 (- 1 :: u64) ! i = replicate 8 (- 1) ! i"
      by (intro bit_eqI) (auto simp: bit_le_bytes dest: bit_imp_le_length)
  qed simp
  moreover have "(- 1 :: byte) = 255" by simp
  ultimately have "le_bytes 8 (- 1 :: u64) = replicate 8 255" by metis
  then have "(of_le_bytes (replicate 8 255) :: u64) = - 1"
    using of_le_le_bytes [where w = "- 1 :: u64" and n = 8] by simp
  moreover have "\<not> (- 1 :: u64) < n" for n
    by (simp add: word_order.extremum_strict)
  ultimately show ?thesis
    using assms by (simp add: decrypt_def word_less_nat_alt)
qed

theorem largest_nonce_resets_replay_window_witness:
  "\<exists>p. fst (decrypt (snd (decrypt (demo_noise\<lparr>recv_nonce := 1000\<rparr>) (replicate 8 255) []))
          (replicate 8 0) []) = good p"
proof -
  have "handshake_done (demo_noise\<lparr>recv_nonce := 1000\<rparr>)" by (simp add: demo_noise_done)
  from largest_nonce_resets_replay_window [OF this, of "[]" "[]" "replicate 8 0" "[]"]
  show ?thesis by (simp split: prod.splits)
qed

section \<open>The key store\<close>

text \<open>the normal first-run path is stable: after \<open>loadOrGenerate\<close> the identity it
  returned is the one every later \<open>load\<close> and \<open>loadOrGenerate\<close> returns; what is stored
  is what is loaded; and two generated identities agree in their public keys only if they
  were made from the same seed byte.\<close>

theorem keystore_stable:
  "(let (r, k') = ks_loadOrGenerate k in ks_load k' = r \<and> ks_loadOrGenerate k' = (r, k'))
   \<and> ks_load (snd (ks_store k i)) = good i
   \<and> (public_key (makeStubIdentity a) = public_key (makeStubIdentity b) \<longleftrightarrow> a = b)"
proof -
  have "a = b" if "public_key (makeStubIdentity a) = public_key (makeStubIdentity b)"
  proof -
    from that have "public_key (makeStubIdentity a) ! 31 XOR 0x5A = public_key (makeStubIdentity b) ! 31 XOR 0x5A"
      by simp
    then show "a = b" by (simp add: stub_public_nth xor.assoc)
  qed
  then show ?thesis
    by (auto simp: ks_loadOrGenerate_def ks_load_def ks_generate_def ks_store_def)
qed

end
