(* ===== verification/Logging.thy ===== *)
theory Logging
  imports Prelude
begin

text \<open>
  \<open>core/common/logging.h\<close> and \<open>logging.cpp\<close>: the levels, the call-site stripping, the
  level gate of the default sink and the replaceable slot of the process-wide logger.
  A sink is a \<open>stderr_logger\<close> (its minimum level) or a custom one, named by a number, whose
  gate and output are parameters. The time of day printed in a line is a parameter.
\<close>

datatype log_level = LTrace | LDebug | LInfo | LWarn | LError | LOff

definition level_code :: "log_level \<Rightarrow> int" where
  "level_code l = (case l of LTrace \<Rightarrow> 0 | LDebug \<Rightarrow> 1 | LInfo \<Rightarrow> 2 | LWarn \<Rightarrow> 3 | LError \<Rightarrow> 4 | LOff \<Rightarrow> 5)"

fun level_toString :: "log_level \<Rightarrow> string" where
  "level_toString LTrace = ''TRACE''"
| "level_toString LDebug = ''DEBUG''"
| "level_toString LInfo = ''INFO''"
| "level_toString LWarn = ''WARN''"
| "level_toString LError = ''ERROR''"
| "level_toString LOff = ''OFF''"

instantiation log_level :: linorder
begin

definition less_eq_log_level :: "log_level \<Rightarrow> log_level \<Rightarrow> bool" where
  "less_eq_log_level a b \<longleftrightarrow> level_code a \<le> level_code b"

definition less_log_level :: "log_level \<Rightarrow> log_level \<Rightarrow> bool" where
  "less_log_level a b \<longleftrightarrow> level_code a < level_code b"

instance
  by standard (auto simp: less_eq_log_level_def less_log_level_def level_code_def split: log_level.splits)

end

section \<open>Call sites\<close>

text \<open>\<open>find_last_of("/\\")\<close> and \<open>substr\<close>; a null path is the empty string. The backslash is \<open>char_of 92\<close>.\<close>

definition is_slash :: "char \<Rightarrow> bool" where
  "is_slash c \<longleftrightarrow> c = CHR ''/'' \<or> c = char_of (92 :: nat)"

definition find_last_slash :: "string \<Rightarrow> nat option" where
  "find_last_slash p =
     (case dropWhile (\<lambda>c. \<not> is_slash c) (rev p) of [] \<Rightarrow> None | _ # before \<Rightarrow> Some (length before))"

definition basename :: "string option \<Rightarrow> string" where
  "basename path =
     (let p = (case path of Some s \<Rightarrow> s | None \<Rightarrow> '''')
      in case find_last_slash p of None \<Rightarrow> p | Some slash \<Rightarrow> drop (Suc slash) p)"

section \<open>Sinks and the active slot\<close>

datatype sink = stderr_logger log_level | custom_sink nat

definition makeStderrLogger :: "log_level \<Rightarrow> sink" where
  "makeStderrLogger min_level = stderr_logger min_level"

definition isEnabled :: "(nat \<Rightarrow> log_level \<Rightarrow> bool) \<Rightarrow> sink \<Rightarrow> log_level \<Rightarrow> bool" where
  "isEnabled custom_gate s level =
     (case s of stderr_logger min_level \<Rightarrow> level_code level \<ge> level_code min_level
      | custom_sink n \<Rightarrow> custom_gate n level)"

definition pad_right :: "nat \<Rightarrow> string \<Rightarrow> string" where
  "pad_right k s = s @ replicate (k - length s) (CHR '' '')"

text \<open>The line \<open>StderrLogger::log\<close> prints, without the time stamp: \<open>None\<close> when gated.\<close>

definition stderr_log :: "log_level \<Rightarrow> string \<Rightarrow> log_level \<Rightarrow> string \<Rightarrow> string \<Rightarrow> string option \<Rightarrow> nat \<Rightarrow> string option" where
  "stderr_log min_level ts level category msg file line =
     (if \<not> isEnabled (\<lambda>_ _. True) (stderr_logger min_level) level then None
      else Some (''['' @ ts @ '' '' @ pad_right 5 (level_toString level) @ '' '' @ category @ ''] ''
                 @ msg @ '' ('' @ basename file @ '':'' @ to_string line @ '')'' @ [char_of (10 :: nat)]))"

text \<open>The slot holds the installed sink; it starts with, and a null sink restores, the default.\<close>

definition initial_slot :: sink where
  "initial_slot = makeStderrLogger LInfo"

definition setLogger :: "sink option \<Rightarrow> sink \<Rightarrow> sink" where
  "setLogger s slot = (case s of Some k \<Rightarrow> k | None \<Rightarrow> makeStderrLogger LInfo)"

text \<open>\<open>REDESK_LOG\<close>: the message is built and handed to the sink only if the level is enabled.\<close>

definition redesk_log :: "(nat \<Rightarrow> log_level \<Rightarrow> bool) \<Rightarrow> sink \<Rightarrow> log_level \<Rightarrow> string \<Rightarrow> string \<Rightarrow> (sink \<times> log_level \<times> string \<times> string) list" where
  "redesk_log custom_gate slot level category msg =
     (if isEnabled custom_gate slot level then [(slot, level, category, msg)] else [])"

section \<open>Facts\<close>

lemma dropWhile_last_slash:
  assumes "is_slash c" and "\<forall>x \<in> set b. \<not> is_slash x"
  shows "dropWhile (\<lambda>x. \<not> is_slash x) (rev b @ c # a) = c # a"
proof -
  have "dropWhile (\<lambda>x. \<not> is_slash x) (rev b @ c # a) = dropWhile (\<lambda>x. \<not> is_slash x) (c # a)"
    by (rule dropWhile_append2) (use assms(2) in simp)
  then show ?thesis using assms(1) by simp
qed

lemma find_last_slash_append:
  assumes "is_slash c" and "\<forall>x \<in> set b. \<not> is_slash x"
  shows "find_last_slash (a @ c # b) = Some (length a)"
  using dropWhile_last_slash [OF assms, of "rev a"] by (simp only: find_last_slash_def rev_append
      rev.simps append_assoc append.simps list.case length_rev)

lemma find_last_slash_none:
  assumes "\<forall>x \<in> set p. \<not> is_slash x"
  shows "find_last_slash p = None"
proof -
  have "dropWhile (\<lambda>c. \<not> is_slash c) (rev p) = []" using assms by (simp add: dropWhile_eq_Nil_conv)
  then show ?thesis by (simp only: find_last_slash_def list.case)
qed

lemma basename_append:
  "is_slash c \<Longrightarrow> \<forall>x \<in> set b. \<not> is_slash x \<Longrightarrow> basename (Some (a @ c # b)) = b"
  by (simp add: basename_def find_last_slash_append)

lemma basename_plain: "\<forall>x \<in> set p. \<not> is_slash x \<Longrightarrow> basename (Some p) = p"
  by (simp add: basename_def find_last_slash_none)

lemma split_at_last_slash:
  "(\<forall>x \<in> set p. \<not> is_slash x) \<or> (\<exists>a c b. p = a @ c # b \<and> is_slash c \<and> (\<forall>x \<in> set b. \<not> is_slash x))"
  using split_list_last_prop [of p is_slash] by blast

lemma basename_no_slash: "x \<in> set (basename path) \<Longrightarrow> \<not> is_slash x"
proof (cases path)
  case None
  then show "x \<in> set (basename path) \<Longrightarrow> \<not> is_slash x" by (simp add: basename_def find_last_slash_def)
next
  case (Some p)
  then show "x \<in> set (basename path) \<Longrightarrow> \<not> is_slash x"
    using split_at_last_slash [of p] by (auto simp: basename_append basename_plain)
qed

text \<open>A log line never shows a directory: whatever path the compiler put in \<open>__FILE__\<close>, the printed
  file name is the part after its last slash or backslash and contains neither, so the build
  machine's paths do not leak, and the gate prints a line exactly when its level is at least
  the sink's minimum.\<close>

theorem log_line_hides_paths:
  "list_all (\<lambda>x. \<not> is_slash x) (basename (Some p))
   \<and> (\<exists>d. p = d @ basename (Some p) \<and> (d = [] \<or> is_slash (last d)))
   \<and> (stderr_log m ts level cat msg (Some p) line = None \<longleftrightarrow> level < m)"
proof -
  have "\<exists>d. p = d @ basename (Some p) \<and> (d = [] \<or> is_slash (last d))"
  proof (cases "\<forall>x \<in> set p. \<not> is_slash x")
    case True
    then show ?thesis by (simp add: basename_plain)
  next
    case False
    with split_at_last_slash obtain a c b
      where p: "p = a @ c # b" "is_slash c" "\<forall>x \<in> set b. \<not> is_slash x" by blast
    then have "p = (a @ [c]) @ basename (Some p)" and "is_slash (last (a @ [c]))"
      by (simp_all add: basename_append)
    then show ?thesis by blast
  qed
  then show ?thesis
    by (auto simp: basename_no_slash list_all_iff stderr_log_def isEnabled_def less_log_level_def)
qed

end
