(* ===== verification/Wire_Protocol.thy ===== *)
theory Wire_Protocol
  imports Prelude
begin

text \<open>
  \<open>proto/transport.proto.h\<close>: the channels, reliabilities, flags and message types of the wire
  protocol, the frame header, and the arithmetic of the fragmentation helper at its 32- and
  16-bit widths.
\<close>

definition kProtocolVersion :: u16 where "kProtocolVersion = 1"
definition kNoiseMessageMax :: u32 where "kNoiseMessageMax = 65535"
definition kAeadTagBytes :: u32 where "kAeadTagBytes = 16"

datatype wire_channel = kControl | kVideo | kAudio | kInput | kClipboard | kFile | kStats

definition wire_channel_code :: "wire_channel \<Rightarrow> byte" where
  "wire_channel_code c = (case c of kControl \<Rightarrow> 0 | kVideo \<Rightarrow> 1 | kAudio \<Rightarrow> 2 | kInput \<Rightarrow> 3
     | kClipboard \<Rightarrow> 4 | kFile \<Rightarrow> 5 | kStats \<Rightarrow> 6)"

datatype reliability = kUnreliable | kPartialReliable | kReliableOrdered

fun reliabilityFor :: "wire_channel \<Rightarrow> reliability" where
  "reliabilityFor kControl = kReliableOrdered"
| "reliabilityFor kVideo = kPartialReliable"
| "reliabilityFor kAudio = kUnreliable"
| "reliabilityFor kInput = kReliableOrdered"
| "reliabilityFor kClipboard = kReliableOrdered"
| "reliabilityFor kFile = kReliableOrdered"
| "reliabilityFor kStats = kUnreliable"

datatype frame_flag = kFlagKeyframe | kFlagFragment | kFlagLastFrag | kFlagFec | kFlagRetransmit | kFlagAck

definition flag_bits :: "frame_flag \<Rightarrow> u16" where
  "flag_bits f = push_bit (case f of kFlagKeyframe \<Rightarrow> 0 | kFlagFragment \<Rightarrow> 1 | kFlagLastFrag \<Rightarrow> 2
     | kFlagFec \<Rightarrow> 3 | kFlagRetransmit \<Rightarrow> 4 | kFlagAck \<Rightarrow> 5) 1"

datatype message_type = mtUnknown
  | kHello | kHelloAck | kCapabilities | kKeepalive | kBye | kKeyframeRequest | kRekey
  | kVideoFrame | kVideoFec | kAudioFrame | mtInputEvent
  | kClipboardText | kClipboardImage | kClipboardFiles
  | kFileOffer | kFileChunk | kFileAck | kCcFeedback

definition message_type_code :: "message_type \<Rightarrow> u16" where
  "message_type_code t = (case t of mtUnknown \<Rightarrow> 0
     | kHello \<Rightarrow> 100 | kHelloAck \<Rightarrow> 101 | kCapabilities \<Rightarrow> 102 | kKeepalive \<Rightarrow> 103 | kBye \<Rightarrow> 104
     | kKeyframeRequest \<Rightarrow> 105 | kRekey \<Rightarrow> 106
     | kVideoFrame \<Rightarrow> 200 | kVideoFec \<Rightarrow> 201 | kAudioFrame \<Rightarrow> 210 | mtInputEvent \<Rightarrow> 300
     | kClipboardText \<Rightarrow> 400 | kClipboardImage \<Rightarrow> 401 | kClipboardFiles \<Rightarrow> 402
     | kFileOffer \<Rightarrow> 500 | kFileChunk \<Rightarrow> 501 | kFileAck \<Rightarrow> 502 | kCcFeedback \<Rightarrow> 600)"

record frame_header =
  fh_channel :: wire_channel
  fh_reserved0 :: byte
  fh_type :: message_type
  fh_flags :: u16
  fh_frag_index :: u16
  fh_frag_count :: u16
  fh_seq :: u32
  fh_length :: u32

definition default_frame_header :: frame_header where
  "default_frame_header = \<lparr>fh_channel = kControl, fh_reserved0 = 0, fh_type = mtUnknown, fh_flags = 0,
     fh_frag_index = 0, fh_frag_count = 1, fh_seq = 0, fh_length = 0\<rparr>"

text \<open>The bytes of a header's fields, each by its type (the enum types of \<open>channel\<close> and \<open>type\<close> have underlying types of one
  and two bytes). The struct is packed, so its size is their sum.\<close>

definition size_bytes :: "'a::len word \<Rightarrow> nat" where
  "size_bytes w = LENGTH('a) div 8"

fun frame_header_sizes :: "frame_header \<Rightarrow> nat list" where
  "frame_header_sizes \<lparr>fh_channel = c, fh_reserved0 = r, fh_type = t, fh_flags = f, fh_frag_index = i, fh_frag_count = n,
       fh_seq = s, fh_length = l\<rparr> =
     [size_bytes (wire_channel_code c), size_bytes r, size_bytes (message_type_code t), size_bytes f, size_bytes i, size_bytes n,
      size_bytes s, size_bytes l]"

definition sizeof_FrameHeader :: u32 where
  "sizeof_FrameHeader = of_nat (sum_list (frame_header_sizes default_frame_header))"

lemma frame_header_size: "sum_list (frame_header_sizes h) = 18"
  by (cases h) (simp add: size_bytes_def)

lemma sizeof_FrameHeader_18 [simp]: "sizeof_FrameHeader = 18"
  by (simp add: sizeof_FrameHeader_def frame_header_size)

definition hasFlag :: "frame_header \<Rightarrow> frame_flag \<Rightarrow> bool" where
  "hasFlag h f \<longleftrightarrow> (fh_flags h AND flag_bits f) \<noteq> 0"

definition isWholeMessage :: "frame_header \<Rightarrow> bool" where
  "isWholeMessage h \<longleftrightarrow> fh_frag_count h \<le> 1 \<and> \<not> hasFlag h kFlagFragment"

definition usablePayloadBudget :: "u32 \<Rightarrow> u32" where
  "usablePayloadBudget path_mtu_after_noise =
     (let overhead = sizeof_FrameHeader + kAeadTagBytes
      in if path_mtu_after_noise > overhead then path_mtu_after_noise - overhead else 0)"

definition fragmentCount :: "u32 \<Rightarrow> u32 \<Rightarrow> u16" where
  "fragmentCount total_bytes budget =
     (if budget = 0 then 0
      else if total_bytes = 0 then 1
      else ucast ((total_bytes + budget - 1) div budget))"

section \<open>Facts\<close>

lemma wire_channel_code_inj: "wire_channel_code c = wire_channel_code d \<longleftrightarrow> c = d"
  by (cases c; cases d; simp add: wire_channel_code_def)

lemma message_type_code_inj: "message_type_code s = message_type_code t \<longleftrightarrow> s = t"
  by (cases s; cases t; simp add: message_type_code_def)

lemma unat_usablePayloadBudget: "unat (usablePayloadBudget m) = unat m - 34"
proof (cases "34 < m")
  case True
  then have "unat (m - 34) = unat m - unat (34 :: u32)"
    by (intro unat_sub) simp
  with True show ?thesis
    by (simp add: usablePayloadBudget_def kAeadTagBytes_def)
next
  case False
  then have "unat m \<le> 34" by (simp add: word_less_nat_alt)
  with False show ?thesis
    by (simp add: usablePayloadBudget_def kAeadTagBytes_def)
qed

lemma unat_ceil_numerator:
  fixes total budget :: u32
  assumes "budget \<noteq> 0" and "unat total + unat budget \<le> 2 ^ 32"
  shows "unat (total + budget - 1) = unat total + unat budget - 1"
proof -
  have b: "0 < unat budget" using assms(1) by (simp add: unat_gt_0)
  have minus: "unat (budget - 1) = unat budget - 1"
    using assms(1) by (simp add: unat_minus_one)
  have "unat total + unat (budget - 1) < 2 ^ LENGTH(32)"
    unfolding minus using assms(2) b by simp
  then have "unat (total + (budget - 1)) = unat total + unat (budget - 1)"
    by (rule unat_add_lem [THEN iffD1])
  moreover have eq: "total + budget - 1 = total + (budget - 1)" by (simp only: add_diff_eq)
  ultimately show ?thesis unfolding eq using b minus by linarith
qed

lemma ceil_div_bounds:
  fixes n b :: nat
  assumes "0 < b" and "0 < n"
  shows "n \<le> (n + b - 1) div b * b" and "((n + b - 1) div b - 1) * b < n"
proof -
  define q where "q = (n + b - 1) div b"
  have 1: "q * b \<le> n + b - 1" unfolding q_def by (rule div_times_less_eq_dividend)
  have 2: "n + b - 1 < q * b + b"
    unfolding q_def using dividend_less_div_times [OF assms(1), of "n + b - 1"] by simp
  from 2 assms have "n \<le> q * b" by linarith
  then show "n \<le> (n + b - 1) div b * b" by (simp only: q_def)
  have "(q - 1) * b = q * b - b" by (simp add: diff_mult_distrib)
  with 1 2 assms have "(q - 1) * b < n" by linarith
  then show "((n + b - 1) div b - 1) * b < n" by (simp only: q_def)
qed

lemma fragmentCount_exact:
  fixes total budget :: u32
  assumes "budget \<noteq> 0" and "total \<noteq> 0" and "unat total + unat budget \<le> 2 ^ 32"
    and "unat total \<le> 65535 * unat budget"
  shows "unat (fragmentCount total budget) = (unat total + unat budget - 1) div unat budget"
proof -
  have b: "0 < unat budget" using assms(1) by (simp add: unat_gt_0)
  have "unat total + unat budget - 1 < 65536 * unat budget" using assms(4) b by linarith
  then have small: "(unat total + unat budget - 1) div unat budget < 65536"
    by (simp add: div_less_iff_less_mult b)
  have "unat ((total + budget - 1) div budget) = (unat total + unat budget - 1) div unat budget"
    by (simp add: unat_div unat_ceil_numerator [OF assms(1,3)])
  then show ?thesis
    using assms(1,2) small by (simp add: fragmentCount_def unsigned_ucast_eq take_bit_nat_eq_self)
qed

text \<open>Within its range the fragment count is the exact one: that many frames of the budget hold
  the message, one frame fewer does not, and no message has zero fragments.\<close>

theorem fragmentCount_covers_message:
  fixes total budget :: u32
  assumes "budget \<noteq> 0" and "unat total + unat budget \<le> 2 ^ 32" and "unat total \<le> 65535 * unat budget"
  shows "unat total \<le> unat (fragmentCount total budget) * unat budget
    \<and> (total \<noteq> 0 \<longrightarrow> (unat (fragmentCount total budget) - 1) * unat budget < unat total)
    \<and> 0 < unat (fragmentCount total budget)"
proof (cases "total = 0")
  case True
  with assms(1) show ?thesis by (simp add: fragmentCount_def)
next
  case False
  have b: "0 < unat budget" and t: "0 < unat total"
    using assms(1) False by (simp_all add: unat_gt_0)
  from ceil_div_bounds [OF b t] fragmentCount_exact [OF assms(1) False assms(2,3)]
  show ?thesis using t by (auto intro!: gr0I)
qed

theorem fragmentCount_covers_message_witness:
  "unat (200000 :: u32) \<le> unat (fragmentCount 200000 65501) * unat (65501 :: u32)"
  using fragmentCount_covers_message [of 65501 200000] by simp

text \<open>Outside that range the helper goes wrong: the 32-bit sum wraps, so a message of nearly
  4 GiB gets no fragment at all, and the 16-bit cast makes a message of 65536 budgets look empty.\<close>

theorem fragmentCount_wraps:
  "fragmentCount 0xFFFFFFFF (usablePayloadBudget kNoiseMessageMax) = 0
   \<and> fragmentCount 65536 1 = 0 \<and> fragmentCount 65537 1 = 1"
  by (simp add: fragmentCount_def usablePayloadBudget_def kNoiseMessageMax_def
      kAeadTagBytes_def) code_simp?

end
