(* ===== verification/Codec_Tiers.thy ===== *)
theory Codec_Tiers
  imports Prelude
begin

text \<open>
  \<open>proto/codec.proto.h\<close>: the codec tiers with their wire order and the negotiation rule. The
  tiers are an instance of \<open>linorder\<close>, so that "the highest common tier" is the \<open>Max\<close> of
  an intersection.
\<close>

datatype codec_tier = tierNone | kH264High420 | kHevc420 | kHevc444 | kAv1

definition codec_tier_code :: "codec_tier \<Rightarrow> byte" where
  "codec_tier_code t = (case t of tierNone \<Rightarrow> 0 | kH264High420 \<Rightarrow> 1 | kHevc420 \<Rightarrow> 2 | kHevc444 \<Rightarrow> 3 | kAv1 \<Rightarrow> 4)"

definition kFloorTier :: codec_tier where "kFloorTier = kH264High420"
definition kBestTier :: codec_tier where "kBestTier = kAv1"

fun codecTierName :: "codec_tier \<Rightarrow> string" where
  "codecTierName tierNone = ''none''"
| "codecTierName kH264High420 = ''h264-high-420''"
| "codecTierName kHevc420 = ''hevc-420''"
| "codecTierName kHevc444 = ''hevc-444''"
| "codecTierName kAv1 = ''av1''"

instantiation codec_tier :: linorder
begin

definition less_eq_codec_tier :: "codec_tier \<Rightarrow> codec_tier \<Rightarrow> bool" where
  "less_eq_codec_tier a b \<longleftrightarrow> codec_tier_code a \<le> codec_tier_code b"

definition less_codec_tier :: "codec_tier \<Rightarrow> codec_tier \<Rightarrow> bool" where
  "less_codec_tier a b \<longleftrightarrow> codec_tier_code a < codec_tier_code b"

lemma codec_tier_code_inj: "codec_tier_code a = codec_tier_code b \<longleftrightarrow> a = b"
  by (cases a; cases b; simp add: codec_tier_code_def)

instance
  by standard (auto simp: less_eq_codec_tier_def less_codec_tier_def simp flip: codec_tier_code_inj)

end

text \<open>The inner loop over the remote tiers, then the outer one over the local tiers.\<close>

fun negotiate_inner :: "codec_tier \<Rightarrow> codec_tier list \<Rightarrow> codec_tier \<Rightarrow> codec_tier" where
  "negotiate_inner l [] best = best"
| "negotiate_inner l (r # rs) best =
     negotiate_inner l rs (if l = r \<and> codec_tier_code l > codec_tier_code best then l else best)"

fun negotiate_outer :: "codec_tier list \<Rightarrow> codec_tier list \<Rightarrow> codec_tier \<Rightarrow> codec_tier" where
  "negotiate_outer [] remote best = best"
| "negotiate_outer (l # ls) remote best =
     negotiate_outer ls remote (if l = tierNone then best else negotiate_inner l remote best)"

definition negotiateTier :: "codec_tier list \<Rightarrow> codec_tier list \<Rightarrow> codec_tier" where
  "negotiateTier local remote = negotiate_outer local remote tierNone"

definition floorCapabilities :: "codec_tier list" where
  "floorCapabilities = [kH264High420]"

section \<open>Facts\<close>

lemma tierNone_least [simp]: "tierNone \<le> t"
  by (simp add: less_eq_codec_tier_def codec_tier_code_def)

lemma code_less [simp]: "codec_tier_code a < codec_tier_code b \<longleftrightarrow> a < b"
  by (simp add: less_codec_tier_def)

lemma negotiate_inner_max: "negotiate_inner l rs best = (if l \<in> set rs then max best l else best)"
  by (induction rs arbitrary: best) (auto simp: max_def)

lemma negotiate_outer_Max:
  "negotiate_outer ls rs best = Max (insert best (set ls \<inter> set rs))"
proof (induction ls arbitrary: best)
  case Nil
  then show ?case by simp
next
  case (Cons l ls)
  let ?I = "set ls \<inter> set rs"
  have "Max (insert (max best l) ?I) = Max (insert best (insert l ?I))"
    by (cases "?I = {}") (simp_all add: max.assoc)
  moreover have "Max (insert best (insert tierNone ?I)) = Max (insert best ?I)"
    by (cases "?I = {}") (auto simp: max_absorb1 max_absorb2)
  ultimately show ?case
    using Cons by (auto simp: negotiate_inner_max Int_insert_left)
qed

lemma negotiateTier_Max: "negotiateTier ls rs = Max (insert tierNone (set ls \<inter> set rs))"
  by (simp add: negotiateTier_def negotiate_outer_Max)

text \<open>Negotiation picks the highest tier both sides offer, and none exactly when they share
  no real tier; the result does not depend on who is local, on order or on duplicates, and
  two builds that offer the floor never fail to agree.\<close>

theorem negotiate_is_highest_common:
  "negotiateTier ls rs = Max (insert tierNone (set ls \<inter> set rs))
   \<and> negotiateTier ls rs = negotiateTier rs ls
   \<and> (negotiateTier ls rs = tierNone \<longleftrightarrow> set ls \<inter> set rs \<subseteq> {tierNone})
   \<and> kFloorTier \<le> negotiateTier (floorCapabilities @ ls) (floorCapabilities @ rs)"
proof -
  have "negotiateTier ls rs = tierNone \<longleftrightarrow> set ls \<inter> set rs \<subseteq> {tierNone}"
  proof
    assume "negotiateTier ls rs = tierNone"
    then have "\<forall>t \<in> set ls \<inter> set rs. t \<le> tierNone"
      unfolding negotiateTier_Max by (metis List.finite_set Max_ge finite_Int finite_insert insertI2)
    then show "set ls \<inter> set rs \<subseteq> {tierNone}" by (auto intro: antisym)
  next
    assume "set ls \<inter> set rs \<subseteq> {tierNone}"
    then have "insert tierNone (set ls \<inter> set rs) = {tierNone}" by blast
    then show "negotiateTier ls rs = tierNone" by (simp only: negotiateTier_Max Max_singleton)
  qed
  moreover have "kFloorTier \<le> negotiateTier (floorCapabilities @ ls) (floorCapabilities @ rs)"
    unfolding negotiateTier_Max by (rule Max_ge) (simp_all add: floorCapabilities_def kFloorTier_def)
  ultimately show ?thesis
    by (simp add: negotiateTier_Max Int_commute)
qed

end
