(* ===== verification/Codec_Core.thy ===== *)
theory Codec_Core
  imports Common_Types Codec_Tiers Interfaces
begin

text \<open>
  \<open>core/codec/codec.h\<close> and \<open>codec_stub.cpp\<close>: the capability negotiation, and the reversible
  encoder and decoder that ship by default. \<open>appendPod\<close> and \<open>memcpy\<close> copy the header in the
  machine's byte order, which is little-endian on every platform the build files name; the
  header has no padding and is 32 bytes long. A callback is installed or not; what it is
  called with is part of a call's result.
\<close>

datatype codec = H264 | HEVC | AV1

fun codec_toString :: "codec \<Rightarrow> string" where
  "codec_toString H264 = ''H264''"
| "codec_toString HEVC = ''HEVC''"
| "codec_toString AV1 = ''AV1''"

datatype chroma_format = Yuv420 | Yuv444
datatype rate_control = Cbr | CappedVbr

record encoder_config =
  cfg_codec :: codec
  cfg_resolution :: Size
  cfg_chroma :: chroma_format
  cfg_target_bitrate_kbps :: u32
  cfg_max_bitrate_kbps :: u32
  cfg_max_fps :: u32
  cfg_rate_control :: rate_control
  cfg_low_latency :: bool
  cfg_vbv_max_ms :: u32
  cfg_input_format :: pixel_format

definition default_encoder_config :: encoder_config where
  "default_encoder_config = \<lparr>cfg_codec = H264, cfg_resolution = \<lparr>width = 0, height = 0\<rparr>,
     cfg_chroma = Yuv420, cfg_target_bitrate_kbps = 8000, cfg_max_bitrate_kbps = 0, cfg_max_fps = 60,
     cfg_rate_control = CappedVbr, cfg_low_latency = True, cfg_vbv_max_ms = 250, cfg_input_format = NV12\<rparr>"

record codec_capabilities =
  h264_encode :: bool
  h264_decode :: bool
  hevc_encode :: bool
  hevc_decode :: bool
  hevc_444_encode :: bool
  hevc_444_decode :: bool
  av1_encode :: bool
  av1_decode :: bool

record negotiated_codec =
  neg_ok :: bool
  neg_codec :: codec
  neg_chroma :: chroma_format

definition negotiateCodec :: "codec_capabilities \<Rightarrow> codec_capabilities \<Rightarrow> bool \<Rightarrow> negotiated_codec" where
  "negotiateCodec local remote localIsSender =
     (let enc = (if localIsSender then local else remote);
          dec = (if localIsSender then remote else local)
      in if av1_encode enc \<and> av1_decode dec then
           \<lparr>neg_ok = True, neg_codec = AV1, neg_chroma = Yuv420\<rparr>
         else if hevc_encode enc \<and> hevc_decode dec then
           \<lparr>neg_ok = True, neg_codec = HEVC,
            neg_chroma = (if hevc_444_encode enc \<and> hevc_444_decode dec then Yuv444 else Yuv420)\<rparr>
         else if h264_encode enc \<and> h264_decode dec then
           \<lparr>neg_ok = True, neg_codec = H264, neg_chroma = Yuv420\<rparr>
         else \<lparr>neg_ok = False, neg_codec = H264, neg_chroma = Yuv420\<rparr>)"

definition localCodecCapabilities :: codec_capabilities where
  "localCodecCapabilities = \<lparr>h264_encode = True, h264_decode = True, hevc_encode = True, hevc_decode = True,
     hevc_444_encode = True, hevc_444_decode = True, av1_encode = True, av1_decode = True\<rparr>"

section \<open>The stub packet\<close>

definition kStubMagic :: u32 where "kStubMagic = 0x52454442"

record stub_header =
  sh_magic :: u32
  sh_width :: u32
  sh_height :: u32
  sh_format :: u32
  sh_timestamp_us :: u64
  sh_keyframe :: u32
  sh_payload_len :: u32

definition sizeof_StubHeader :: nat where "sizeof_StubHeader = 32"

text \<open>The bytes of a header in memory, and a header read from 32 bytes.\<close>

definition header_bytes :: "stub_header \<Rightarrow> byte list" where
  "header_bytes h = le_bytes 4 (sh_magic h) @ le_bytes 4 (sh_width h) @ le_bytes 4 (sh_height h)
     @ le_bytes 4 (sh_format h) @ le_bytes 8 (sh_timestamp_us h) @ le_bytes 4 (sh_keyframe h)
     @ le_bytes 4 (sh_payload_len h)"

definition field :: "nat \<Rightarrow> nat \<Rightarrow> byte list \<Rightarrow> 'a::len word" where
  "field off n bs = of_le_bytes (take n (drop off bs))"

definition header_of_bytes :: "byte list \<Rightarrow> stub_header" where
  "header_of_bytes bs = \<lparr>sh_magic = field 0 4 bs, sh_width = field 4 4 bs, sh_height = field 8 4 bs,
     sh_format = field 12 4 bs, sh_timestamp_us = field 16 8 bs, sh_keyframe = field 24 4 bs,
     sh_payload_len = field 28 4 bs\<rparr>"

section \<open>The encoder\<close>

record encoder =
  enc_codec :: codec
  enc_config :: encoder_config
  enc_packet_cb :: bool
  enc_force_keyframe :: bool
  enc_first_frame :: bool

definition createVideoEncoder :: "codec \<Rightarrow> encoder" where
  "createVideoEncoder c = \<lparr>enc_codec = c, enc_config = default_encoder_config, enc_packet_cb = False,
     enc_force_keyframe = False, enc_first_frame = True\<rparr>"

definition enc_configure :: "encoder_config \<Rightarrow> encoder \<Rightarrow> status \<times> encoder" where
  "enc_configure config e = (success, e\<lparr>enc_config := config, enc_codec := cfg_codec config\<rparr>)"

definition enc_setPacketCallback :: "bool \<Rightarrow> encoder \<Rightarrow> encoder" where
  "enc_setPacketCallback cb e = e\<lparr>enc_packet_cb := cb\<rparr>"

definition encode_header :: "bool \<Rightarrow> video_frame \<Rightarrow> stub_header" where
  "encode_header key f = \<lparr>sh_magic = kStubMagic, sh_width = width (frame_size f), sh_height = height (frame_size f),
     sh_format = format f, sh_timestamp_us = timestamp_us f, sh_keyframe = (if key then 1 else 0),
     sh_payload_len = of_nat (length (cpu_pixels f))\<rparr>"

definition enc_encode :: "video_frame \<Rightarrow> encoder \<Rightarrow> status \<times> encoded_packet option \<times> encoder" where
  "enc_encode f e =
     (if \<not> enc_packet_cb e then (error_status InvalidArgument ''no packet callback installed'', None, e)
      else if cpu_pixels f = [] \<and> native_handle f \<noteq> None then
        (error_status Unsupported ''stub encoder requires CPU pixels'', None, e)
      else
        (let key = enc_force_keyframe e \<or> enc_first_frame e;
             pkt = \<lparr>packet_data = header_bytes (encode_header key f) @ cpu_pixels f,
                    packet_timestamp_us = timestamp_us f, keyframe = key\<rparr>
         in (success, Some pkt, e\<lparr>enc_force_keyframe := False, enc_first_frame := False\<rparr>)))"

definition requestKeyframe :: "encoder \<Rightarrow> encoder" where
  "requestKeyframe e = e\<lparr>enc_force_keyframe := True\<rparr>"

definition forceIntraRefresh :: "encoder \<Rightarrow> encoder" where
  "forceIntraRefresh e = e\<lparr>enc_force_keyframe := True\<rparr>"

section \<open>The decoder\<close>

record decoder =
  dec_codec :: codec
  dec_frame_cb :: bool

definition createVideoDecoder :: "codec \<Rightarrow> decoder" where
  "createVideoDecoder c = \<lparr>dec_codec = c, dec_frame_cb = False\<rparr>"

definition dec_configure :: "codec \<Rightarrow> decoder \<Rightarrow> status \<times> decoder" where
  "dec_configure c d = (success, d\<lparr>dec_codec := c\<rparr>)"

definition dec_setFrameCallback :: "bool \<Rightarrow> decoder \<Rightarrow> decoder" where
  "dec_setFrameCallback cb d = d\<lparr>dec_frame_cb := cb\<rparr>"

definition dec_decode :: "encoded_packet \<Rightarrow> decoder \<Rightarrow> status \<times> video_frame option" where
  "dec_decode p d =
     (if \<not> dec_frame_cb d then (error_status InvalidArgument ''no frame callback installed'', None)
      else if length (packet_data p) < sizeof_StubHeader then (error_status InvalidArgument ''short packet'', None)
      else
        (let hdr = header_of_bytes (take sizeof_StubHeader (packet_data p));
             expected = sizeof_StubHeader + unat (sh_payload_len hdr)
         in if sh_magic hdr \<noteq> kStubMagic then (error_status InvalidArgument ''bad stub magic'', None)
            else if length (packet_data p) < expected then
              (error_status InvalidArgument ''truncated stub payload'', None)
            else (success, Some (default_frame
                  \<lparr>frame_size := \<lparr>width = sh_width hdr, height = sh_height hdr\<rparr>,
                   format := sh_format hdr, timestamp_us := sh_timestamp_us hdr,
                   cpu_pixels := take (unat (sh_payload_len hdr)) (drop sizeof_StubHeader (packet_data p))\<rparr>))))"

section \<open>Histories of an encoder\<close>

datatype encoder_op = EConfigure encoder_config | ESetCallback bool | EEncode video_frame
  | ERequestKeyframe | EIntraRefresh

fun encoder_step :: "encoder \<Rightarrow> encoder_op \<Rightarrow> encoder" where
  "encoder_step e (EConfigure c) = snd (enc_configure c e)"
| "encoder_step e (ESetCallback cb) = enc_setPacketCallback cb e"
| "encoder_step e (EEncode f) = snd (snd (enc_encode f e))"
| "encoder_step e ERequestKeyframe = requestKeyframe e"
| "encoder_step e EIntraRefresh = forceIntraRefresh e"

definition emits :: "encoder \<Rightarrow> encoder_op \<Rightarrow> encoded_packet option" where
  "emits e op = (case op of EEncode f \<Rightarrow> fst (snd (enc_encode f e)) | _ \<Rightarrow> None)"

fun silent :: "encoder \<Rightarrow> encoder_op list \<Rightarrow> bool" where
  "silent e [] \<longleftrightarrow> True"
| "silent e (op # ops) \<longleftrightarrow> emits e op = None \<and> silent (encoder_step e op) ops"

end
