(* ===== verification/Codec_Proofs.thy ===== *)
theory Codec_Proofs
  imports Codec_Core
begin

text \<open>
  Properties of the codec layer: both negotiation procedures agree, the stub packet round
  trips, keyframes appear exactly when due, and the stub packets form a prefix code.
\<close>

section \<open>Negotiation\<close>

text \<open>The tiers a side can send or receive, as the control channel would list them.\<close>

definition send_tiers :: "codec_capabilities \<Rightarrow> codec_tier list" where
  "send_tiers c = (if h264_encode c then [kH264High420] else []) @ (if hevc_encode c then [kHevc420] else [])
     @ (if hevc_encode c \<and> hevc_444_encode c then [kHevc444] else []) @ (if av1_encode c then [kAv1] else [])"

definition recv_tiers :: "codec_capabilities \<Rightarrow> codec_tier list" where
  "recv_tiers c = (if h264_decode c then [kH264High420] else []) @ (if hevc_decode c then [kHevc420] else [])
     @ (if hevc_decode c \<and> hevc_444_decode c then [kHevc444] else []) @ (if av1_decode c then [kAv1] else [])"

definition tier_of :: "negotiated_codec \<Rightarrow> codec_tier" where
  "tier_of n = (if \<not> neg_ok n then tierNone else case neg_codec n of H264 \<Rightarrow> kH264High420
     | HEVC \<Rightarrow> (if neg_chroma n = Yuv444 then kHevc444 else kHevc420) | AV1 \<Rightarrow> kAv1)"

lemmas tier_order = less_eq_codec_tier_def codec_tier_code_def

lemma Max_tier_eq:
  "t \<in> insert tierNone (A :: codec_tier set) \<Longrightarrow> finite A \<Longrightarrow> (\<And>u. u \<in> A \<Longrightarrow> u \<le> t) \<Longrightarrow> Max (insert tierNone A) = t"
  by (rule Max_eqI) auto

lemma mem_tiers:
  "t \<in> set (send_tiers c) \<longleftrightarrow> (case t of tierNone \<Rightarrow> False | kH264High420 \<Rightarrow> h264_encode c
     | kHevc420 \<Rightarrow> hevc_encode c | kHevc444 \<Rightarrow> hevc_encode c \<and> hevc_444_encode c | kAv1 \<Rightarrow> av1_encode c)"
  "t \<in> set (recv_tiers c) \<longleftrightarrow> (case t of tierNone \<Rightarrow> False | kH264High420 \<Rightarrow> h264_decode c
     | kHevc420 \<Rightarrow> hevc_decode c | kHevc444 \<Rightarrow> hevc_decode c \<and> hevc_444_decode c | kAv1 \<Rightarrow> av1_decode c)"
  by (cases t; simp add: send_tiers_def recv_tiers_def)+

lemma negotiate_sender:
  "negotiateTier (send_tiers s) (recv_tiers r) = tier_of (negotiateCodec s r True)"
  unfolding negotiateTier_Max
  by (rule Max_tier_eq)
    (auto simp: mem_tiers negotiateCodec_def tier_of_def tier_order split: codec_tier.splits)

text \<open>C34: The capability negotiation of the media path and the tier negotiation of the wire protocol
  always agree, for either direction: the codec and chroma chosen are the highest tier the
  sending side encodes and the receiving side decodes, 4:4:4 is only ever chosen with HEVC,
  and no codec is found exactly when no tier is common.\<close>

theorem negotiations_agree:
  "tier_of (negotiateCodec local remote True) = negotiateTier (send_tiers local) (recv_tiers remote)
   \<and> tier_of (negotiateCodec local remote False) = negotiateTier (send_tiers remote) (recv_tiers local)
   \<and> (neg_chroma (negotiateCodec local remote b), neg_codec (negotiateCodec local remote b))
       \<in> {(Yuv444, HEVC)} \<union> {Yuv420} \<times> UNIV
   \<and> neg_ok (negotiateCodec local remote True)
       = (set (send_tiers local) \<inter> set (recv_tiers remote) \<noteq> {})"
proof -
  have "negotiateCodec local remote False = negotiateCodec remote local True"
    by (simp add: negotiateCodec_def)
  moreover have "(neg_chroma (negotiateCodec local remote b), neg_codec (negotiateCodec local remote b))
       \<in> {(Yuv444, HEVC)} \<union> {Yuv420} \<times> UNIV"
    by (auto simp: negotiateCodec_def split: if_splits)
  moreover have "neg_ok (negotiateCodec local remote True)
      \<longleftrightarrow> (\<exists>t. t \<in> set (send_tiers local) \<and> t \<in> set (recv_tiers remote))"
    by (auto simp: negotiateCodec_def mem_tiers split: codec_tier.splits if_splits
        intro: exI [of _ kAv1] exI [of _ kHevc420] exI [of _ kH264High420])
  ultimately show ?thesis by (auto simp: negotiate_sender)
qed

section \<open>The stub packet\<close>

lemma length_header_bytes [simp]: "length (header_bytes h) = 32"
  by (simp add: header_bytes_def)

lemma header_roundtrip [wire_simps]: "header_of_bytes (header_bytes h) = h"
  by (simp add: header_of_bytes_def header_bytes_def field_def of_le_le_bytes)

lemma encode_header_simps [simp]:
  "sh_magic (encode_header k f) = kStubMagic" "sh_width (encode_header k f) = width (frame_size f)"
  "sh_height (encode_header k f) = height (frame_size f)" "sh_format (encode_header k f) = format f"
  "sh_timestamp_us (encode_header k f) = timestamp_us f"
  "sh_payload_len (encode_header k f) = of_nat (length (cpu_pixels f))"
  by (simp_all add: encode_header_def)

lemma unat_payload_len:
  "length bs < 2 ^ 32 \<Longrightarrow> unat (of_nat (length bs) :: u32) = length bs"
  by (simp add: unsigned_of_nat take_bit_nat_eq_self)

text \<open>The frame a decoder rebuilds from an encoded one.\<close>

definition carried :: "video_frame \<Rightarrow> video_frame" where
  "carried f = default_frame\<lparr>frame_size := frame_size f, format := format f,
     timestamp_us := timestamp_us f, cpu_pixels := cpu_pixels f\<rparr>"

lemma carried_simps [simp]:
  "frame_size (carried f) = frame_size f" "format (carried f) = format f"
  "timestamp_us (carried f) = timestamp_us f" "cpu_pixels (carried f) = cpu_pixels f"
  "dirty_rects (carried f) = []" "\<not> is_idle (carried f)" "native_handle (carried f) = None"
  by (simp_all add: carried_def default_frame_def)

lemma enc_encode_emits:
  "fst (snd (enc_encode f e)) = Some p \<longleftrightarrow>
     enc_packet_cb e \<and> (cpu_pixels f \<noteq> [] \<or> native_handle f = None)
     \<and> p = \<lparr>packet_data = header_bytes (encode_header (enc_force_keyframe e \<or> enc_first_frame e) f) @ cpu_pixels f,
            packet_timestamp_us = timestamp_us f, keyframe = enc_force_keyframe e \<or> enc_first_frame e\<rparr>"
  by (auto simp: enc_encode_def)

lemma decode_packet:
  assumes "length (cpu_pixels f) < 2 ^ 32" and "dec_frame_cb d"
  shows "dec_decode \<lparr>packet_data = (header_bytes (encode_header k f) @ cpu_pixels f) @ rest,
           packet_timestamp_us = t, keyframe = k'\<rparr> d = (success, Some (carried f))"
  using assms
  by (simp add: dec_decode_def sizeof_StubHeader_def header_roundtrip unat_payload_len carried_def)

text \<open>What the encoder emits the decoder restores: size, format, time stamp and every pixel are
  equal, the packet's own time stamp matches, and only the dirty rectangles, the idle mark and
  the GPU handle are lost. Bytes appended after the packet change nothing.\<close>

theorem codec_roundtrip:
  assumes "fst (snd (enc_encode f e)) = Some p" and "dec_frame_cb d" and "length (cpu_pixels f) < 2 ^ 32"
  shows "dec_decode (p\<lparr>packet_data := packet_data p @ rest\<rparr>) d = (success, Some (carried f))
    \<and> packet_timestamp_us p = timestamp_us f"
  using assms by (auto simp: enc_encode_emits intro: decode_packet [simplified])

definition demo_frame :: video_frame where
  "demo_frame = default_frame\<lparr>frame_size := \<lparr>width = 1, height = 1\<rparr>, format := 1, timestamp_us := 7,
     cpu_pixels := [10, 20, 30, 255]\<rparr>"

definition demo_encoder :: encoder where
  "demo_encoder = enc_setPacketCallback True (createVideoEncoder H264)"

theorem codec_roundtrip_witness:
  "snd (dec_decode (the (fst (snd (enc_encode demo_frame demo_encoder))))
        (dec_setFrameCallback True (createVideoDecoder H264))) = Some (carried demo_frame)"
proof -
  let ?p = "fst (snd (enc_encode demo_frame demo_encoder))"
  have "?p = Some (the ?p)"
    by (simp add: enc_encode_def demo_encoder_def demo_frame_def createVideoEncoder_def
        enc_setPacketCallback_def default_frame_def)
  from codec_roundtrip [OF this, of "dec_setFrameCallback True (createVideoDecoder H264)" "[]"]
  show ?thesis by (simp add: dec_setFrameCallback_def demo_frame_def)
qed

text \<open>The decoder accepts a packet exactly when a callback is installed, the header is there with
  the magic number, and at least the announced payload follows; then the frame's pixels are
  exactly the announced number of bytes, and any other packet is refused as an invalid
  argument with no frame delivered. Nothing is read past the packet's end.\<close>

theorem decode_total:
  "(let h = header_of_bytes (take 32 (packet_data p));
        accept = (dec_frame_cb d \<and> 32 \<le> length (packet_data p) \<and> sh_magic h = kStubMagic
                  \<and> 32 + unat (sh_payload_len h) \<le> length (packet_data p))
    in case dec_decode p d of
         (s, None) \<Rightarrow> \<not> accept \<and> code s = InvalidArgument
       | (s, Some f) \<Rightarrow> accept \<and> s = success \<and> length (cpu_pixels f) = unat (sh_payload_len h)
           \<and> take (length (cpu_pixels f)) (drop 32 (packet_data p)) = cpu_pixels f)"
  by (auto simp: dec_decode_def sizeof_StubHeader_def default_frame_def)

section \<open>Stub packets as a prefix code\<close>

text \<open>Reading one packet off a byte stream: what the decoder consumes and what is left.\<close>

definition stub_frame_of :: "byte list \<Rightarrow> (video_frame \<times> byte list) option" where
  "stub_frame_of bs =
     (case dec_decode \<lparr>packet_data = bs, packet_timestamp_us = 0, keyframe = False\<rparr>
             \<lparr>dec_codec = H264, dec_frame_cb = True\<rparr> of
        (_, None) \<Rightarrow> None
      | (_, Some f) \<Rightarrow> Some (f, drop (32 + length (cpu_pixels f)) bs))"

definition stub_bytes :: "bool \<Rightarrow> video_frame \<Rightarrow> byte list" where
  "stub_bytes key f = header_bytes (encode_header key f) @ cpu_pixels f"

interpretation stub_stream: prefix_codec "stub_bytes key" stub_frame_of
  "\<lambda>f. carried f = f \<and> length (cpu_pixels f) < 2 ^ 32" for key
proof
  fix f :: video_frame and rest
  assume "carried f = f \<and> length (cpu_pixels f) < 2 ^ 32"
  then show "stub_frame_of (stub_bytes key f @ rest) = Some (f, rest)"
    using decode_packet [of f "\<lparr>dec_codec = H264, dec_frame_cb = True\<rparr>" key rest 0 False]
    by (simp add: stub_frame_of_def stub_bytes_def)
qed

text \<open>Packets written back to back are recovered one by one and in order, and whatever follows
  that does not start a packet is left over.\<close>

theorem packet_stream_recovered:
  assumes "list_all (\<lambda>f. carried f = f \<and> length (cpu_pixels f) < 2 ^ 32) fs" and "stub_frame_of rest = None"
  shows "decode_all stub_frame_of (length fs + k) (concat (map (stub_bytes key) fs) @ rest) = (fs, rest)"
  using assms by (rule stub_stream.decode_all_concat)

theorem packet_stream_recovered_witness:
  "decode_all stub_frame_of 2 (concat (map (stub_bytes True) [demo_frame, demo_frame]) @ [1, 2]) = ([demo_frame, demo_frame], [1, 2])"
proof -
  have "list_all (\<lambda>f. carried f = f \<and> length (cpu_pixels f) < 2 ^ 32) [demo_frame, demo_frame]"
    by (simp add: carried_def demo_frame_def default_frame_def)
  moreover have "stub_frame_of [1, 2] = None"
    by (simp add: stub_frame_of_def dec_decode_def sizeof_StubHeader_def)
  ultimately show ?thesis
    using packet_stream_recovered [of "[demo_frame, demo_frame]" "[1, 2]" 0 True]
    by (simp only: list.size add_0_right add_Suc_right One_nat_def numeral_2_eq_2)
qed

section \<open>Keyframes\<close>

lemma encoder_step_keyframe_due:
  "(enc_force_keyframe (encoder_step e op) \<or> enc_first_frame (encoder_step e op)) \<longleftrightarrow>
     (op = ERequestKeyframe \<or> op = EIntraRefresh
      \<or> (emits e op = None \<and> (enc_force_keyframe e \<or> enc_first_frame e)))"
  by (cases op) (auto simp: emits_def enc_configure_def enc_setPacketCallback_def enc_encode_def
      requestKeyframe_def forceIntraRefresh_def)

lemma silent_snoc: "silent e (ops @ [op]) \<longleftrightarrow> silent e ops \<and> emits (foldl encoder_step e ops) op = None"
  by (induction ops arbitrary: e) auto

definition asks_keyframe :: "encoder_op \<Rightarrow> bool" where
  "asks_keyframe op \<longleftrightarrow> op = ERequestKeyframe \<or> op = EIntraRefresh"

text \<open>A keyframe is due after a history: it ends in a silent stretch that began at the start or
  with a request.\<close>

definition keyframe_due :: "encoder \<Rightarrow> encoder_op list \<Rightarrow> bool" where
  "keyframe_due e ops \<longleftrightarrow> (\<exists>a b. ops = a @ b \<and> (a = [] \<or> asks_keyframe (last a))
      \<and> silent (foldl encoder_step e a) b)"

lemma keyframe_due_snoc:
  "keyframe_due e (ops @ [op]) \<longleftrightarrow>
     asks_keyframe op \<or> (emits (foldl encoder_step e ops) op = None \<and> keyframe_due e ops)" (is "?L \<longleftrightarrow> ?R")
proof
  assume ?L
  then obtain a b where ab: "ops @ [op] = a @ b" "a = [] \<or> asks_keyframe (last a)" "silent (foldl encoder_step e a) b"
    unfolding keyframe_due_def by blast
  show ?R
  proof (cases b rule: rev_cases)
    case Nil
    with ab show ?thesis by auto
  next
    case (snoc b' x)
    with ab have "ops = a @ b'" "x = op" by auto
    with ab snoc show ?thesis by (auto simp: silent_snoc keyframe_due_def)
  qed
next
  assume ?R
  then show ?L
  proof
    assume "asks_keyframe op"
    then have "ops @ [op] = (ops @ [op]) @ [] \<and> asks_keyframe (last (ops @ [op])) \<and> silent (foldl encoder_step e (ops @ [op])) []"
      by simp
    then show ?L unfolding keyframe_due_def by blast
  next
    assume r: "emits (foldl encoder_step e ops) op = None \<and> keyframe_due e ops"
    then obtain a b where "ops = a @ b" "a = [] \<or> asks_keyframe (last a)" "silent (foldl encoder_step e a) b"
      unfolding keyframe_due_def by blast
    with r have "ops @ [op] = a @ (b @ [op]) \<and> silent (foldl encoder_step e a) (b @ [op])"
      by (simp add: silent_snoc)
    with \<open>a = [] \<or> asks_keyframe (last a)\<close> show ?L unfolding keyframe_due_def by blast
  qed
qed

lemma keyframe_flags_due:
  "(enc_force_keyframe (foldl encoder_step (createVideoEncoder c) ops)
    \<or> enc_first_frame (foldl encoder_step (createVideoEncoder c) ops)) \<longleftrightarrow> keyframe_due (createVideoEncoder c) ops"
proof (induction ops rule: rev_induct)
  case Nil
  then show ?case by (simp add: createVideoEncoder_def keyframe_due_def)
next
  case (snoc op ops)
  then show ?case
    by (simp add: encoder_step_keyframe_due keyframe_due_snoc asks_keyframe_def)
qed

text \<open>In any history of a fresh encoder a packet is a keyframe exactly when nothing has been emitted
  since the start or since the last keyframe or intra-refresh request: no request is lost to a
  refused frame or a reconfiguration, and one request never yields two keyframes. The flag
  inside the packet is the same.\<close>

theorem keyframe_exactly_when_due:
  assumes "emits (foldl encoder_step (createVideoEncoder c) ops) (EEncode f) = Some p"
  shows "keyframe p = keyframe_due (createVideoEncoder c) ops
    \<and> packet_data p = header_bytes (encode_header (keyframe p) f) @ cpu_pixels f"
  using assms by (auto simp: emits_def enc_encode_emits keyframe_flags_due)

theorem keyframe_exactly_when_due_witness:
  "\<exists>p q. emits (foldl encoder_step (createVideoEncoder H264) [ESetCallback True]) (EEncode demo_frame) = Some p
     \<and> keyframe p = keyframe_due (createVideoEncoder H264) [ESetCallback True]
     \<and> emits (foldl encoder_step (createVideoEncoder H264) [ESetCallback True, EEncode demo_frame]) (EEncode demo_frame) = Some q
     \<and> keyframe q = keyframe_due (createVideoEncoder H264) [ESetCallback True, EEncode demo_frame]
     \<and> keyframe p \<and> \<not> keyframe q"
proof -
  note ev = emits_def enc_encode_def enc_setPacketCallback_def createVideoEncoder_def demo_frame_def default_frame_def
  obtain p q where "emits (foldl encoder_step (createVideoEncoder H264) [ESetCallback True]) (EEncode demo_frame) = Some p"
    and "emits (foldl encoder_step (createVideoEncoder H264) [ESetCallback True, EEncode demo_frame]) (EEncode demo_frame) = Some q"
    and "keyframe p" and "\<not> keyframe q"
    by (simp add: ev)
  with keyframe_exactly_when_due show ?thesis by blast
qed

end
