(* ===== verification/Transport_Core.thy ===== *)
theory Transport_Core
  imports Common_Types Wire_Protocol Interfaces
begin

text \<open>
  \<open>core/transport/transport.h\<close> and \<open>transport_stub.cpp\<close>: the channels, the in-process loopback
  pair and the congestion controller. The two endpoints of a pair are the two ends of one
  state, whose log holds every receive and state callback in call order. \<open>Transport_Nested\<close> adds
  receivers that send from inside the callback. The controller's arithmetic is kept at 32
  bits; its comparisons and its factor 0.85 are in doubles in the code and exact here.
  \<open>Transport_Doubles\<close> has the same step with every double operation rounded and proves the two
  equal.
\<close>

section \<open>Channels\<close>

datatype channel = Video | Audio | Input | ControlCh | ClipboardCh | FileTransferCh

definition channel_code :: "channel \<Rightarrow> byte" where
  "channel_code c = (case c of Video \<Rightarrow> 0 | Audio \<Rightarrow> 1 | Input \<Rightarrow> 2 | ControlCh \<Rightarrow> 3 | ClipboardCh \<Rightarrow> 4 | FileTransferCh \<Rightarrow> 5)"

fun channel_toString :: "channel \<Rightarrow> string" where
  "channel_toString Video = ''Video''"
| "channel_toString Audio = ''Audio''"
| "channel_toString Input = ''Input''"
| "channel_toString ControlCh = ''Control''"
| "channel_toString ClipboardCh = ''Clipboard''"
| "channel_toString FileTransferCh = ''FileTransfer''"

datatype channel_reliability = Unreliable | ReliableOrdered

fun channel_reliabilityFor :: "channel \<Rightarrow> channel_reliability" where
  "channel_reliabilityFor Video = Unreliable"
| "channel_reliabilityFor Audio = Unreliable"
| "channel_reliabilityFor Input = ReliableOrdered"
| "channel_reliabilityFor ControlCh = ReliableOrdered"
| "channel_reliabilityFor ClipboardCh = ReliableOrdered"
| "channel_reliabilityFor FileTransferCh = ReliableOrdered"

section \<open>The loopback pair\<close>

datatype transport_state = TIdle | TConnecting | TConnected | TFailed | TClosed
datatype endpoint_name = EndA | EndB

fun other :: "endpoint_name \<Rightarrow> endpoint_name" where
  "other EndA = EndB"
| "other EndB = EndA"

record loopback_end =
  receive_cb :: bool
  state_cb :: bool
  peer :: "endpoint_name option"
  tstate :: transport_state

datatype transport_event =
    Received endpoint_name channel "byte list"
  | StateChanged endpoint_name transport_state

record loopback =
  ends :: "endpoint_name \<Rightarrow> loopback_end"
  tlog :: "transport_event list"

definition kMaxTransportMessage :: nat where "kMaxTransportMessage = 65535"

definition fresh_end :: loopback_end where
  "fresh_end = \<lparr>receive_cb = False, state_cb = False, peer = None, tstate = TIdle\<rparr>"

definition createTransport :: loopback where
  "createTransport = \<lparr>ends = (\<lambda>_. fresh_end), tlog = []\<rparr>"

definition bindPeer :: "endpoint_name \<Rightarrow> endpoint_name \<Rightarrow> loopback \<Rightarrow> loopback" where
  "bindPeer n p t = t\<lparr>ends := (ends t)(n := (ends t n)\<lparr>peer := Some p\<rparr>)\<rparr>"

definition createLoopbackPair :: loopback where
  "createLoopbackPair = bindPeer EndB EndA (bindPeer EndA EndB createTransport)"

definition setReceiveCallback :: "endpoint_name \<Rightarrow> bool \<Rightarrow> loopback \<Rightarrow> loopback" where
  "setReceiveCallback n cb t = t\<lparr>ends := (ends t)(n := (ends t n)\<lparr>receive_cb := cb\<rparr>)\<rparr>"

definition setTransportStateCallback :: "endpoint_name \<Rightarrow> bool \<Rightarrow> loopback \<Rightarrow> loopback" where
  "setTransportStateCallback n cb t = t\<lparr>ends := (ends t)(n := (ends t n)\<lparr>state_cb := cb\<rparr>)\<rparr>"

definition setTransportState :: "endpoint_name \<Rightarrow> transport_state \<Rightarrow> loopback \<Rightarrow> loopback" where
  "setTransportState n s t =
     (if tstate (ends t n) = s then t
      else t\<lparr>ends := (ends t)(n := (ends t n)\<lparr>tstate := s\<rparr>),
             tlog := tlog t @ (if state_cb (ends t n) then [StateChanged n s] else [])\<rparr>)"

definition connect :: "endpoint_name \<Rightarrow> loopback \<Rightarrow> status \<times> loopback" where
  "connect n t = (success, setTransportState n TConnected t)"

definition send :: "endpoint_name \<Rightarrow> channel \<Rightarrow> byte list \<Rightarrow> loopback \<Rightarrow> status \<times> loopback" where
  "send n ch payload t =
     (if tstate (ends t n) \<noteq> TConnected then (error_status ConnectionLost ''not connected'', t)
      else if length payload > kMaxTransportMessage then
        (error_status InvalidArgument ''payload exceeds 65535-byte transport cap'', t)
      else case peer (ends t n) of
        None \<Rightarrow> (if channel_reliabilityFor ch = ReliableOrdered
                 then (error_status ConnectionLost ''peer has no receiver'', t) else (success, t))
      | Some p \<Rightarrow>
          (if \<not> receive_cb (ends t p) then
             (if channel_reliabilityFor ch = ReliableOrdered
              then (error_status ConnectionLost ''peer has no receiver'', t) else (success, t))
           else (success, t\<lparr>tlog := tlog t @ [Received p ch payload]\<rparr>)))"

definition close_end :: "endpoint_name \<Rightarrow> loopback \<Rightarrow> loopback" where
  "close_end n t = setTransportState n TClosed t"

datatype transport_op = TReceiveCb endpoint_name bool | TStateCb endpoint_name bool
  | TConnect endpoint_name | TSend endpoint_name channel "byte list" | TClose endpoint_name

fun transport_step :: "loopback \<Rightarrow> transport_op \<Rightarrow> loopback" where
  "transport_step t (TReceiveCb n cb) = setReceiveCallback n cb t"
| "transport_step t (TStateCb n cb) = setTransportStateCallback n cb t"
| "transport_step t (TConnect n) = snd (connect n t)"
| "transport_step t (TSend n ch p) = snd (send n ch p t)"
| "transport_step t (TClose n) = close_end n t"

section \<open>The congestion controller\<close>

record feedback_report =
  now_us :: u64
  acked_bytes :: u32
  lost_packets :: u32
  received_packets :: u32
  rtt_us :: "64 word"
  queuing_delay_us :: "64 word"

definition kDelayOveruseUs :: int where "kDelayOveruseUs = 30000"
definition kAdditiveIncreaseKbps :: u32 where "kAdditiveIncreaseKbps = 500"

record controller =
  min_kbps :: u32
  max_kbps :: u32
  target_kbps :: u32

definition createCongestionController :: controller where
  "createCongestionController = \<lparr>min_kbps = 500, max_kbps = 50000, target_kbps = 8000\<rparr>"

definition clamp :: "u32 \<Rightarrow> u32 \<Rightarrow> u32 \<Rightarrow> u32" where
  "clamp v lo hi = (if v < lo then lo else if hi < v then hi else v)"

text \<open>\<open>lost + received\<close> is a 32-bit sum; a zero sum with packets received makes the quotient
  infinite. With nothing received the ratio is 0.\<close>

definition loss_high :: "feedback_report \<Rightarrow> bool" where
  "loss_high r \<longleftrightarrow> received_packets r > 0
     \<and> (let sum = lost_packets r + received_packets r
        in sum = 0 \<or> 10 * unat (lost_packets r) > unat sum)"

definition loss_low :: "feedback_report \<Rightarrow> bool" where
  "loss_low r \<longleftrightarrow> received_packets r = 0
     \<or> (let sum = lost_packets r + received_packets r
        in sum \<noteq> 0 \<and> 50 * unat (lost_packets r) < unat sum)"

definition decrease :: "u32 \<Rightarrow> u32" where
  "decrease t = of_nat (17 * unat t div 20)"

definition onFeedback :: "feedback_report \<Rightarrow> controller \<Rightarrow> controller" where
  "onFeedback r c =
     (let t = (if sint (queuing_delay_us r) > kDelayOveruseUs \<or> loss_high r then decrease (target_kbps c)
               else if loss_low r then target_kbps c + kAdditiveIncreaseKbps
               else target_kbps c)
      in c\<lparr>target_kbps := clamp t (min_kbps c) (max_kbps c)\<rparr>)"

definition targetBitrateKbps :: "controller \<Rightarrow> u32" where
  "targetBitrateKbps c = target_kbps c"

definition setBitrateBounds :: "u32 \<Rightarrow> u32 \<Rightarrow> controller \<Rightarrow> controller" where
  "setBitrateBounds lo hi c =
     (let hi' = max hi lo
      in c\<lparr>min_kbps := lo, max_kbps := hi', target_kbps := clamp (target_kbps c) lo hi'\<rparr>)"

datatype controller_op = CFeedback feedback_report | CBounds u32 u32

fun controller_step :: "controller \<Rightarrow> controller_op \<Rightarrow> controller" where
  "controller_step c (CFeedback r) = onFeedback r c"
| "controller_step c (CBounds lo hi) = setBitrateBounds lo hi c"

end
