(* ===== verification/Transport_Proofs.thy ===== *)
theory Transport_Proofs
  imports Transport_Core
begin

text \<open>
  Properties of the transport: reliable channels deliver exactly what was sent, in order; the
  controller stays within its bounds and converges, and where its 32-bit sums wrap.
\<close>

section \<open>Delivery\<close>

lemma loopback_frame [simp]:
  "receive_cb (ends (setTransportState n s t) m) = receive_cb (ends t m)"
  "peer (ends (setTransportState n s t) m) = peer (ends t m)"
  "ends (snd (send n ch p t)) = ends t"
  by (simp_all add: setTransportState_def send_def split: option.splits)

definition paired :: "loopback \<Rightarrow> bool" where
  "paired t \<longleftrightarrow> (\<forall>n. peer (ends t n) = Some (other n))"

lemma paired_start: "paired createLoopbackPair"
proof -
  have "peer (ends createLoopbackPair n) = Some (other n)" for n
    by (cases n) (simp_all add: createLoopbackPair_def bindPeer_def)
  then show ?thesis by (simp add: paired_def)
qed

lemma paired_step: "paired t \<Longrightarrow> paired (transport_step t op)"
  by (cases op) (auto simp: paired_def setReceiveCallback_def setTransportStateCallback_def connect_def close_end_def)

interpretation loopback_paired: run_invariant transport_step paired
  by unfold_locales (rule paired_step)

text \<open>What an endpoint received on one channel, and the payloads whose send succeeded.\<close>

definition received :: "endpoint_name \<Rightarrow> channel \<Rightarrow> transport_event list \<Rightarrow> byte list list" where
  "received n ch log = concat (map (\<lambda>e. case e of Received m c p \<Rightarrow> (if m = n \<and> c = ch then [p] else []) | _ \<Rightarrow> []) log)"

fun accepted :: "endpoint_name \<Rightarrow> channel \<Rightarrow> loopback \<Rightarrow> transport_op list \<Rightarrow> byte list list" where
  "accepted n ch t [] = []"
| "accepted n ch t (op # ops) =
     (case op of TSend m c p \<Rightarrow> (if m = n \<and> c = ch \<and> status_ok (fst (send m c p t)) then [p] else []) | _ \<Rightarrow> [])
     @ accepted n ch (transport_step t op) ops"

lemma received_append [simp]: "received n ch (a @ b) = received n ch a @ received n ch b"
  by (simp add: received_def)

lemma received_simps [simp]:
  "received n ch [] = []" "received n ch [StateChanged m s] = []"
  "received n ch [Received m c p] = (if m = n \<and> c = ch then [p] else [])"
  by (simp_all add: received_def)

lemma received_setState [simp]: "received n ch (tlog (setTransportState m s t)) = received n ch (tlog t)"
  by (simp add: setTransportState_def)

lemma send_log:
  assumes "paired t"
  shows "received m c (tlog (snd (send n ch p t))) = received m c (tlog t)
     @ (if m = other n \<and> c = ch \<and> tstate (ends t n) = TConnected \<and> length p \<le> 65535 \<and> receive_cb (ends t (other n))
        then [p] else [])"
  using assms by (auto simp: send_def paired_def kMaxTransportMessage_def)

lemma send_ok:
  assumes "paired t"
  shows "status_ok (fst (send n ch p t)) \<longleftrightarrow> tstate (ends t n) = TConnected \<and> length p \<le> 65535
     \<and> (receive_cb (ends t (other n)) \<or> channel_reliabilityFor ch = Unreliable)"
  using assms by (cases ch) (auto simp: send_def paired_def kMaxTransportMessage_def)

lemma other_eq [simp]: "other n = m \<longleftrightarrow> n = other m" "other (other n) = n"
  by (cases n; cases m; simp)+

lemma reliable_step:
  assumes "paired t" and "channel_reliabilityFor ch = ReliableOrdered"
  shows "received (other n) ch (tlog (transport_step t op)) = received (other n) ch (tlog t)
     @ (case op of TSend m c p \<Rightarrow> (if m = n \<and> c = ch \<and> status_ok (fst (send m c p t)) then [p] else []) | _ \<Rightarrow> [])"
  using assms
  by (cases op) (auto simp: send_log send_ok setReceiveCallback_def setTransportStateCallback_def connect_def close_end_def)

lemma reliable_run:
  "paired t \<Longrightarrow> channel_reliabilityFor ch = ReliableOrdered \<Longrightarrow>
   received (other n) ch (tlog (foldl transport_step t ops)) = received (other n) ch (tlog t) @ accepted n ch t ops"
proof (induction ops arbitrary: t)
  case (Cons op ops)
  then show ?case by (simp add: reliable_step paired_step)
qed simp

text \<open>C28: On a reliable channel of a loopback pair, what one end received is exactly, in order, the
  payloads for which the other end's send reported success, across connects, closes and
  callback changes: nothing accepted is lost, reordered, duplicated or delivered to another
  channel, and nothing refused arrives.\<close>

theorem reliable_channels_deliver:
  assumes "channel_reliabilityFor ch = ReliableOrdered"
  shows "received (other n) ch (tlog (foldl transport_step createLoopbackPair ops)) = accepted n ch createLoopbackPair ops"
  using reliable_run [OF paired_start assms, of n ops]
  by (simp add: createLoopbackPair_def bindPeer_def createTransport_def)

theorem reliable_channels_deliver_witness:
  "received EndB Input (tlog (foldl transport_step createLoopbackPair [TReceiveCb EndB True, TConnect EndA, TSend EndA Input [1], TSend EndA Video [9], TSend EndA Input [2]]))
     = accepted EndA Input createLoopbackPair [TReceiveCb EndB True, TConnect EndA, TSend EndA Input [1], TSend EndA Video [9], TSend EndA Input [2]]"
  using reliable_channels_deliver [of Input EndA "[TReceiveCb EndB True, TConnect EndA, TSend EndA Input [1], TSend EndA Video [9], TSend EndA Input [2]]"]
  by simp

section \<open>Congestion control\<close>

definition controller_ok :: "controller \<Rightarrow> bool" where
  "controller_ok c \<longleftrightarrow> min_kbps c \<le> target_kbps c \<and> target_kbps c \<le> max_kbps c"

lemma clamp_bounds: "lo \<le> hi \<Longrightarrow> lo \<le> clamp v lo hi \<and> clamp v lo hi \<le> hi"
  by (auto simp: clamp_def)

lemma unat_clamp: "lo \<le> hi \<Longrightarrow> unat (clamp v lo hi) = min (unat hi) (max (unat lo) (unat v))"
  by (auto simp: clamp_def word_less_nat_alt word_le_nat_alt)

lemma controller_ok_step: "controller_ok c \<Longrightarrow> controller_ok (controller_step c op)"
  by (cases op) (auto simp: controller_ok_def onFeedback_def setBitrateBounds_def clamp_def max_def)

interpretation controller_bounded: run_invariant controller_step controller_ok
  by unfold_locales (rule controller_ok_step)

text \<open>Whatever feedback arrives and however the bounds are set, even crossed, the target bitrate
  stays between the current minimum and maximum.\<close>

theorem bitrate_within_bounds:
  "(let c = foldl controller_step createCongestionController ops
    in min_kbps c \<le> targetBitrateKbps c \<and> targetBitrateKbps c \<le> max_kbps c)"
  using controller_bounded.run_inv [of createCongestionController ops]
  by (simp add: controller_ok_def createCongestionController_def targetBitrateKbps_def)

lemma unat_decrease: "unat (decrease t) = 17 * unat t div 20"
proof -
  have "17 * unat t div 20 \<le> unat t" by simp
  then have "17 * unat t div 20 < 2 ^ LENGTH(32)"
    by (rule order.strict_trans1) (rule unsigned_less)
  then show ?thesis by (simp add: decrease_def unsigned_of_nat take_bit_nat_eq_self)
qed

definition overuse :: "feedback_report \<Rightarrow> bool" where
  "overuse r \<longleftrightarrow> sint (queuing_delay_us r) > kDelayOveruseUs \<or> loss_high r"

lemma overuse_step:
  assumes "controller_ok c" and "overuse r"
  shows "unat (target_kbps (onFeedback r c)) = max (unat (min_kbps c)) (17 * unat (target_kbps c) div 20)"
proof -
  have "unat (target_kbps c) \<le> unat (max_kbps c)" and "min_kbps c \<le> max_kbps c"
    using assms(1) by (auto simp: controller_ok_def word_le_nat_alt)
  moreover have "17 * unat (target_kbps c) div 20 \<le> unat (target_kbps c)" by simp
  ultimately show ?thesis
    using assms(2) by (auto simp: onFeedback_def overuse_def unat_clamp unat_decrease word_le_nat_alt)
qed

lemma onFeedback_bounds [simp]: "min_kbps (onFeedback r c) = min_kbps c" "max_kbps (onFeedback r c) = max_kbps c"
  by (simp_all add: onFeedback_def)

lemma decrease_run:
  assumes "controller_ok c" and "list_all overuse rs"
  shows "unat (target_kbps (foldl (\<lambda>c r. onFeedback r c) c rs)) \<le> max (unat (min_kbps c)) (unat (target_kbps c) - length rs)"
  using assms
proof (induction rs arbitrary: c)
  case (Cons r rs)
  have ok: "controller_ok (onFeedback r c)"
    using controller_ok_step [of c "CFeedback r"] Cons.prems by simp
  with Cons.IH [OF this] Cons.prems
  have "unat (target_kbps (foldl (\<lambda>c r. onFeedback r c) (onFeedback r c) rs))
      \<le> max (unat (min_kbps c)) (max (unat (min_kbps c)) (17 * unat (target_kbps c) div 20) - length rs)"
    by (simp add: overuse_step)
  also have "\<dots> \<le> max (unat (min_kbps c)) (unat (target_kbps c) - Suc (length rs))"
  proof -
    have "17 * unat (target_kbps c) div 20 \<le> unat (target_kbps c) - 1" by linarith
    then show ?thesis by linarith
  qed
  finally show ?case by simp
qed simp

text \<open>Sustained overuse always brings the bitrate down to the floor: each report multiplies by
  17/20, rounded down, never below the minimum, and after at most as many reports as there
  are kbps between target and minimum the target is the minimum and stays there.\<close>

theorem overuse_converges_to_floor:
  assumes "min_kbps c \<le> target_kbps c" and "target_kbps c \<le> max_kbps c"
    and "list_all overuse rs" and "unat (target_kbps c) - unat (min_kbps c) \<le> length rs"
  shows "target_kbps (foldl (\<lambda>c r. onFeedback r c) c rs) = min_kbps c"
proof -
  have ok: "controller_ok c" using assms by (simp add: controller_ok_def)
  have "controller_ok (foldl (\<lambda>c r. onFeedback r c) c rs) \<and> min_kbps (foldl (\<lambda>c r. onFeedback r c) c rs) = min_kbps c"
    using ok
  proof (induction rs arbitrary: c)
    case (Cons r rs)
    then show ?case using controller_ok_step [of c "CFeedback r"] by simp
  qed simp
  then have "unat (min_kbps c) \<le> unat (target_kbps (foldl (\<lambda>c r. onFeedback r c) c rs))"
    by (auto simp: controller_ok_def word_le_nat_alt)
  moreover have "unat (target_kbps (foldl (\<lambda>c r. onFeedback r c) c rs)) \<le> unat (min_kbps c)"
    using decrease_run [OF ok assms(3)] assms(4) by linarith
  ultimately show ?thesis by (simp add: word_unat_eq_iff)
qed

definition demo_report :: feedback_report where
  "demo_report = \<lparr>now_us = 0, acked_bytes = 0, lost_packets = 1, received_packets = 5, rtt_us = 0, queuing_delay_us = 0\<rparr>"

theorem overuse_converges_to_floor_witness:
  "target_kbps (foldl (\<lambda>c r. onFeedback r c) (setBitrateBounds 7999 50000 createCongestionController) [demo_report]) = 7999"
  using overuse_converges_to_floor [of "setBitrateBounds 7999 50000 createCongestionController" "[demo_report]"]
  by (simp add: setBitrateBounds_def createCongestionController_def clamp_def overuse_def loss_high_def demo_report_def)

text \<open>Where the 32-bit sums wrap the controller reacts the wrong way round: a report with one lost
  packet out of 2^32 counts as overuse, and with the ceiling at the largest value a loss-free
  report at that ceiling drops the target to the floor.\<close>

theorem controller_wraps:
  "overuse (demo_report\<lparr>lost_packets := 1, received_packets := 0xFFFFFFFF\<rparr>)
   \<and> target_kbps (onFeedback (demo_report\<lparr>lost_packets := 0\<rparr>) \<lparr>min_kbps = 500, max_kbps = 0xFFFFFFFF, target_kbps = 0xFFFFFFFF\<rparr>) = 500"
  by (simp add: overuse_def loss_high_def loss_low_def demo_report_def onFeedback_def clamp_def kDelayOveruseUs_def kAdditiveIncreaseKbps_def)

section \<open>The two channel numberings\<close>

definition wire_channel_of :: "channel \<Rightarrow> wire_channel" where
  "wire_channel_of c = (case c of Video \<Rightarrow> kVideo | Audio \<Rightarrow> kAudio | Input \<Rightarrow> kInput | ControlCh \<Rightarrow> kControl
     | ClipboardCh \<Rightarrow> kClipboard | FileTransferCh \<Rightarrow> kFile)"

text \<open>The channel numbers of the transport and of the wire protocol, which the protocol asks to be
  kept in lockstep, agree for clipboard and files only, while the two reliability tables agree
  on which channels are ordered and reliable.\<close>

theorem channel_numbering_diverges:
  "(channel_code c = wire_channel_code (wire_channel_of c)) = (c \<in> {ClipboardCh, FileTransferCh})
   \<and> (channel_reliabilityFor c = ReliableOrdered) = (reliabilityFor (wire_channel_of c) = kReliableOrdered)"
  by (cases c) (simp_all add: channel_code_def wire_channel_code_def wire_channel_of_def)

end
