(* ===== verification/Ipc_Protocol.thy ===== *)
theory Ipc_Protocol
  imports Common_Types Codec_Tiers Wire_Protocol
begin

text \<open>
  \<open>proto/ipc.proto.h\<close>: capability sets, session phases and roles, the message tags and the
  message bodies exchanged between the UI and the service, and the 8-byte header.
\<close>

datatype ipc_capability = kViewScreen | kControlInput | capClipboard | kFileTransfer | kAudioCap | kPrivacyMode | kUacElevation

definition ipc_capability_bits :: "ipc_capability \<Rightarrow> u32" where
  "ipc_capability_bits c = push_bit (case c of kViewScreen \<Rightarrow> 0 | kControlInput \<Rightarrow> 1 | capClipboard \<Rightarrow> 2
     | kFileTransfer \<Rightarrow> 3 | kAudioCap \<Rightarrow> 4 | kPrivacyMode \<Rightarrow> 5 | kUacElevation \<Rightarrow> 6) 1"

record capability_set =
  bits :: u32

definition cap_none :: capability_set where "cap_none = \<lparr>bits = 0\<rparr>"

definition cap_has :: "capability_set \<Rightarrow> ipc_capability \<Rightarrow> bool" where
  "cap_has s c \<longleftrightarrow> (bits s AND ipc_capability_bits c) \<noteq> 0"

definition cap_grant :: "ipc_capability \<Rightarrow> capability_set \<Rightarrow> capability_set" where
  "cap_grant c s = s\<lparr>bits := bits s OR ipc_capability_bits c\<rparr>"

definition cap_revoke :: "ipc_capability \<Rightarrow> capability_set \<Rightarrow> capability_set" where
  "cap_revoke c s = s\<lparr>bits := bits s AND NOT (ipc_capability_bits c)\<rparr>"

datatype session_phase = phIdle | phSignaling | phHandshaking | phAuthenticating | phConnected | phDisconnected | phFailed
datatype session_role = roleController | roleHost

definition session_phase_code :: "session_phase \<Rightarrow> byte" where
  "session_phase_code p = (case p of phIdle \<Rightarrow> 0 | phSignaling \<Rightarrow> 1 | phHandshaking \<Rightarrow> 2 | phAuthenticating \<Rightarrow> 3
     | phConnected \<Rightarrow> 4 | phDisconnected \<Rightarrow> 5 | phFailed \<Rightarrow> 6)"

definition session_role_code :: "session_role \<Rightarrow> byte" where
  "session_role_code r = (case r of roleController \<Rightarrow> 0 | roleHost \<Rightarrow> 1)"

datatype ipc_message_type = imUnknown
  | kGetMyId | kConnectToPeer | kAcceptIncoming | kRejectIncoming | kDisconnect | kSetCapabilities
  | kRequestKeyframe | kSendInputEvent | kListDisplays
  | kMyId | kSessionState | kIncomingRequest | kCapabilityGrant | kFingerprintAlert | kDisplayList
  | kInputEvent | kError

definition ipc_message_type_code :: "ipc_message_type \<Rightarrow> u16" where
  "ipc_message_type_code t = (case t of imUnknown \<Rightarrow> 0
     | kGetMyId \<Rightarrow> 10 | kConnectToPeer \<Rightarrow> 11 | kAcceptIncoming \<Rightarrow> 12 | kRejectIncoming \<Rightarrow> 13 | kDisconnect \<Rightarrow> 14
     | kSetCapabilities \<Rightarrow> 15 | kRequestKeyframe \<Rightarrow> 16 | kSendInputEvent \<Rightarrow> 17 | kListDisplays \<Rightarrow> 18
     | kMyId \<Rightarrow> 110 | kSessionState \<Rightarrow> 111 | kIncomingRequest \<Rightarrow> 112 | kCapabilityGrant \<Rightarrow> 113
     | kFingerprintAlert \<Rightarrow> 114 | kDisplayList \<Rightarrow> 115 | kInputEvent \<Rightarrow> 116 | kError \<Rightarrow> 199)"

section \<open>Request bodies\<close>

record connect_to_peer_request =
  cp_peer_id :: string
  cp_pin :: string
  cp_unattended_password :: string
  cp_desired :: capability_set
  cp_codecs :: "codec_tier list"

definition default_connect_to_peer :: connect_to_peer_request where
  "default_connect_to_peer = \<lparr>cp_peer_id = '''', cp_pin = '''', cp_unattended_password = '''',
     cp_desired = cap_none, cp_codecs = floorCapabilities\<rparr>"

record accept_incoming_request =
  ai_session_id :: string
  ai_granted :: capability_set

record reject_incoming_request =
  ri_session_id :: string
  ri_reason :: string

record disconnect_request =
  dc_session_id :: string

record set_capabilities_request =
  sc_session_id :: string
  sc_granted :: capability_set

record request_keyframe_request =
  rk_session_id :: string

datatype input_event_kind = kMouseMoveAbs | kMouseMoveRel | kMouseButton | kMouseScroll | kKeyScancode | kKeyUnicode | kModifierSet

definition input_event_kind_code :: "input_event_kind \<Rightarrow> byte" where
  "input_event_kind_code k = (case k of kMouseMoveAbs \<Rightarrow> 0 | kMouseMoveRel \<Rightarrow> 1 | kMouseButton \<Rightarrow> 2
     | kMouseScroll \<Rightarrow> 3 | kKeyScancode \<Rightarrow> 4 | kKeyUnicode \<Rightarrow> 5 | kModifierSet \<Rightarrow> 6)"

record input_event =
  ie_kind :: input_event_kind
  ie_x :: u32
  ie_y :: u32
  ie_button :: u32
  ie_delta :: u32
  ie_pressed :: bool
  ie_extended :: bool

definition default_input_event :: input_event where
  "default_input_event = \<lparr>ie_kind = kMouseMoveAbs, ie_x = 0, ie_y = 0, ie_button = 0, ie_delta = 0,
     ie_pressed = False, ie_extended = False\<rparr>"

record send_input_event_request =
  si_session_id :: string
  si_event :: input_event

record list_displays_request =
  ld_session_id :: string

section \<open>Response and event bodies\<close>

record my_id_response =
  mi_redesk_id :: string
  mi_fingerprint :: string

record session_state_event =
  ss_session_id :: string
  ss_role :: session_role
  ss_phase :: session_phase
  ss_negotiated_codec :: codec_tier
  ss_detail :: string

record incoming_request_event =
  ir_session_id :: string
  ir_peer_id :: string
  ir_peer_fingerprint :: string
  ir_requested :: capability_set

record capability_grant_event =
  cg_session_id :: string
  cg_granted :: capability_set

record fingerprint_alert_event =
  fa_peer_id :: string
  fa_old_fingerprint :: string
  fa_new_fingerprint :: string
  fa_is_key_change :: bool

text \<open>The scale factor is a double, kept as its 64 bits.\<close>

record ipc_display_info =
  di_id :: u32
  di_size :: Size
  di_is_primary :: bool
  di_scale :: u64

record display_list_response =
  dl_session_id :: string
  dl_displays :: "ipc_display_info list"

record input_event_passthrough =
  ip_session_id :: string
  ip_event :: input_event

record error_response =
  er_code :: error_code
  er_message :: string

section \<open>The header\<close>

record ipc_header =
  ih_version :: u16
  ih_type :: ipc_message_type
  ih_length :: u32

definition default_ipc_header :: ipc_header where
  "default_ipc_header = \<lparr>ih_version = kProtocolVersion, ih_type = imUnknown, ih_length = 0\<rparr>"

fun ipc_header_sizes :: "ipc_header \<Rightarrow> nat list" where
  "ipc_header_sizes \<lparr>ih_version = v, ih_type = t, ih_length = l\<rparr> =
     [size_bytes v, size_bytes (ipc_message_type_code t), size_bytes l]"

definition sizeof_IpcHeader :: u32 where
  "sizeof_IpcHeader = of_nat (sum_list (ipc_header_sizes default_ipc_header))"

lemma ipc_header_size: "sum_list (ipc_header_sizes h) = 8"
  by (cases h) (simp add: size_bytes_def)

lemma sizeof_IpcHeader_8 [simp]: "sizeof_IpcHeader = 8"
  by (simp add: sizeof_IpcHeader_def ipc_header_size)

section \<open>Facts\<close>

definition cap_bit :: "ipc_capability \<Rightarrow> nat" where
  "cap_bit c = (case c of kViewScreen \<Rightarrow> 0 | kControlInput \<Rightarrow> 1 | capClipboard \<Rightarrow> 2
     | kFileTransfer \<Rightarrow> 3 | kAudioCap \<Rightarrow> 4 | kPrivacyMode \<Rightarrow> 5 | kUacElevation \<Rightarrow> 6)"

lemma cap_bit_inj [simp]: "cap_bit c = cap_bit d \<longleftrightarrow> c = d"
  by (cases c; cases d; simp add: cap_bit_def)

lemma bit_ipc_capability: "bit (ipc_capability_bits c) n \<longleftrightarrow> n = cap_bit c"
proof -
  have "ipc_capability_bits c = push_bit (cap_bit c) 1" and "cap_bit c < 32"
    by (cases c; simp add: ipc_capability_bits_def cap_bit_def)+
  then show ?thesis
    by (auto simp only: bit_push_bit_iff bit_1_iff possible_bit_word len_num1 len_of_numeral_defs)
qed

lemma cap_has_bit: "cap_has s c \<longleftrightarrow> bit (bits s) (cap_bit c)"
proof -
  have "bits s AND ipc_capability_bits c \<noteq> 0 \<longleftrightarrow> (\<exists>n. bit (bits s AND ipc_capability_bits c) n)"
    by (metis bit_0_eq bit_eqI bot_apply bot_bool_def)
  also have "\<dots> \<longleftrightarrow> bit (bits s) (cap_bit c)"
    by (auto simp: bit_and_iff bit_ipc_capability)
  finally show ?thesis by (simp add: cap_has_def)
qed

lemma message_types_distinct: "ipc_message_type_code s = ipc_message_type_code t \<longleftrightarrow> s = t"
  by (cases s; cases t; simp add: ipc_message_type_code_def)

text \<open>A capability set starts empty, a grant adds exactly the capability named and a revoke removes
  exactly it: no toggle touches another one, so the set in force is what was last decided for
  each capability.\<close>

theorem capability_toggles_independent:
  "\<not> cap_has cap_none d
   \<and> cap_has (cap_grant c s) d = (c = d \<or> cap_has s d)
   \<and> cap_has (cap_revoke c s) d = (c \<noteq> d \<and> cap_has s d)"
proof -
  have "cap_bit d < LENGTH(32)" by (cases d) (simp_all add: cap_bit_def)
  then show ?thesis
    by (auto simp: cap_has_bit cap_none_def cap_grant_def cap_revoke_def bit_or_iff bit_and_iff bit_not_iff bit_ipc_capability)
qed

end
