(* ===== verification/Input_Core.thy ===== *)
theory Input_Core
  imports Common_Types Interfaces
begin

text \<open>
  \<open>core/input/input.h\<close> and \<open>input_stub.cpp\<close>: the recording injector and the in-memory
  clipboard. A double is only stored and read back, so it is kept as its 64 bits.
\<close>

type_synonym double_bits = u64

datatype mouse_button = BLeft | BRight | BMiddle | BBack | BForward
datatype button_action = Down | Up

type_synonym modifiers = u32

definition ModNone :: modifiers where "ModNone = 0"
definition ModShift :: modifiers where "ModShift = push_bit 0 1"
definition ModCtrl :: modifiers where "ModCtrl = push_bit 1 1"
definition ModAlt :: modifiers where "ModAlt = push_bit 2 1"
definition ModMeta :: modifiers where "ModMeta = push_bit 3 1"

text \<open>The operators on the flags.\<close>

definition mod_or :: "modifiers \<Rightarrow> modifiers \<Rightarrow> modifiers" where "mod_or a b = a OR b"
definition mod_and :: "modifiers \<Rightarrow> modifiers \<Rightarrow> modifiers" where "mod_and a b = a AND b"

lemma modifier_flags_distinct:
  "list_all (\<lambda>(a, b). mod_and a b = ModNone) [(ModShift, ModCtrl), (ModShift, ModAlt), (ModShift, ModMeta), (ModCtrl, ModAlt), (ModCtrl, ModMeta), (ModAlt, ModMeta)]"
  by (simp add: mod_and_def ModNone_def ModShift_def ModCtrl_def ModAlt_def ModMeta_def)

datatype event_type = MouseMoveAbs | MouseMoveRel | MouseButton | Scroll | KeyScancode | KeyUnicode | SetModifiers | Reset

record recorded_event =
  ev_type :: event_type
  ev_display_id :: string
  ev_nx :: double_bits
  ev_ny :: double_bits
  ev_dx :: u32
  ev_dy :: u32
  ev_sdx :: double_bits
  ev_sdy :: double_bits
  ev_hi_res :: bool
  ev_button :: mouse_button
  ev_action :: button_action
  ev_code :: u32
  ev_modifiers :: modifiers

definition blank_event :: "event_type \<Rightarrow> recorded_event" where
  "blank_event t = \<lparr>ev_type = t, ev_display_id = '''', ev_nx = 0, ev_ny = 0, ev_dx = 0, ev_dy = 0,
     ev_sdx = 0, ev_sdy = 0, ev_hi_res = False, ev_button = BLeft, ev_action = Down, ev_code = 0,
     ev_modifiers = ModNone\<rparr>"

record injector =
  events :: "recorded_event list"
  held_modifiers :: modifiers

definition createStubInputInjector :: injector where
  "createStubInputInjector = \<lparr>events = [], held_modifiers = ModNone\<rparr>"

definition push_event :: "recorded_event \<Rightarrow> injector \<Rightarrow> injector" where
  "push_event e i = i\<lparr>events := events i @ [e]\<rparr>"

definition mouseMoveAbsolute :: "string \<Rightarrow> double_bits \<Rightarrow> double_bits \<Rightarrow> injector \<Rightarrow> status \<times> injector" where
  "mouseMoveAbsolute display nx ny i =
     (success, push_event ((blank_event MouseMoveAbs)\<lparr>ev_display_id := display, ev_nx := nx, ev_ny := ny\<rparr>) i)"

definition mouseMoveRelative :: "u32 \<Rightarrow> u32 \<Rightarrow> injector \<Rightarrow> status \<times> injector" where
  "mouseMoveRelative dx dy i =
     (success, push_event ((blank_event MouseMoveRel)\<lparr>ev_dx := dx, ev_dy := dy\<rparr>) i)"

definition mouseButton :: "mouse_button \<Rightarrow> button_action \<Rightarrow> injector \<Rightarrow> status \<times> injector" where
  "mouseButton b a i = (success, push_event ((blank_event MouseButton)\<lparr>ev_button := b, ev_action := a\<rparr>) i)"

definition scroll :: "double_bits \<Rightarrow> double_bits \<Rightarrow> bool \<Rightarrow> injector \<Rightarrow> status \<times> injector" where
  "scroll dx dy hi i =
     (success, push_event ((blank_event Scroll)\<lparr>ev_sdx := dx, ev_sdy := dy, ev_hi_res := hi\<rparr>) i)"

definition keyScancode :: "u32 \<Rightarrow> button_action \<Rightarrow> injector \<Rightarrow> status \<times> injector" where
  "keyScancode c a i = (success, push_event ((blank_event KeyScancode)\<lparr>ev_code := c, ev_action := a\<rparr>) i)"

definition keyUnicode :: "u32 \<Rightarrow> button_action \<Rightarrow> injector \<Rightarrow> status \<times> injector" where
  "keyUnicode c a i = (success, push_event ((blank_event KeyUnicode)\<lparr>ev_code := c, ev_action := a\<rparr>) i)"

definition setModifiers :: "modifiers \<Rightarrow> injector \<Rightarrow> status \<times> injector" where
  "setModifiers m i =
     (success, push_event ((blank_event SetModifiers)\<lparr>ev_modifiers := m\<rparr>) (i\<lparr>held_modifiers := m\<rparr>))"

definition reset :: "injector \<Rightarrow> status \<times> injector" where
  "reset i = (success, push_event (blank_event Reset) (i\<lparr>held_modifiers := ModNone\<rparr>))"

definition clear_events :: "injector \<Rightarrow> injector" where
  "clear_events i = i\<lparr>events := []\<rparr>"

section \<open>The clipboard\<close>

datatype clipboard_kind = ClipText | ClipImage | ClipUriList

record clipboard_data =
  kind :: clipboard_kind
  clip_text :: string
  image_bytes :: "byte list"
  image_mime :: string

record clipboard =
  clip_store :: "clipboard_data list"
  change_cb :: bool
  fired :: "clipboard_data list"

definition createClipboardSync :: clipboard where
  "createClipboardSync = \<lparr>clip_store = [], change_cb = False, fired = []\<rparr>"

definition fire :: "clipboard_data \<Rightarrow> clipboard \<Rightarrow> clipboard" where
  "fire d c = (if change_cb c then c\<lparr>fired := fired c @ [d]\<rparr> else c)"

definition clip_get :: "clipboard_kind \<Rightarrow> clipboard \<Rightarrow> clipboard_data result" where
  "clip_get k c = (case find (\<lambda>d. kind d = k) (clip_store c) of
       Some d \<Rightarrow> good d | None \<Rightarrow> fail NotFound ''clipboard empty for kind'')"

fun replace_first :: "clipboard_data \<Rightarrow> clipboard_data list \<Rightarrow> clipboard_data list option" where
  "replace_first d [] = None"
| "replace_first d (x # xs) =
     (if kind x = kind d then Some (d # xs) else map_option (Cons x) (replace_first d xs))"

definition clip_set :: "clipboard_data \<Rightarrow> clipboard \<Rightarrow> status \<times> clipboard" where
  "clip_set d c = (case replace_first d (clip_store c) of
       Some ds \<Rightarrow> (success, fire d (c\<lparr>clip_store := ds\<rparr>))
     | None \<Rightarrow> (success, fire d (c\<lparr>clip_store := clip_store c @ [d]\<rparr>)))"

definition setChangeCallback :: "bool \<Rightarrow> clipboard \<Rightarrow> clipboard" where
  "setChangeCallback cb c = c\<lparr>change_cb := cb\<rparr>"

section \<open>Injector histories\<close>

datatype injector_op = MoveAbs string double_bits double_bits | MoveRel u32 u32 | Button mouse_button button_action
  | ScrollBy double_bits double_bits bool | Scancode u32 button_action | Unicode u32 button_action
  | Modifiers modifiers | ResetAll

fun injector_step :: "injector \<Rightarrow> injector_op \<Rightarrow> injector" where
  "injector_step i (MoveAbs d x y) = snd (mouseMoveAbsolute d x y i)"
| "injector_step i (MoveRel x y) = snd (mouseMoveRelative x y i)"
| "injector_step i (Button b a) = snd (mouseButton b a i)"
| "injector_step i (ScrollBy x y h) = snd (scroll x y h i)"
| "injector_step i (Scancode c a) = snd (keyScancode c a i)"
| "injector_step i (Unicode c a) = snd (keyUnicode c a i)"
| "injector_step i (Modifiers m) = snd (setModifiers m i)"
| "injector_step i ResetAll = snd (reset i)"

fun replay :: "recorded_event \<Rightarrow> injector_op" where
  "replay e = (case ev_type e of
       MouseMoveAbs \<Rightarrow> MoveAbs (ev_display_id e) (ev_nx e) (ev_ny e)
     | MouseMoveRel \<Rightarrow> MoveRel (ev_dx e) (ev_dy e)
     | MouseButton \<Rightarrow> Button (ev_button e) (ev_action e)
     | Scroll \<Rightarrow> ScrollBy (ev_sdx e) (ev_sdy e) (ev_hi_res e)
     | KeyScancode \<Rightarrow> Scancode (ev_code e) (ev_action e)
     | KeyUnicode \<Rightarrow> Unicode (ev_code e) (ev_action e)
     | SetModifiers \<Rightarrow> Modifiers (ev_modifiers e)
     | Reset \<Rightarrow> ResetAll)"

section \<open>Facts\<close>

lemmas injector_defs = mouseMoveAbsolute_def mouseMoveRelative_def mouseButton_def scroll_def keyScancode_def
  keyUnicode_def setModifiers_def reset_def push_event_def blank_event_def

lemma replay_step: "\<exists>e. events (injector_step i op) = events i @ [e] \<and> replay e = op"
  by (cases op) (simp_all add: injector_defs)

lemma replay_events:
  "map replay (events (foldl injector_step i ops)) = map replay (events i) @ ops"
proof (induction ops arbitrary: i)
  case (Cons op ops)
  then show ?case using replay_step [of i op] by auto
qed simp

lemma held_run:
  "held_modifiers (foldl injector_step i ops) =
     (case find (\<lambda>op. op = ResetAll \<or> (\<exists>m. op = Modifiers m)) (rev ops) of
        Some (Modifiers m) \<Rightarrow> m | Some _ \<Rightarrow> 0 | None \<Rightarrow> held_modifiers i)"
proof (induction ops rule: rev_induct)
  case (snoc op ops)
  then show ?case by (cases op) (simp_all add: injector_defs ModNone_def)
qed simp

text \<open>The injector's log is a faithful recording: replaying it gives back exactly the calls made, in
  order and with all their arguments, and the held modifiers are those of the last
  setModifiers, or none after a reset.\<close>

theorem injector_log_faithful:
  "map replay (events (foldl injector_step createStubInputInjector ops)) = ops
   \<and> held_modifiers (foldl injector_step createStubInputInjector ops) =
       (case find (\<lambda>op. op = ResetAll \<or> (\<exists>m. op = Modifiers m)) (rev ops) of
          Some (Modifiers m) \<Rightarrow> m | _ \<Rightarrow> 0)"
proof -
  have "events createStubInputInjector = []" and "held_modifiers createStubInputInjector = 0"
    by (simp_all add: createStubInputInjector_def ModNone_def)
  then show ?thesis
    by (simp only: replay_events held_run list.map append_Nil simp_thms option.case)
      (cases "find (\<lambda>op. op = ResetAll \<or> (\<exists>m. op = Modifiers m)) (rev ops)"; simp split: injector_op.split)?
qed

lemma find_replace:
  "find (\<lambda>x. kind x = k) (case replace_first d xs of Some ds \<Rightarrow> ds | None \<Rightarrow> xs @ [d]) =
     (if k = kind d then Some d else find (\<lambda>x. kind x = k) xs)"
  by (induction xs) (auto split: option.splits)

lemma replace_first_None: "replace_first d xs = None \<longleftrightarrow> kind d \<notin> set (map kind xs)"
  by (induction xs) auto

lemma replace_first_Some: "replace_first d xs = Some ds \<Longrightarrow> map kind ds = map kind xs"
  by (induction xs arbitrary: ds) (auto split: if_splits)

lemma kinds_replace:
  "map kind (case replace_first d xs of Some ds \<Rightarrow> ds | None \<Rightarrow> xs @ [d]) =
     (if kind d \<in> set (map kind xs) then map kind xs else map kind xs @ [kind d])"
proof (cases "replace_first d xs")
  case None
  then show ?thesis using replace_first_None [of d xs] by simp
next
  case (Some ds)
  then have "kind d \<in> set (map kind xs)" using replace_first_None [of d xs] by fastforce
  with Some show ?thesis using replace_first_Some [OF Some] by simp
qed

lemma clip_store_set:
  "clip_store (snd (clip_set d c)) = (case replace_first d (clip_store c) of Some ds \<Rightarrow> ds | None \<Rightarrow> clip_store c @ [d])"
  by (simp add: clip_set_def fire_def split: option.splits)

definition clip_entry :: "clipboard \<Rightarrow> clipboard_kind \<Rightarrow> clipboard_data option" where
  "clip_entry c k = (case clip_get k c of Inr d \<Rightarrow> Some d | Inl _ \<Rightarrow> None)"

lemma clip_entry_find: "clip_entry c k = find (\<lambda>d. kind d = k) (clip_store c)"
  by (simp add: clip_entry_def clip_get_def good_def fail_def split: option.splits)

interpretation clip_table: keyed_store clip_entry "\<lambda>d c. snd (clip_set d c)" kind
  by unfold_locales (simp add: clip_entry_find clip_store_set find_replace)

definition clip_set_all :: "clipboard_data list \<Rightarrow> clipboard \<Rightarrow> clipboard" where
  "clip_set_all ds c = fold (\<lambda>d c. snd (clip_set d c)) ds c"

lemma clip_kinds_distinct:
  "distinct (map kind (clip_store c)) \<Longrightarrow> distinct (map kind (clip_store (clip_set_all ds c)))"
proof (induction ds arbitrary: c)
  case Nil
  then show ?case by (simp add: clip_set_all_def)
next
  case (Cons d ds)
  then have "distinct (map kind (clip_store (snd (clip_set d c))))"
    by (simp add: clip_store_set kinds_replace)
  then show ?case using Cons.IH by (simp add: clip_set_all_def)
qed

lemma clip_fired:
  "change_cb c \<Longrightarrow> fired (clip_set_all ds c) = fired c @ ds"
proof (induction ds arbitrary: c)
  case Nil
  then show ?case by (simp add: clip_set_all_def)
next
  case (Cons d ds)
  have "change_cb (snd (clip_set d c)) \<and> fired (snd (clip_set d c)) = fired c @ [d]"
    using Cons.prems by (simp add: clip_set_def fire_def split: option.splits)
  with Cons.IH show ?case by (simp add: clip_set_all_def)
qed

text \<open>After any sequence of sets the clipboard holds at most one entry of each kind, the last one
  set of that kind, get reports NotFound exactly for the kinds never set, and with a callback
  installed every set notified once, in order.\<close>

theorem clipboard_last_set_wins:
  "(let c = clip_set_all ds (setChangeCallback True createClipboardSync)
    in clip_get k c = (case find (\<lambda>d. kind d = k) (rev ds) of
         Some d \<Rightarrow> good d | None \<Rightarrow> fail NotFound ''clipboard empty for kind'')
     \<and> distinct (map kind (clip_store c)) \<and> fired c = ds)"
proof -
  let ?c0 = "setChangeCallback True createClipboardSync"
  have e: "clip_entry (clip_set_all ds ?c0) k = find (\<lambda>d. kind d = k) (rev ds)"
    using clip_table.get_puts [of ds ?c0 k]
    by (simp add: clip_set_all_def clip_entry_find setChangeCallback_def createClipboardSync_def split: option.splits)
  then have "clip_get k (clip_set_all ds ?c0) = (case find (\<lambda>d. kind d = k) (rev ds) of
         Some d \<Rightarrow> good d | None \<Rightarrow> fail NotFound ''clipboard empty for kind'')"
    by (simp add: clip_entry_find clip_get_def)
  moreover have "distinct (map kind (clip_store (clip_set_all ds ?c0)))"
    by (rule clip_kinds_distinct) (simp add: setChangeCallback_def createClipboardSync_def)
  moreover have "fired (clip_set_all ds ?c0) = ds"
    by (subst clip_fired) (simp_all add: setChangeCallback_def createClipboardSync_def)
  ultimately show ?thesis by simp
qed

end
