(* ===== verification/Capture_Core.thy ===== *)
theory Capture_Core
  imports Common_Types Interfaces
begin

text \<open>
  \<open>core/capture/capturer.h\<close> and \<open>capturer_stub.cpp\<close>: the synthetic capturer, with every frame
  and cursor sample it delivers in a log. The cursor's position on its circle is computed in
  doubles: here it is an argument \<open>orbit\<close> of the frame index, which \<open>Capture_Cursor\<close> defines.
\<close>

record display_info =
  display_id :: string
  display_name :: string
  display_size :: Size
  display_scale :: u32
  display_isPrimary :: bool

record cursor_sample =
  cursor_x :: u32
  cursor_y :: u32
  hotspot_x :: u32
  hotspot_y :: u32
  shape_size :: Size
  cursor_image :: "byte list"
  cursor_visible :: bool
  cursor_timestamp_us :: u64

record capture_config =
  cap_display_id :: string
  target_fps :: u32
  capture_cursor :: bool
  prefer_hdr :: bool
  preferred_format :: pixel_format

definition default_capture_config :: capture_config where
  "default_capture_config = \<lparr>cap_display_id = '''', target_fps = 60, capture_cursor = True,
     prefer_hdr = False, preferred_format = NV12\<rparr>"

definition kStubWidth :: nat where "kStubWidth = 1280"
definition kStubHeight :: nat where "kStubHeight = 720"
definition kFrameIntervalUs :: u64 where "kFrameIntervalUs = 16666"

datatype capture_event = Frame video_frame | Cursor cursor_sample

record capturer =
  frame_cb :: bool
  cursor_cb :: bool
  cap_config :: capture_config
  capturing :: bool
  frame_index :: u64
  cap_log :: "capture_event list"

definition createStubCapturer :: capturer where
  "createStubCapturer = \<lparr>frame_cb = False, cursor_cb = False, cap_config = default_capture_config,
     capturing = False, frame_index = 0, cap_log = []\<rparr>"

text \<open>\<open>1.0f\<close> is the bit pattern \<open>0x3F800000\<close>.\<close>

definition enumerateDisplays :: "capturer \<Rightarrow> display_info list result" where
  "enumerateDisplays c = good [\<lparr>display_id = ''stub-display-0'', display_name = ''REDesk Synthetic Display'',
     display_size = \<lparr>width = of_nat kStubWidth, height = of_nat kStubHeight\<rparr>,
     display_scale = 0x3F800000, display_isPrimary = True\<rparr>]"

definition setFrameCallback :: "bool \<Rightarrow> capturer \<Rightarrow> capturer" where
  "setFrameCallback cb c = c\<lparr>frame_cb := cb\<rparr>"

definition setCursorCallback :: "bool \<Rightarrow> capturer \<Rightarrow> capturer" where
  "setCursorCallback cb c = c\<lparr>cursor_cb := cb\<rparr>"

definition cap_start :: "capture_config \<Rightarrow> capturer \<Rightarrow> status \<times> capturer" where
  "cap_start config c =
     (if capturing c then (error_status InvalidArgument ''already capturing'', c)
      else (success, c\<lparr>cap_config := config, capturing := True, frame_index := 0\<rparr>))"

definition cap_stop :: "capturer \<Rightarrow> capturer" where
  "cap_stop c = c\<lparr>capturing := False\<rparr>"

definition gradient_pixel :: "u32 \<Rightarrow> nat \<Rightarrow> nat \<Rightarrow> byte list" where
  "gradient_pixel shift y x =
     [ucast ((of_nat x + shift) AND 0xFF), ucast ((of_nat y + shift) AND 0xFF),
      ucast ((of_nat x + of_nat y + shift) AND 0xFF), 0xFF]"

definition gradient_row :: "u32 \<Rightarrow> nat \<Rightarrow> byte list" where
  "gradient_row shift y = concat (map (gradient_pixel shift y) [0..<kStubWidth])"

definition gradient :: "u32 \<Rightarrow> byte list" where
  "gradient shift = concat (map (gradient_row shift) [0..<kStubHeight])"

definition stub_frame :: "u64 \<Rightarrow> video_frame" where
  "stub_frame i = \<lparr>frame_size = \<lparr>width = of_nat kStubWidth, height = of_nat kStubHeight\<rparr>,
     format = pixel_format_code BGRA8, timestamp_us = i * kFrameIntervalUs, native_handle = None,
     cpu_pixels = gradient (ucast (i * 4)),
     dirty_rects = [\<lparr>rect_x = 0, rect_y = 0, rect_width = of_nat kStubWidth, rect_height = of_nat kStubHeight\<rparr>],
     is_idle = False\<rparr>"

definition deliverFrame :: "capturer \<Rightarrow> capturer" where
  "deliverFrame c =
     (if \<not> frame_cb c then c else c\<lparr>cap_log := cap_log c @ [Frame (stub_frame (frame_index c))]\<rparr>)"

definition stub_cursor :: "(u64 \<Rightarrow> u32 \<times> u32) \<Rightarrow> u64 \<Rightarrow> cursor_sample" where
  "stub_cursor orbit i = \<lparr>cursor_x = fst (orbit i), cursor_y = snd (orbit i), hotspot_x = 0, hotspot_y = 0,
     shape_size = (if i = 0 then \<lparr>width = 8, height = 8\<rparr> else \<lparr>width = 0, height = 0\<rparr>),
     cursor_image = (if i = 0 then replicate (8 * 8 * 4) 0xFF else []),
     cursor_visible = True, cursor_timestamp_us = i * kFrameIntervalUs\<rparr>"

definition deliverCursor :: "(u64 \<Rightarrow> u32 \<times> u32) \<Rightarrow> capturer \<Rightarrow> capturer" where
  "deliverCursor orbit c =
     (if \<not> cursor_cb c \<or> \<not> capture_cursor (cap_config c) then c
      else c\<lparr>cap_log := cap_log c @ [Cursor (stub_cursor orbit (frame_index c))]\<rparr>)"

definition pump :: "(u64 \<Rightarrow> u32 \<times> u32) \<Rightarrow> capturer \<Rightarrow> capturer" where
  "pump orbit c =
     (if \<not> capturing c then c
      else (let c' = deliverCursor orbit (deliverFrame c) in c'\<lparr>frame_index := frame_index c' + 1\<rparr>))"

section \<open>The picture\<close>

lemma length_concat_const: "(\<And>x. x \<in> set xs \<Longrightarrow> length (f x) = m) \<Longrightarrow> length (concat (map f xs)) = length xs * m"
  by (induction xs) simp_all

lemma nth_concat_const:
  "(\<And>x. length (f x) = m) \<Longrightarrow> i < length xs \<Longrightarrow> j < m \<Longrightarrow> concat (map f xs) ! (i * m + j) = f (xs ! i) ! j"
proof (induction xs arbitrary: i)
  case (Cons x xs)
  then show ?case by (cases i) (simp_all add: nth_append)
qed simp

lemma length_gradient_pixel [simp]: "length (gradient_pixel s y x) = 4"
  by (simp add: gradient_pixel_def)

lemma length_gradient_row [simp]: "length (gradient_row s y) = kStubWidth * 4"
  unfolding gradient_row_def by (subst length_concat_const [where m = 4]) simp_all

lemma length_gradient: "length (gradient s) = kStubHeight * (kStubWidth * 4)"
  unfolding gradient_def by (subst length_concat_const [where m = "kStubWidth * 4"]) simp_all

lemma nth_gradient:
  assumes "y < kStubHeight" and "x < kStubWidth" and "ch < 4"
  shows "gradient s ! (y * (kStubWidth * 4) + (x * 4 + ch)) = gradient_pixel s y x ! ch"
proof -
  have "x * 4 + ch < kStubWidth * 4" using assms(2,3) by linarith
  then have "gradient s ! (y * (kStubWidth * 4) + (x * 4 + ch)) = gradient_row s y ! (x * 4 + ch)"
    using nth_concat_const [of "gradient_row s" "kStubWidth * 4" y "[0..<kStubHeight]" "x * 4 + ch"] assms(1)
    by (simp add: gradient_def)
  also have "\<dots> = gradient_pixel s y x ! ch"
    using nth_concat_const [of "gradient_pixel s y" 4 x "[0..<kStubWidth]" ch] assms(2,3)
    by (simp add: gradient_row_def)
  finally show ?thesis .
qed

lemma low_byte: "ucast (w AND 0xFF :: u32) = (ucast w :: byte)"
  by (rule bit_eqI) (auto simp: bit_simps and_255_take_bit dest: bit_imp_le_length)

lemma ucast_add_byte: "(ucast (a + b :: u32) :: byte) = ucast a + ucast b"
  unfolding word_unat_eq_iff by (simp add: unsigned_ucast_eq unat_word_ariths take_bit_eq_mod mod_simps mod_mod_cancel)

text \<open>Two shifts draw the same picture exactly when they agree modulo 256.\<close>

lemma gradient_eq_iff: "gradient s = gradient t \<longleftrightarrow> (ucast s :: byte) = ucast t"
proof
  assume "gradient s = gradient t"
  moreover have "gradient s ! 0 = ucast s" "gradient t ! 0 = ucast t"
    using nth_gradient [of 0 0 0 s] nth_gradient [of 0 0 0 t]
    by (simp_all add: kStubWidth_def kStubHeight_def gradient_pixel_def low_byte)
  ultimately show "(ucast s :: byte) = ucast t" by metis
next
  assume "(ucast s :: byte) = ucast t"
  then have "gradient_pixel s = gradient_pixel t"
    by (intro ext) (simp add: gradient_pixel_def low_byte ucast_add_byte)
  then have "gradient_row s = gradient_row t"
    by (intro ext) (simp only: gradient_row_def)
  then show "gradient s = gradient t"
    by (simp only: gradient_def)
qed

lemma byte_of_shift: "(ucast (ucast (i * 4 :: u64) :: u32) :: byte) = ucast i * 4"
  unfolding word_unat_eq_iff by (simp add: unsigned_ucast_eq unat_word_ariths take_bit_eq_mod mod_simps mod_mod_cancel)

lemma shift_eq_iff: "(ucast (i :: u64) * 4 = (ucast j * 4 :: byte)) \<longleftrightarrow> unat i mod 64 = unat j mod 64"
proof -
  have "(ucast i * 4 = (ucast j * 4 :: byte)) \<longleftrightarrow> (4 * unat i) mod (4 * 64) = (4 * unat j) mod (4 * 64)"
    by (simp add: word_unat_eq_iff unsigned_ucast_eq unat_word_ariths take_bit_eq_mod mod_simps mult.commute)
  also have "\<dots> \<longleftrightarrow> unat i mod 64 = unat j mod 64"
    by (simp only: mult_mod_right [symmetric] mult_cancel1) simp
  finally show ?thesis .
qed

lemma take_pixel:
  assumes "y < kStubHeight" and "x < kStubWidth"
  shows "take 4 (drop (y * (kStubWidth * 4) + x * 4) (gradient s)) = gradient_pixel s y x"
proof (rule nth_equalityI)
  have "y * (kStubWidth * 4) + x * 4 + 4 \<le> kStubHeight * (kStubWidth * 4)"
  proof -
    have "Suc y * (kStubWidth * 4) \<le> kStubHeight * (kStubWidth * 4)"
      using assms(1) by (intro mult_le_mono1) simp
    with assms(2) show ?thesis by simp
  qed
  then have room: "y * (kStubWidth * 4) + x * 4 + 4 \<le> length (gradient s)"
    by (simp add: length_gradient)
  then show len: "length (take 4 (drop (y * (kStubWidth * 4) + x * 4) (gradient s))) = length (gradient_pixel s y x)"
    by simp
  fix ch assume "ch < length (take 4 (drop (y * (kStubWidth * 4) + x * 4) (gradient s)))"
  then have "ch < 4" unfolding len by simp
  then show "take 4 (drop (y * (kStubWidth * 4) + x * 4) (gradient s)) ! ch = gradient_pixel s y x ! ch"
    using nth_gradient [OF assms, of ch s] room by (simp add: add.assoc)
qed

text \<open>The synthetic frame with index i is a full 1280 by 720 BGRA picture, 3686400 bytes, whose pixel
  at column x and row y is blue x + 4i, green y + 4i, red x + y + 4i modulo 256 and opaque; two
  frames show the same picture exactly when their indices agree modulo 64, so consecutive
  frames always differ.\<close>

theorem stub_frame_picture:
  assumes "y < 720" and "x < 1280"
  shows "length (cpu_pixels (stub_frame i)) = 3686400
    \<and> take 4 (drop (y * 5120 + x * 4) (cpu_pixels (stub_frame i))) =
        [of_nat x + ucast i * 4, of_nat y + ucast i * 4, of_nat x + of_nat y + ucast i * 4, 0xFF]
    \<and> (cpu_pixels (stub_frame i) = cpu_pixels (stub_frame j)) = (unat i mod 64 = unat j mod 64)"
proof -
  have "(ucast (of_nat n :: u32) :: byte) = of_nat n" for n
    unfolding word_unat_eq_iff
    by (simp add: unsigned_ucast_eq unsigned_of_nat take_bit_eq_mod mod_mod_cancel)
  then have "take 4 (drop (y * 5120 + x * 4) (cpu_pixels (stub_frame i))) =
        [of_nat x + ucast i * 4, of_nat y + ucast i * 4, of_nat x + of_nat y + ucast i * 4, 0xFF]"
    using take_pixel [of y x "ucast (i * 4)"] assms
    by (simp add: stub_frame_def gradient_pixel_def low_byte ucast_add_byte byte_of_shift kStubWidth_def kStubHeight_def)
  then show ?thesis
    by (simp add: stub_frame_def length_gradient kStubWidth_def kStubHeight_def gradient_eq_iff byte_of_shift shift_eq_iff)
qed

theorem stub_frame_picture_witness:
  "take 4 (drop (1 * 5120 + 2 * 4) (cpu_pixels (stub_frame 65))) = [6, 5, 7, 0xFF]
   \<and> cpu_pixels (stub_frame 65) \<noteq> cpu_pixels (stub_frame 66)"
  proof -
  have "[262, 261, 263, 0xFF] = [6, 5, 7, 0xFF :: byte]" by simp
  with stub_frame_picture [of 1 2 65 66] show ?thesis by simp
qed

section \<open>Histories\<close>

datatype capture_op = CapStart capture_config | CapStop | CapPump | CapFrameCb bool | CapCursorCb bool

fun capture_step :: "(u64 \<Rightarrow> u32 \<times> u32) \<Rightarrow> capturer \<Rightarrow> capture_op \<Rightarrow> capturer" where
  "capture_step orbit c (CapStart config) = snd (cap_start config c)"
| "capture_step orbit c CapStop = cap_stop c"
| "capture_step orbit c CapPump = pump orbit c"
| "capture_step orbit c (CapFrameCb cb) = setFrameCallback cb c"
| "capture_step orbit c (CapCursorCb cb) = setCursorCallback cb c"

lemma pump_fields [simp]:
  "frame_cb (pump orbit c) = frame_cb c" "cursor_cb (pump orbit c) = cursor_cb c"
  "cap_config (pump orbit c) = cap_config c" "capturing (pump orbit c) = capturing c"
  by (simp_all add: pump_def deliverFrame_def deliverCursor_def)

definition deliveries :: "(u64 \<Rightarrow> u32 \<times> u32) \<Rightarrow> capturer \<Rightarrow> u64 \<Rightarrow> capture_event list" where
  "deliveries orbit c i = (if frame_cb c then [Frame (stub_frame i)] else [])
     @ (if cursor_cb c \<and> capture_cursor (cap_config c) then [Cursor (stub_cursor orbit i)] else [])"

lemma pump_capturing:
  "capturing c \<Longrightarrow> frame_index (pump orbit c) = frame_index c + 1
     \<and> cap_log (pump orbit c) = cap_log c @ deliveries orbit c (frame_index c)"
  by (simp add: pump_def deliverFrame_def deliverCursor_def deliveries_def)

lemma deliveries_pump [simp]: "deliveries orbit (pump orbit c) = deliveries orbit c"
  by (simp add: deliveries_def fun_eq_iff)

lemma pumps_capturing:
  "capturing c \<Longrightarrow> cap_log ((pump orbit ^^ k) c) = cap_log c @ concat (map (\<lambda>n. deliveries orbit c (frame_index c + of_nat n)) [0..<k])
     \<and> frame_index ((pump orbit ^^ k) c) = frame_index c + of_nat k \<and> capturing ((pump orbit ^^ k) c)
     \<and> deliveries orbit ((pump orbit ^^ k) c) = deliveries orbit c"
proof (induction k)
  case (Suc k)
  then show ?case by (simp add: pump_capturing add.assoc add.commute)
qed simp

text \<open>A capture delivers, pump after pump, the frames with index 0, 1, 2, ... and, if wanted, a
  cursor sample with the same index, each at index times 16666 microseconds; the shape goes
  out with the first sample only, and nothing is delivered before start or after stop.\<close>

theorem pumps_deliver_in_order:
  assumes "\<not> capturing c"
  shows "cap_log ((pump orbit ^^ k) (snd (cap_start config c))) = cap_log c @
      concat (map (\<lambda>n. deliveries orbit (c\<lparr>cap_config := config\<rparr>) (of_nat n)) [0..<k])
    \<and> cap_log ((pump orbit ^^ j) (cap_stop ((pump orbit ^^ k) (snd (cap_start config c)))))
        = cap_log ((pump orbit ^^ k) (snd (cap_start config c)))
    \<and> (pump orbit ^^ j) c = c"
proof -
  let ?s = "snd (cap_start config c)"
  have s: "capturing ?s" "frame_index ?s = 0" "cap_log ?s = cap_log c"
    and d: "deliveries orbit ?s = deliveries orbit (c\<lparr>cap_config := config\<rparr>)"
    using assms by (simp_all add: cap_start_def deliveries_def fun_eq_iff)
  have idle: "\<not> capturing x \<Longrightarrow> (pump orbit ^^ j) x = x" for x
    by (induction j) (simp_all add: pump_def)
  from pumps_capturing [OF s(1), of k orbit] s d assms idle show ?thesis
    by (simp add: idle cap_stop_def)
qed

theorem pumps_deliver_in_order_witness:
  "cap_log ((pump orbit ^^ 2) (snd (cap_start default_capture_config (setFrameCallback True createStubCapturer))))
     = [Frame (stub_frame 0), Frame (stub_frame 1)]"
  using pumps_deliver_in_order [of "setFrameCallback True createStubCapturer" 2 orbit default_capture_config 0]
  by (simp add: setFrameCallback_def createStubCapturer_def deliveries_def numeral_2_eq_2)

end
