(* ===== verification/Net_Core.thy ===== *)
theory Net_Core
  imports Common_Types Interfaces
begin

text \<open>
  \<open>server/common/net.h\<close> and \<open>net.cpp\<close>: endpoints, and the owning socket wrapper over the
  POSIX calls. The operating system is a parameter: the result of every system call an
  operation makes is an argument of it, and the open descriptors are the list of handles that
  calls returned and no close has released. A negative result is a failure; \<open>-1\<close> is
  \<open>kInvalidSocket\<close>. The Winsock branches are left out.
\<close>

type_synonym socket_handle = int

definition kInvalidSocket :: socket_handle where "kInvalidSocket = -1"

record endpoint =
  host :: string
  port :: u16
  ipv6 :: bool

definition endpoint_display :: "endpoint \<Rightarrow> string" where
  "endpoint_display e =
     (if ipv6 e then ''['' @ host e @ '']:'' @ to_string (unat (port e))
      else host e @ '':'' @ to_string (unat (port e)))"

definition default_endpoint :: endpoint where
  "default_endpoint = \<lparr>host = '''', port = 0, ipv6 = False\<rparr>"

text \<open>\<open>errno\<close> values of an interrupted or non-blocking call.\<close>

datatype errno = EAGAIN | EWOULDBLOCK | EINTR | EOther nat

definition would_block :: "errno \<Rightarrow> bool" where
  "would_block e \<longleftrightarrow> e = EAGAIN \<or> e = EWOULDBLOCK \<or> e = EINTR"

text \<open>The Windows branch reads \<open>WSAGetLastError\<close>; its two retryable errors are the POSIX ones under
  other names, so the operations below, which use the error only through \<open>would_block\<close>, cover it.\<close>

datatype wsa_error = WSAEWOULDBLOCK | WSAEINTR | WSAEOther nat

definition would_block_windows :: "wsa_error \<Rightarrow> bool" where
  "would_block_windows e \<longleftrightarrow> e = WSAEWOULDBLOCK \<or> e = WSAEINTR"

fun errno_of_wsa :: "wsa_error \<Rightarrow> errno" where
  "errno_of_wsa WSAEWOULDBLOCK = EWOULDBLOCK"
| "errno_of_wsa WSAEINTR = EINTR"
| "errno_of_wsa (WSAEOther n) = EOther n"

lemma would_block_of_wsa: "would_block (errno_of_wsa e) = would_block_windows e"
  by (cases e) (simp_all add: would_block_def would_block_windows_def)

text \<open>\<open>NetInit\<close> and its destructor: on Windows they hold one reference to Winsock, elsewhere they do nothing.\<close>

definition NetInit :: "bool \<Rightarrow> nat \<Rightarrow> nat" where
  "NetInit windows refs = (if windows then refs + 1 else refs)"

definition NetInit_destroy :: "bool \<Rightarrow> nat \<Rightarrow> nat" where
  "NetInit_destroy windows refs = (if windows then refs - 1 else refs)"

text \<open>A socket owns a handle. Of the process: the descriptors it holds, and every \<open>close\<close> it made, with whether the
  descriptor was open at that moment; closing one that is not open is a system error, or hits a descriptor
  that another part of the process has opened since.\<close>

record socket =
  handle :: socket_handle

record fds =
  open_fds :: "socket_handle list"
  closed_log :: "(socket_handle \<times> bool) list"

definition valid_socket :: "socket \<Rightarrow> bool" where
  "valid_socket s \<longleftrightarrow> handle s \<noteq> kInvalidSocket"

definition no_socket :: socket where "no_socket = \<lparr>handle = kInvalidSocket\<rparr>"

definition os_open :: "socket_handle \<Rightarrow> fds \<Rightarrow> fds" where
  "os_open h f = f\<lparr>open_fds := h # open_fds f\<rparr>"

definition close_handle :: "socket_handle \<Rightarrow> fds \<Rightarrow> fds" where
  "close_handle h f = (if h \<noteq> kInvalidSocket
     then f\<lparr>open_fds := remove1 h (open_fds f), closed_log := closed_log f @ [(h, h \<in> set (open_fds f))]\<rparr> else f)"

definition close_socket :: "socket \<Rightarrow> fds \<Rightarrow> socket \<times> fds" where
  "close_socket s f = (s\<lparr>handle := kInvalidSocket\<rparr>, close_handle (handle s) f)"

text \<open>\<open>operator=(Socket&& o)\<close>; \<open>same\<close> says whether the two objects are one.\<close>

definition move_assign :: "bool \<Rightarrow> socket \<Rightarrow> socket \<Rightarrow> fds \<Rightarrow> socket \<times> socket \<times> fds" where
  "move_assign same s src f =
     (if same then (s, src, f)
      else (let (s', f') = close_socket s f
            in (s'\<lparr>handle := handle src\<rparr>, src\<lparr>handle := kInvalidSocket\<rparr>, f')))"

definition bind_udp :: "u16 \<Rightarrow> socket_handle \<Rightarrow> int \<Rightarrow> fds \<Rightarrow> socket result \<times> fds" where
  "bind_udp p sock_ret bind_ret f =
     (if sock_ret = kInvalidSocket then (fail Internal ''udp socket() failed'', f)
      else
        (let f = os_open sock_ret f
         in if bind_ret \<noteq> 0 then
              (fail Internal (''udp bind() failed on port '' @ to_string (unat p)), close_handle sock_ret f)
            else (good \<lparr>handle = sock_ret\<rparr>, f)))"

definition listen_tcp :: "u16 \<Rightarrow> socket_handle \<Rightarrow> int \<Rightarrow> int \<Rightarrow> fds \<Rightarrow> socket result \<times> fds" where
  "listen_tcp p sock_ret bind_ret listen_ret f =
     (if sock_ret = kInvalidSocket then (fail Internal ''tcp socket() failed'', f)
      else
        (let f = os_open sock_ret f
         in if bind_ret \<noteq> 0 then
              (fail Internal (''tcp bind() failed on port '' @ to_string (unat p)), close_handle sock_ret f)
            else if listen_ret \<noteq> 0 then (fail Internal ''listen() failed'', close_handle sock_ret f)
            else (good \<lparr>handle = sock_ret\<rparr>, f)))"

definition accept :: "socket_handle \<Rightarrow> errno \<Rightarrow> endpoint \<Rightarrow> fds \<Rightarrow> (socket \<times> endpoint) result \<times> fds" where
  "accept acc_ret err from f =
     (if acc_ret = kInvalidSocket
      then (fail (if would_block err then Again else ConnectionLost) ''accept() failed'', f)
      else (good (\<lparr>handle = acc_ret\<rparr>, from), os_open acc_ret f))"

definition recv_from :: "nat \<Rightarrow> int \<Rightarrow> byte list \<Rightarrow> errno \<Rightarrow> endpoint \<Rightarrow> (byte list \<times> endpoint) result" where
  "recv_from len n buffer err from =
     (if n < 0 then fail (if would_block err then Again else ConnectionLost) ''recvfrom() failed''
      else good (take (nat n) (take len buffer), from))"

text \<open>\<open>inet_pton\<close> is a parameter: whether it accepts the host as an address of the family.\<close>

definition send_to :: "(bool \<Rightarrow> string \<Rightarrow> bool) \<Rightarrow> int \<Rightarrow> errno \<Rightarrow> endpoint \<Rightarrow> status" where
  "send_to inet_pton n err to =
     (if \<not> inet_pton (ipv6 to) (host to) then
        error_status InvalidArgument (''unparseable endpoint: '' @ endpoint_display to)
      else if n < 0 then error_status (if would_block err then Again else ConnectionLost) ''sendto() failed''
      else success)"

section \<open>A process with sockets\<close>

text \<open>The socket objects of a process, by number, with the operations they go through. A
  result socket is moved into its variable; destruction closes.\<close>

record process =
  sock :: "nat \<Rightarrow> socket"
  pfds :: fds

datatype socket_op =
    BindUdp nat u16 socket_handle int
  | ListenTcp nat u16 socket_handle int int
  | Accept nat socket_handle errno endpoint
  | Move nat nat
  | Close nat

definition store_result :: "nat \<Rightarrow> socket result \<times> fds \<Rightarrow> process \<Rightarrow> process" where
  "store_result v rf p = (case rf of
       (Inl _, f) \<Rightarrow> p\<lparr>pfds := f\<rparr>
     | (Inr s, f) \<Rightarrow> (let (s', _, f') = move_assign False (sock p v) s f
                     in p\<lparr>sock := (sock p)(v := s'), pfds := f'\<rparr>))"

fun socket_step :: "process \<Rightarrow> socket_op \<Rightarrow> process" where
  "socket_step p (BindUdp v pt h b) = store_result v (bind_udp pt h b (pfds p)) p"
| "socket_step p (ListenTcp v pt h b l) = store_result v (listen_tcp pt h b l (pfds p)) p"
| "socket_step p (Accept v h e ep) =
     (let (r, f) = accept h e ep (pfds p)
      in store_result v (map_sum id fst r, f) p)"
| "socket_step p (Move v w) =
     (let (s, src, f) = move_assign (v = w) (sock p v) (sock p w) (pfds p)
      in p\<lparr>sock := (sock p)(w := src, v := s), pfds := f\<rparr>)"
| "socket_step p (Close v) =
     (let (s, f) = close_socket (sock p v) (pfds p) in p\<lparr>sock := (sock p)(v := s), pfds := f\<rparr>)"

definition fresh_process :: process where
  "fresh_process = \<lparr>sock = (\<lambda>_. no_socket), pfds = \<lparr>open_fds = [], closed_log = []\<rparr>\<rparr>"

text \<open>The handle a call would open; the system never hands out one that is open.\<close>

fun opened_handle :: "socket_op \<Rightarrow> socket_handle" where
  "opened_handle (BindUdp v pt h b) = h"
| "opened_handle (ListenTcp v pt h b l) = h"
| "opened_handle (Accept v h e ep) = h"
| "opened_handle (Move v w) = kInvalidSocket"
| "opened_handle (Close v) = kInvalidSocket"

fun os_fresh :: "process \<Rightarrow> socket_op list \<Rightarrow> bool" where
  "os_fresh p [] \<longleftrightarrow> True"
| "os_fresh p (op # ops) \<longleftrightarrow> opened_handle op \<notin> set (open_fds (pfds p)) \<and> os_fresh (socket_step p op) ops"

section \<open>Facts\<close>

lemma to_string_no_colon: "CHR '':'' \<notin> set (to_string n)"
proof (induction n rule: to_string.induct)
  case (1 n)
  have digit: "CHR '':'' \<noteq> char_of (48 + d)" if "d < 10" for d :: nat
  proof
    assume "CHR '':'' = char_of (48 + d)"
    then have "of_char (CHR '':'') = (48 + d :: nat)" by (simp only: of_char_digit [OF that])
    then have "58 = 48 + d" by simp
    with that show False by simp
  qed
  show ?case
  proof (cases "n < 10")
    case True
    then have "to_string n = [char_of (48 + n)]" by (subst to_string.simps) simp
    with digit [OF True] show ?thesis by (simp only: list.set) blast
  next
    case False
    then have eq: "to_string n = to_string (n div 10) @ [char_of (48 + n mod 10)]" by (subst to_string.simps) simp
    have "n mod 10 < 10" by simp
    from digit [OF this] 1 [OF False] show ?thesis unfolding eq by (simp only: set_append list.set) blast
  qed
qed

lemma append_colon_inj:
  "CHR '':'' \<notin> set b \<Longrightarrow> CHR '':'' \<notin> set d \<Longrightarrow> a @ CHR '':'' # b = c @ CHR '':'' # d \<Longrightarrow> a = c \<and> b = d"
proof -
  assume nb: "CHR '':'' \<notin> set b" and nd: "CHR '':'' \<notin> set d" and eq: "a @ CHR '':'' # b = c @ CHR '':'' # d"
  have "takeWhile (\<lambda>x. x \<noteq> CHR '':'') (rev (a @ CHR '':'' # b)) = rev b" if "CHR '':'' \<notin> set b" for a b
    using that by (auto simp: takeWhile_tail)
  from this [OF nb, of a] this [OF nd, of c] eq have "b = d" by simp
  with eq show "a = c \<and> b = d" by simp
qed

text \<open>The display string identifies an endpoint: two endpoints whose IPv4 hosts do not start with
  a bracket print the same string only if they are equal, so it can key a table.\<close>

theorem endpoint_display_identifies:
  assumes "endpoint_display e = endpoint_display e'"
    and "ipv6 e \<or> take 1 (host e) \<noteq> ''[''" and "ipv6 e' \<or> take 1 (host e') \<noteq> ''[''"
  shows "e = e'"
proof -
  define h where "h = (\<lambda>x :: endpoint. if ipv6 x then ''['' @ host x @ '']'' else host x)"
  have disp: "endpoint_display x = h x @ CHR '':'' # to_string (unat (port x))" for x :: endpoint
    by (simp add: endpoint_display_def h_def)
  have "h e @ CHR '':'' # to_string (unat (port e)) = h e' @ CHR '':'' # to_string (unat (port e'))"
    using assms(1) by (simp only: disp)
  then have both: "h e = h e' \<and> to_string (unat (port e)) = to_string (unat (port e'))"
    by (rule append_colon_inj [OF to_string_no_colon to_string_no_colon])
  then have eq: "h e = h e'" and p: "port e = port e'"
    by (simp_all add: word_unat_eq_iff)
  have br: "ipv6 x \<or> take 1 (host x) \<noteq> ''['' \<Longrightarrow> (take 1 (h x) = ''['') = ipv6 x" for x
    by (auto simp: h_def)
  have "ipv6 e = ipv6 e'" using br [OF assms(2)] br [OF assms(3)] eq by simp
  with eq have "host e = host e'" by (auto simp: h_def split: if_splits)
  with p \<open>ipv6 e = ipv6 e'\<close> show ?thesis by (cases e; cases e') simp
qed

theorem endpoint_display_identifies_witness:
  "endpoint_display \<lparr>host = ''10.0.0.1'', port = 80, ipv6 = False\<rparr> \<noteq> endpoint_display \<lparr>host = ''10.0.0.1'', port = 8, ipv6 = False\<rparr>"
  using endpoint_display_identifies [of "\<lparr>host = ''10.0.0.1'', port = 80, ipv6 = False\<rparr>" "\<lparr>host = ''10.0.0.1'', port = 8, ipv6 = False\<rparr>"]
  by auto

section \<open>Ownership of descriptors\<close>

text \<open>Every open descriptor is owned by exactly one socket object, and no valid object refers to a
  closed one.\<close>

definition owned :: "process \<Rightarrow> bool" where
  "owned p \<longleftrightarrow> distinct (open_fds (pfds p))
     \<and> (\<forall>h. h \<in> set (open_fds (pfds p)) \<longleftrightarrow> h \<noteq> kInvalidSocket \<and> (\<exists>v. handle (sock p v) = h))
     \<and> (\<forall>v w. handle (sock p v) \<noteq> kInvalidSocket \<and> handle (sock p v) = handle (sock p w) \<longrightarrow> v = w)"

lemma owned_fresh: "owned fresh_process"
  by (auto simp: owned_def fresh_process_def no_socket_def)

lemma socket_eta [simp]: "(s :: socket)\<lparr>handle := h\<rparr> = \<lparr>handle = h\<rparr>"
  by (cases s) simp

lemma owned_intro:
  assumes "distinct (open_fds (pfds q))"
    and "\<And>h. h \<in> set (open_fds (pfds q)) \<longleftrightarrow> h \<noteq> kInvalidSocket \<and> (\<exists>v. handle (sock q v) = h)"
    and "\<And>v w. handle (sock q v) \<noteq> kInvalidSocket \<Longrightarrow> handle (sock q v) = handle (sock q w) \<Longrightarrow> v = w"
  shows "owned q"
  unfolding owned_def using assms by metis

lemma set_remove1_owned [simp]: "distinct xs \<Longrightarrow> set (remove1 h xs) = set xs - {h}"
  by (rule set_remove1_eq)

text \<open>Closing what a variable holds and giving it a handle that is new, or none.\<close>

lemma owned_put:
  assumes "owned p" and "h = kInvalidSocket \<or> h \<notin> set (open_fds (pfds p))"
    and "distinct (open_fds f)"
    and "\<And>x. x \<in> set (open_fds f) \<longleftrightarrow>
       (x \<in> set (open_fds (pfds p)) \<and> x \<noteq> handle (sock p v)) \<or> (x = h \<and> h \<noteq> kInvalidSocket)"
  shows "owned (p\<lparr>sock := (sock p)(v := \<lparr>handle = h\<rparr>), pfds := f\<rparr>)"
proof -
  have set_p: "x \<in> set (open_fds (pfds p)) \<longleftrightarrow> x \<noteq> kInvalidSocket \<and> (\<exists>v. handle (sock p v) = x)" for x
    using assms(1) by (simp add: owned_def)
  have inj: "handle (sock p u) \<noteq> kInvalidSocket \<Longrightarrow> handle (sock p u) = handle (sock p w) \<Longrightarrow> u = w" for u w
    using assms(1) by (simp add: owned_def)
  have new: "h \<noteq> kInvalidSocket \<Longrightarrow> handle (sock p u) \<noteq> h" for u
    using assms(2) set_p by blast
  have mem: "x \<in> set (open_fds f) \<longleftrightarrow> x \<noteq> kInvalidSocket \<and> (\<exists>u. handle (((sock p)(v := \<lparr>handle = h\<rparr>)) u) = x)" for x
  proof
    assume "x \<in> set (open_fds f)"
    then consider (old) u where "x \<noteq> kInvalidSocket" "handle (sock p u) = x" "x \<noteq> handle (sock p v)"
      | (fresh) "x = h" "h \<noteq> kInvalidSocket"
      unfolding assms(4) set_p by blast
    then show "x \<noteq> kInvalidSocket \<and> (\<exists>u. handle (((sock p)(v := \<lparr>handle = h\<rparr>)) u) = x)"
    proof cases
      case old
      then have "u \<noteq> v" by blast
      with old have "handle (((sock p)(v := \<lparr>handle = h\<rparr>)) u) = x" by simp
      with old(1) show ?thesis by blast
    next
      case fresh
      then have "handle (((sock p)(v := \<lparr>handle = h\<rparr>)) v) = x" by simp
      with fresh show ?thesis by blast
    qed
  next
    assume "x \<noteq> kInvalidSocket \<and> (\<exists>u. handle (((sock p)(v := \<lparr>handle = h\<rparr>)) u) = x)"
    then obtain u where x: "x \<noteq> kInvalidSocket" and u: "handle (((sock p)(v := \<lparr>handle = h\<rparr>)) u) = x" by blast
    show "x \<in> set (open_fds f)"
    proof (cases "u = v")
      case True
      with x u show ?thesis by (simp add: assms(4))
    next
      case False
      with u have "handle (sock p u) = x" by simp
      moreover from this False x have "x \<noteq> handle (sock p v)" using inj by metis
      ultimately show ?thesis using x by (auto simp: assms(4) set_p)
    qed
  qed
  have uniq: "u = w" if "handle (((sock p)(v := \<lparr>handle = h\<rparr>)) u) \<noteq> kInvalidSocket"
      "handle (((sock p)(v := \<lparr>handle = h\<rparr>)) u) = handle (((sock p)(v := \<lparr>handle = h\<rparr>)) w)" for u w
  proof (cases "u = v"; cases "w = v")
    assume "u \<noteq> v" "w \<noteq> v"
    with that show "u = w" by (intro inj) simp_all
  next
    assume "u = v" "w \<noteq> v"
    with that new [of w] show "u = w" by simp
  next
    assume "u \<noteq> v" "w = v"
    with that new [of u] show "u = w" by simp
  qed simp
  let ?q = "p\<lparr>sock := (sock p)(v := \<lparr>handle = h\<rparr>), pfds := f\<rparr>"
  have q: "sock ?q = (sock p)(v := \<lparr>handle = h\<rparr>)" "pfds ?q = f" by simp_all
  show ?thesis
    by (rule owned_intro) (unfold q, rule assms(3), rule mem, erule (1) uniq)
qed

lemma owned_distinct: "owned p \<Longrightarrow> distinct (open_fds (pfds p))"
  by (simp add: owned_def)

lemma owned_valid: "owned p \<Longrightarrow> h \<in> set (open_fds (pfds p)) \<Longrightarrow> h \<noteq> kInvalidSocket"
  by (simp add: owned_def)

lemma owned_handle: "owned p \<Longrightarrow> handle (sock p v) \<noteq> kInvalidSocket \<Longrightarrow> handle (sock p v) \<in> set (open_fds (pfds p))"
  by (auto simp: owned_def)

lemma open_close_handle:
  "open_fds (close_handle h f) = (if h \<noteq> kInvalidSocket then remove1 h (open_fds f) else open_fds f)"
  by (simp add: close_handle_def)

lemma close_handle_owned:
  assumes "owned p"
  shows "distinct (open_fds (close_handle h (pfds p)))"
    and "x \<in> set (open_fds (close_handle h (pfds p))) \<longleftrightarrow> x \<in> set (open_fds (pfds p)) \<and> x \<noteq> h"
  using owned_distinct [OF assms] owned_valid [OF assms] by (auto simp: open_close_handle)

lemma owned_close: "owned p \<Longrightarrow> owned (socket_step p (Close v))"
  using owned_put [of p kInvalidSocket "close_handle (handle (sock p v)) (pfds p)" v]
  by (simp add: close_socket_def close_handle_owned)

text \<open>A socket moved into a variable: what the variable held is closed, the source is emptied.\<close>

lemma owned_store:
  assumes "owned p" and "h \<notin> set (open_fds (pfds p))" and "h \<noteq> kInvalidSocket"
  shows "owned (store_result v (good \<lparr>handle = h\<rparr>, os_open h (pfds p)) p)"
proof -
  let ?f = "close_handle (handle (sock p v)) (os_open h (pfds p))"
  have "handle (sock p v) \<noteq> h"
    using assms owned_handle [OF assms(1), of v] by metis
  then have "distinct (open_fds ?f)"
    and "x \<in> set (open_fds ?f) \<longleftrightarrow> (x \<in> set (open_fds (pfds p)) \<and> x \<noteq> handle (sock p v)) \<or> (x = h \<and> h \<noteq> kInvalidSocket)" for x
    using assms owned_distinct [OF assms(1)] owned_valid [OF assms(1), of x]
    by (auto simp: open_close_handle os_open_def)
  from owned_put [OF assms(1) _ this] assms(2) show ?thesis
    by (simp add: store_result_def good_def move_assign_def close_socket_def)
qed

lemma store_failed [simp]: "store_result v (fail c m, pfds p) p = p"
  by (simp add: store_result_def fail_def)

lemma close_just_opened [simp]:
  "h \<noteq> kInvalidSocket \<Longrightarrow> open_fds (close_handle h (os_open h f)) = open_fds f"
  by (simp add: open_close_handle os_open_def)

lemma owned_store_failed:
  "owned p \<Longrightarrow> open_fds f = open_fds (pfds p) \<Longrightarrow> owned (store_result v (fail c m, f) p)"
  by (simp add: store_result_def fail_def owned_def)

lemma owned_swap:
  assumes "owned p"
  shows "owned (p\<lparr>sock := (sock p)(w := sock p v, v := sock p w)\<rparr>)"
proof (rule owned_intro)
  let ?s = "(sock p)(w := sock p v, v := sock p w)"
  define sw where "sw = (\<lambda>u. if u = v then w else if u = w then v else u)"
  have s: "sock (p\<lparr>sock := ?s\<rparr>) u = sock p (sw u)" for u by (simp add: sw_def)
  have sw: "sw (sw u) = u" for u by (simp add: sw_def)
  show "distinct (open_fds (pfds (p\<lparr>sock := ?s\<rparr>)))" using owned_distinct [OF assms] by simp
  show "h \<in> set (open_fds (pfds (p\<lparr>sock := ?s\<rparr>))) \<longleftrightarrow> h \<noteq> kInvalidSocket \<and> (\<exists>u. handle (sock (p\<lparr>sock := ?s\<rparr>) u) = h)" for h
    unfolding s using assms sw unfolding owned_def by simp metis
  show "u = x" if "handle (sock (p\<lparr>sock := ?s\<rparr>) u) \<noteq> kInvalidSocket"
    "handle (sock (p\<lparr>sock := ?s\<rparr>) u) = handle (sock (p\<lparr>sock := ?s\<rparr>) x)" for u x
  proof -
    have "sw u = sw x" using that assms unfolding s owned_def by blast
    then show "u = x" using sw by metis
  qed
qed

lemma socket_collapse: "\<lparr>handle = handle (s :: socket)\<rparr> = s"
  by (cases s) simp

lemma owned_move:
  assumes "owned p"
  shows "owned (socket_step p (Move v w))"
proof (cases "v = w")
  case False
  let ?q = "socket_step p (Close v)"
  have q: "?q = p\<lparr>sock := (sock p)(v := \<lparr>handle = kInvalidSocket\<rparr>), pfds := close_handle (handle (sock p v)) (pfds p)\<rparr>"
    by (simp add: close_socket_def)
  have "(sock ?q)(w := sock ?q v, v := sock ?q w) = (sock p)(w := \<lparr>handle = kInvalidSocket\<rparr>, v := sock p w)"
    using False unfolding q by (intro ext) simp
  then have "socket_step p (Move v w) = ?q\<lparr>sock := (sock ?q)(w := sock ?q v, v := sock ?q w)\<rparr>"
    using False by (simp add: move_assign_def close_socket_def socket_collapse)
  also have "owned \<dots>" by (rule owned_swap [OF owned_close [OF assms]])
  finally show ?thesis .
qed (use assms in \<open>simp add: move_assign_def owned_def\<close>)

lemma owned_step:
  assumes "owned p" and "opened_handle op \<notin> set (open_fds (pfds p))"
  shows "owned (socket_step p op)"
proof (cases op)
  case (BindUdp v pt h b)
  with assms show ?thesis
    by (auto simp: bind_udp_def intro: owned_store owned_store_failed)
next
  case (ListenTcp v pt h b l)
  with assms show ?thesis
    by (auto simp: listen_tcp_def intro: owned_store owned_store_failed)
next
  case (Accept v h e ep)
  with assms owned_store [of p h v] show ?thesis
    by (auto simp: accept_def fail_def good_def owned_store_failed store_result_def)
qed (use assms owned_move owned_close in auto)

lemma owned_run: "owned p \<Longrightarrow> os_fresh p ops \<Longrightarrow> owned (foldl socket_step p ops)"
  by (induction ops arbitrary: p) (auto intro: owned_step)

text \<open>Every close hits a descriptor that is open.\<close>

definition closes_ok :: "fds \<Rightarrow> bool" where
  "closes_ok f \<longleftrightarrow> list_all snd (closed_log f)"

lemma closes_close: "closes_ok f \<Longrightarrow> h = kInvalidSocket \<or> h \<in> set (open_fds f) \<Longrightarrow> closes_ok (close_handle h f)"
  by (auto simp: closes_ok_def close_handle_def)

lemma closes_open [simp]: "closes_ok (os_open h f) = closes_ok f" "set (open_fds (os_open h f)) = insert h (set (open_fds f))"
  by (simp_all add: closes_ok_def os_open_def)

lemma closes_store:
  assumes "owned p" and "closes_ok f" and "set (open_fds (pfds p)) \<subseteq> set (open_fds f)"
  shows "closes_ok (pfds (store_result v (r, f) p))"
  using assms owned_handle [OF assms(1), of v]
  by (cases r) (auto simp: store_result_def move_assign_def close_socket_def intro!: closes_close)

lemma closes_step:
  assumes "owned p" and "closes_ok (pfds p)"
  shows "closes_ok (pfds (socket_step p op))"
proof (cases op)
  case (BindUdp v pt h b)
  with assms show ?thesis
    by (auto simp: bind_udp_def good_def fail_def store_result_def [of _ "(Inl _, _)"] Let_def intro!: closes_store closes_close)
next
  case (ListenTcp v pt h b l)
  with assms show ?thesis
    by (auto simp: listen_tcp_def good_def fail_def store_result_def [of _ "(Inl _, _)"] Let_def intro!: closes_store closes_close)
next
  case (Accept v h e ep)
  with assms show ?thesis
    by (auto simp: accept_def good_def fail_def store_result_def [of _ "(Inl _, _)"] intro!: closes_store)
next
  case (Move v w)
  with assms owned_handle [OF assms(1), of v] show ?thesis
    by (auto simp: move_assign_def close_socket_def Let_def intro!: closes_close)
next
  case (Close v)
  with assms owned_handle [OF assms(1), of v] show ?thesis
    by (auto simp: close_socket_def intro!: closes_close)
qed

lemma closes_run: "owned p \<Longrightarrow> closes_ok (pfds p) \<Longrightarrow> os_fresh p ops \<Longrightarrow> closes_ok (pfds (foldl socket_step p ops))"
  by (induction ops arbitrary: p) (simp_all add: owned_step closes_step)

text \<open>C39: If the system never returns a descriptor that is still open, then after any sequence of binds,
  listens, accepts, moves and closes, failed ones included, every open descriptor belongs to
  exactly one socket object and every valid object's descriptor is open, so nothing leaks on an
  error path or is left in an object after its close; and every close of the run was of a descriptor open at that moment,
  so nothing is closed twice.\<close>

theorem no_descriptor_leaks:
  assumes "os_fresh fresh_process ops"
  shows "(let p = foldl socket_step fresh_process ops
    in distinct (open_fds (pfds p))
     \<and> set (open_fds (pfds p)) = (handle ` range (sock p)) - {kInvalidSocket}
     \<and> inj_on (\<lambda>v. handle (sock p v)) {v. valid_socket (sock p v)}
     \<and> list_all snd (closed_log (pfds p)))"
proof -
  have "closes_ok (pfds fresh_process)" by (simp add: closes_ok_def fresh_process_def)
  from closes_run [OF owned_fresh this assms] owned_run [OF owned_fresh assms] show ?thesis
    by (auto simp: owned_def inj_on_def valid_socket_def closes_ok_def)
qed

theorem no_descriptor_leaks_witness:
  "set (open_fds (pfds (foldl socket_step fresh_process [BindUdp 0 80 3 0, BindUdp 1 81 4 (-1), Move 2 0])))
     = (handle ` range (sock (foldl socket_step fresh_process [BindUdp 0 80 3 0, BindUdp 1 81 4 (-1), Move 2 0]))) - {kInvalidSocket}"
  using no_descriptor_leaks [of "[BindUdp 0 80 3 0, BindUdp 1 81 4 (-1), Move 2 0]"]
  by (simp add: fresh_process_def bind_udp_def kInvalidSocket_def store_result_def move_assign_def close_socket_def
      close_handle_def os_open_def good_def fail_def no_socket_def)

end
