(* ===== verification/Relay_Core.thy ===== *)
theory Relay_Core
  imports Net_Core
begin

text \<open>
  \<open>server/relay/allocation_table.h\<close>, \<open>allocation_table.cpp\<close> and \<open>main.cpp\<close>: the token table
  and the forwarding loop. Tokens and datagrams are byte strings, times are seconds as
  unbounded integers (the clock stays far from the ends of 64 bits), byte counters wrap at
  64 bits. Every table operation is one step, as its mutex makes it (\<open>Locked_Tables\<close>). One turn of the loop takes what
  \<open>recv_from\<close> returned and the clock readings as arguments and returns the datagram it
  sends, if any; diagnostics are left out.
\<close>

type_synonym session_token = "byte list"

record leg =
  leg_endpoint :: endpoint
  bound :: bool
  bytes_forwarded :: u64

record allocation =
  token :: session_token
  leg_a :: leg
  leg_b :: leg
  created_unix_s :: int
  last_activity_unix_s :: int

definition fully_bound :: "allocation \<Rightarrow> bool" where
  "fully_bound al \<longleftrightarrow> bound (leg_a al) \<and> bound (leg_b al)"

definition default_leg :: leg where
  "default_leg = \<lparr>leg_endpoint = default_endpoint, bound = False, bytes_forwarded = 0\<rparr>"

definition default_allocation :: allocation where
  "default_allocation = \<lparr>token = [], leg_a = default_leg, leg_b = default_leg,
     created_unix_s = 0, last_activity_unix_s = 0\<rparr>"

type_synonym allocation_table = "(session_token \<times> allocation) list"

definition allocate :: "session_token \<Rightarrow> int \<Rightarrow> allocation_table \<Rightarrow> status \<times> allocation_table" where
  "allocate tok now t =
     (if tok = [] then (error_status InvalidArgument ''empty session token'', t)
      else
        (let al = (case map_of t tok of Some al \<Rightarrow> al | None \<Rightarrow> default_allocation);
             al' = (if created_unix_s al = 0
                    then al\<lparr>token := tok, created_unix_s := now, last_activity_unix_s := now\<rparr> else al)
         in (success, AList.update tok al' t)))"

datatype leg_name = LegA | LegB

definition choose_leg :: "allocation \<Rightarrow> endpoint \<Rightarrow> leg_name option" where
  "choose_leg al src =
     (if bound (leg_a al) \<and> leg_endpoint (leg_a al) = src then Some LegA
      else if bound (leg_b al) \<and> leg_endpoint (leg_b al) = src then Some LegB
      else if \<not> bound (leg_a al) then Some LegA
      else if \<not> bound (leg_b al) then Some LegB
      else None)"

text \<open>Binding the chosen leg (a no-op for a leg that already has this endpoint) and counting bytes.\<close>

definition touch_leg :: "endpoint \<Rightarrow> nat \<Rightarrow> leg \<Rightarrow> leg" where
  "touch_leg src n l = l\<lparr>leg_endpoint := src, bound := True, bytes_forwarded := bytes_forwarded l + of_nat n\<rparr>"

definition route :: "session_token \<Rightarrow> endpoint \<Rightarrow> nat \<Rightarrow> int \<Rightarrow> allocation_table \<Rightarrow> endpoint result \<times> allocation_table" where
  "route tok src n now t =
     (case map_of t tok of
        None \<Rightarrow> (fail InvalidArgument ''unknown session token'', t)
      | Some al0 \<Rightarrow>
          (let al = al0\<lparr>last_activity_unix_s := now\<rparr>
           in case choose_leg al src of
                None \<Rightarrow> (fail PermissionDenied ''session legs already bound to other peers'', AList.update tok al t)
              | Some leg \<Rightarrow>
                  (let al' = (case leg of LegA \<Rightarrow> al\<lparr>leg_a := touch_leg src n (leg_a al)\<rparr>
                                        | LegB \<Rightarrow> al\<lparr>leg_b := touch_leg src n (leg_b al)\<rparr>);
                       peer = (case leg of LegA \<Rightarrow> leg_b al' | LegB \<Rightarrow> leg_a al')
                   in (if \<not> bound peer then fail Again ''peer leg not yet bound'' else good (leg_endpoint peer),
                       AList.update tok al' t))))"

definition expire_allocations :: "int \<Rightarrow> int \<Rightarrow> allocation_table \<Rightarrow> nat \<times> allocation_table" where
  "expire_allocations now ttl t =
     (let t' = keep (\<lambda>al. \<not> (now - last_activity_unix_s al > ttl)) t in (length t - length t', t'))"

definition table_size :: "allocation_table \<Rightarrow> nat" where
  "table_size t = length t"

section \<open>The forwarding loop\<close>

definition kDefaultRelayPort :: u16 where "kDefaultRelayPort = 21117"
definition kSessionTtlSeconds :: int where "kSessionTtlSeconds = 30"
definition kExpirySweepSeconds :: int where "kExpirySweepSeconds = 10"

definition parse_datagram :: "byte list \<Rightarrow> (session_token \<times> byte list) option" where
  "parse_datagram d =
     (if length d < 1 then None
      else
        (let tlen = unat (d ! 0)
         in if tlen = 0 \<or> 1 + tlen > length d then None
            else Some (take tlen (drop 1 d), drop (1 + tlen) d)))"

definition wrap_datagram :: "session_token \<Rightarrow> byte list \<Rightarrow> byte list" where
  "wrap_datagram tok payload = of_nat (length tok) # tok @ payload"

record relay =
  table :: allocation_table
  last_sweep :: int

definition relay_start :: "int \<Rightarrow> relay" where
  "relay_start now = \<lparr>table = [], last_sweep = now\<rparr>"

text \<open>What the loop does with what \<open>recv_from\<close> returned, then the periodic sweep.\<close>

definition handle_datagram :: "byte list \<Rightarrow> endpoint \<Rightarrow> int \<Rightarrow> relay \<Rightarrow> (byte list \<times> endpoint) option \<times> relay" where
  "handle_datagram d from now r =
     (case parse_datagram d of
        None \<Rightarrow> (None, r)
      | Some (tok, payload) \<Rightarrow>
          (let (_, t) = allocate tok now (table r);
               (dst, t) = route tok from (length payload) now t
           in (case dst of Inr e \<Rightarrow> Some (wrap_datagram tok payload, e) | Inl _ \<Rightarrow> None, r\<lparr>table := t\<rparr>)))"

definition sweep :: "int \<Rightarrow> relay \<Rightarrow> relay" where
  "sweep now r =
     (if now - last_sweep r \<ge> kExpirySweepSeconds
      then r\<lparr>table := snd (expire_allocations now kSessionTtlSeconds (table r)), last_sweep := now\<rparr>
      else r)"

type_synonym received_datagram = "(byte list \<times> endpoint) result"

definition relay_turn :: "received_datagram \<Rightarrow> int \<Rightarrow> int \<Rightarrow> relay \<Rightarrow> (byte list \<times> endpoint) option \<times> relay" where
  "relay_turn rcv now now2 r =
     (let (out, r') = (case rcv of Inr (d, from) \<Rightarrow> handle_datagram d from now r | Inl _ \<Rightarrow> (None, r))
      in (out, sweep now2 r'))"

text \<open>\<open>run\<close>: without a socket the process ends with status 1; with one the loop never ends, and a
  run of it is any number of turns.\<close>

fun relay_loop :: "(received_datagram \<times> int \<times> int) list \<Rightarrow> relay \<Rightarrow> (byte list \<times> endpoint) option list \<times> relay" where
  "relay_loop [] r = ([], r)"
| "relay_loop ((rcv, now, now2) # is) r =
     (let (out, r') = relay_turn rcv now now2 r; (outs, r'') = relay_loop is r' in (out # outs, r''))"

definition relay_run :: "socket result \<Rightarrow> int \<Rightarrow> (received_datagram \<times> int \<times> int) list \<Rightarrow> int + (byte list \<times> endpoint) option list" where
  "relay_run udp now0 is = (case udp of Inl _ \<Rightarrow> Inl 1 | Inr _ \<Rightarrow> Inr (fst (relay_loop is (relay_start now0))))"

text \<open>\<open>parse_port\<close>: \<open>atoi\<close> is a parameter of the C library on the argument strings.\<close>

fun parse_port_from :: "(string \<Rightarrow> int) \<Rightarrow> string list \<Rightarrow> u16" where
  "parse_port_from atoi (a # b # rest) = (if a = ''--port'' then of_int (atoi b) else parse_port_from atoi (b # rest))"
| "parse_port_from atoi _ = kDefaultRelayPort"

definition parse_port :: "(string \<Rightarrow> int) \<Rightarrow> string list \<Rightarrow> u16" where
  "parse_port atoi argv = parse_port_from atoi (drop 1 argv)"

end
