(* ===== verification/Relay_Proofs.thy ===== *)
theory Relay_Proofs
  imports Relay_Core
begin

text \<open>
  Properties of the relay: the datagram format, the table as an expiring table, the pairing of
  two peers as an abstract machine the loop refines, and what follows for its safety.
\<close>

section \<open>Datagrams\<close>

lemma parse_wrap:
  assumes "tok \<noteq> []" and "length tok \<le> 255"
  shows "parse_datagram (wrap_datagram tok payload) = Some (tok, payload)"
proof -
  have "unat (of_nat (length tok) :: byte) = length tok"
    using assms(2) by (simp add: unsigned_of_nat take_bit_nat_eq_self)
  with assms(1) show ?thesis
    by (simp add: parse_datagram_def wrap_datagram_def)
qed

lemma parse_Some:
  assumes "parse_datagram d = Some (tok, payload)"
  shows "wrap_datagram tok payload = d" and "tok \<noteq> []" and "length tok \<le> 255"
proof -
  from assms obtain b bs where d: "d = b # bs" by (cases d) (auto simp: parse_datagram_def)
  from assms have l: "0 < unat b" "unat b \<le> length bs" and t: "tok = take (unat b) bs" "payload = drop (unat b) bs"
    by (auto simp: d parse_datagram_def split: if_splits)
  then have len: "length tok = unat b" by simp
  with l(1) show "tok \<noteq> []" by auto
  have "unat b < 2 ^ LENGTH(8)" by (rule unsigned_less)
  with len show "length tok \<le> 255" by simp
  from t have "tok @ payload = bs" by simp
  with len show "wrap_datagram tok payload = d" by (simp add: d wrap_datagram_def)
qed

interpretation relay_token: prefix_codec "\<lambda>tok. wrap_datagram tok []" parse_datagram
  "\<lambda>tok. tok \<noteq> [] \<and> length tok \<le> 255"
proof
  fix tok :: session_token and rest
  assume "tok \<noteq> [] \<and> length tok \<le> 255"
  then show "parse_datagram (wrap_datagram tok [] @ rest) = Some (tok, rest)"
    using parse_wrap [of tok rest] by (simp add: wrap_datagram_def)
qed

text \<open>The relay's parser accepts exactly the datagrams that are a token of 1 to 255 bytes wrapped
  with a payload, returns that token and payload, and drops everything else; wrapping what it
  parsed gives the received bytes back.\<close>

theorem parse_datagram_exact:
  "(parse_datagram d = Some (tok, payload)) =
     (d = wrap_datagram tok payload \<and> tok \<noteq> [] \<and> length tok \<le> 255)"
  using parse_wrap [of tok payload] parse_Some [of d tok payload] by blast

section \<open>The table expires\<close>

interpretation allocations: expiring_table map_of expire_allocations table_size last_activity_unix_s keys_ok
proof
  fix t :: allocation_table and now ttl :: int and k
  assume ok: "keys_ok t"
  show "map_of (snd (expire_allocations now ttl t)) k =
      (case map_of t k of None \<Rightarrow> None | Some v \<Rightarrow> if now - last_activity_unix_s v > ttl then None else Some v)"
    using map_of_keep [OF ok] by (simp add: expire_allocations_def split: option.splits)
  show "table_size t = fst (expire_allocations now ttl t) + table_size (snd (expire_allocations now ttl t))"
    by (simp add: expire_allocations_def table_size_def length_keep)
  show "keys_ok (snd (expire_allocations now ttl t))"
    using ok by (simp add: expire_allocations_def)
qed

section \<open>Pairing two peers\<close>

text \<open>The abstract relay: for each token the endpoints learned so far, at most two, and the time of
  the last datagram. A datagram from a known endpoint goes to the other one; the second
  endpoint to speak is learned; a third is refused.\<close>

definition pair :: "endpoint list \<Rightarrow> endpoint \<Rightarrow> endpoint option \<times> endpoint list" where
  "pair ps src =
     (let ps' = (if src \<in> set ps \<or> length ps \<ge> 2 then ps else ps @ [src])
      in (if src \<in> set ps' then find (\<lambda>e. e \<noteq> src) ps' else None, ps'))"

record pairing =
  peers :: "session_token \<Rightarrow> (endpoint list \<times> int) option"
  swept :: int

definition pairing_turn :: "received_datagram \<Rightarrow> int \<Rightarrow> int \<Rightarrow> pairing \<Rightarrow> (byte list \<times> endpoint) option \<times> pairing" where
  "pairing_turn rcv now now2 p =
     (let (out, m) = (case rcv of Inl _ \<Rightarrow> (None, peers p)
          | Inr (d, src) \<Rightarrow> (case parse_datagram d of None \<Rightarrow> (None, peers p)
             | Some (tok, _) \<Rightarrow>
                 (let (dst, ps) = pair (case peers p tok of None \<Rightarrow> [] | Some (ps, _) \<Rightarrow> ps) src
                  in (map_option (Pair d) dst, (peers p)(tok \<mapsto> (ps, now))))))
      in (out, if now2 - swept p \<ge> 10
               then \<lparr>peers = (\<lambda>k. case m k of None \<Rightarrow> None | Some (ps, t) \<Rightarrow> if now2 - t > 30 then None else Some (ps, t)),
                     swept = now2\<rparr>
               else p\<lparr>peers := m\<rparr>))"

fun pairing_loop :: "(received_datagram \<times> int \<times> int) list \<Rightarrow> pairing \<Rightarrow> (byte list \<times> endpoint) option list \<times> pairing" where
  "pairing_loop [] p = ([], p)"
| "pairing_loop ((rcv, now, now2) # is) p =
     (let (out, p') = pairing_turn rcv now now2 p; (outs, p'') = pairing_loop is p' in (out # outs, p''))"

definition legs_of :: "allocation \<Rightarrow> endpoint list" where
  "legs_of al = (if bound (leg_a al) then [leg_endpoint (leg_a al)] else [])
     @ (if bound (leg_b al) then [leg_endpoint (leg_b al)] else [])"

definition abs_relay :: "relay \<Rightarrow> pairing" where
  "abs_relay r = \<lparr>peers = (\<lambda>k. map_option (\<lambda>al. (legs_of al, last_activity_unix_s al)) (map_of (table r) k)),
     swept = last_sweep r\<rparr>"

definition alloc_ok :: "allocation \<Rightarrow> bool" where
  "alloc_ok al \<longleftrightarrow> (bound (leg_b al) \<longrightarrow> bound (leg_a al)) \<and> distinct (legs_of al)"

definition relay_ok :: "relay \<Rightarrow> bool" where
  "relay_ok r \<longleftrightarrow> keys_ok (table r) \<and> (\<forall>k al. map_of (table r) k = Some al \<longrightarrow> alloc_ok al)"

lemma alloc_ok_default: "alloc_ok default_allocation" "legs_of default_allocation = []"
  by (simp_all add: alloc_ok_def legs_of_def default_allocation_def default_leg_def)

lemma alloc_stamps [simp]:
  "legs_of (al\<lparr>token := tok\<rparr>) = legs_of al" "alloc_ok (al\<lparr>token := tok\<rparr>) = alloc_ok al"
  "legs_of (al\<lparr>created_unix_s := c\<rparr>) = legs_of al" "alloc_ok (al\<lparr>created_unix_s := c\<rparr>) = alloc_ok al"
  "legs_of (al\<lparr>last_activity_unix_s := n\<rparr>) = legs_of al"
  "alloc_ok (al\<lparr>last_activity_unix_s := n\<rparr>) = alloc_ok al"
  "choose_leg (al\<lparr>last_activity_unix_s := n\<rparr>) src = choose_leg al src"
  by (simp_all add: legs_of_def alloc_ok_def choose_leg_def)

text \<open>Choosing and touching a leg is the abstract pairing.\<close>

definition touched :: "leg_name \<Rightarrow> endpoint \<Rightarrow> nat \<Rightarrow> allocation \<Rightarrow> allocation" where
  "touched leg src n al = (case leg of LegA \<Rightarrow> al\<lparr>leg_a := touch_leg src n (leg_a al)\<rparr>
     | LegB \<Rightarrow> al\<lparr>leg_b := touch_leg src n (leg_b al)\<rparr>)"

definition other_leg :: "leg_name \<Rightarrow> allocation \<Rightarrow> leg" where
  "other_leg leg al = (case leg of LegA \<Rightarrow> leg_b al | LegB \<Rightarrow> leg_a al)"

lemma choose_pairs:
  assumes "alloc_ok al"
  shows "case choose_leg al src of
      None \<Rightarrow> pair (legs_of al) src = (None, legs_of al)
    | Some leg \<Rightarrow> pair (legs_of al) src =
        (if bound (other_leg leg (touched leg src n al)) then Some (leg_endpoint (other_leg leg (touched leg src n al))) else None,
         legs_of (touched leg src n al))
        \<and> alloc_ok (touched leg src n al)"
  using assms
  by (cases "bound (leg_a al)"; cases "bound (leg_b al)")
    (auto simp: alloc_ok_def legs_of_def choose_leg_def touched_def other_leg_def touch_leg_def pair_def)

lemma route_pairs:
  assumes "map_of t tok = Some al" and "alloc_ok al"
  obtains al' where "snd (route tok src n now t) = AList.update tok al' t"
    and "alloc_ok al'" and "last_activity_unix_s al' = now"
    and "pair (legs_of al) src =
       ((case fst (route tok src n now t) of Inr e \<Rightarrow> Some e | Inl _ \<Rightarrow> None), legs_of al')"
proof (cases "choose_leg al src")
  case None
  with choose_pairs [OF assms(2), of src n] that [of "al\<lparr>last_activity_unix_s := now\<rparr>"] assms
  show ?thesis by (simp add: route_def fail_def)
next
  case (Some leg)
  let ?al = "al\<lparr>last_activity_unix_s := now\<rparr>"
  have ok: "alloc_ok ?al" using assms(2) by simp
  have "pair (legs_of ?al) src =
        (if bound (other_leg leg (touched leg src n ?al)) then Some (leg_endpoint (other_leg leg (touched leg src n ?al))) else None,
         legs_of (touched leg src n ?al)) \<and> alloc_ok (touched leg src n ?al)"
    using choose_pairs [OF ok, of src n] Some by simp
  moreover have "last_activity_unix_s (touched leg src n ?al) = now"
    by (cases leg) (simp_all add: touched_def)
  moreover have "snd (route tok src n now t) = AList.update tok (touched leg src n ?al) t"
    and "fst (route tok src n now t) = (if bound (other_leg leg (touched leg src n ?al))
      then good (leg_endpoint (other_leg leg (touched leg src n ?al))) else fail Again ''peer leg not yet bound'')"
    using assms(1) Some by (cases leg; simp add: route_def touched_def other_leg_def)+
  ultimately show ?thesis
    using that [of "touched leg src n ?al"] by (simp add: good_def fail_def)
qed

lemma allocate_lookup:
  assumes "tok \<noteq> []" and "\<And>al. map_of t tok = Some al \<Longrightarrow> alloc_ok al"
  obtains al where "snd (allocate tok now t) = AList.update tok al t" and "alloc_ok al"
    and "legs_of al = (case map_of t tok of None \<Rightarrow> [] | Some al \<Rightarrow> legs_of al)"
proof
  let ?al0 = "case map_of t tok of Some al \<Rightarrow> al | None \<Rightarrow> default_allocation"
  let ?al = "if created_unix_s ?al0 = 0 then ?al0\<lparr>token := tok, created_unix_s := now, last_activity_unix_s := now\<rparr> else ?al0"
  show "snd (allocate tok now t) = AList.update tok ?al t"
    using assms(1) by (simp add: allocate_def)
  have "alloc_ok ?al0" and "legs_of ?al0 = (case map_of t tok of None \<Rightarrow> [] | Some al \<Rightarrow> legs_of al)"
    using assms(2) by (auto simp: alloc_ok_default split: option.splits)
  then show "alloc_ok ?al" and "legs_of ?al = (case map_of t tok of None \<Rightarrow> [] | Some al \<Rightarrow> legs_of al)"
    by simp_all
qed

lemma handle_datagram_abs:
  assumes "relay_ok r"
  shows "relay_ok (snd (handle_datagram d src now r))"
    and "fst (handle_datagram d src now r) = (case parse_datagram d of None \<Rightarrow> None | Some (tok, _) \<Rightarrow>
       map_option (Pair d) (fst (pair (case peers (abs_relay r) tok of None \<Rightarrow> [] | Some (ps, _) \<Rightarrow> ps) src)))"
    and "abs_relay (snd (handle_datagram d src now r)) = (case parse_datagram d of None \<Rightarrow> abs_relay r | Some (tok, _) \<Rightarrow>
       (abs_relay r)\<lparr>peers := (peers (abs_relay r))(tok \<mapsto>
          (snd (pair (case peers (abs_relay r) tok of None \<Rightarrow> [] | Some (ps, _) \<Rightarrow> ps) src), now))\<rparr>)"
proof -
  have keys: "keys_ok (table r)" and oks: "\<And>k al. map_of (table r) k = Some al \<Longrightarrow> alloc_ok al"
    using assms by (auto simp: relay_ok_def)
  have "relay_ok (snd (handle_datagram d src now r))
    \<and> fst (handle_datagram d src now r) = (case parse_datagram d of None \<Rightarrow> None | Some (tok, _) \<Rightarrow>
       map_option (Pair d) (fst (pair (case peers (abs_relay r) tok of None \<Rightarrow> [] | Some (ps, _) \<Rightarrow> ps) src)))
    \<and> abs_relay (snd (handle_datagram d src now r)) = (case parse_datagram d of None \<Rightarrow> abs_relay r | Some (tok, _) \<Rightarrow>
       (abs_relay r)\<lparr>peers := (peers (abs_relay r))(tok \<mapsto>
          (snd (pair (case peers (abs_relay r) tok of None \<Rightarrow> [] | Some (ps, _) \<Rightarrow> ps) src), now))\<rparr>)"
  proof (cases "parse_datagram d")
    case None
    with assms show ?thesis by (simp add: handle_datagram_def)
  next
    case (Some tp)
    obtain tok payload where tp: "tp = (tok, payload)" by (cases tp)
    have p: "parse_datagram d = Some (tok, payload)" using Some tp by simp
    note wrap = parse_Some [OF p]
    obtain al where al: "snd (allocate tok now (table r)) = AList.update tok al (table r)" "alloc_ok al"
      and legs: "legs_of al = (case map_of (table r) tok of None \<Rightarrow> [] | Some al \<Rightarrow> legs_of al)"
      using allocate_lookup [OF wrap(2), of "table r" now] oks by blast
    let ?t = "AList.update tok al (table r)"
    have "map_of ?t tok = Some al" by simp
    from route_pairs [OF this al(2), of src "length payload" now] obtain al' where
      al': "snd (route tok src (length payload) now ?t) = AList.update tok al' ?t" "alloc_ok al'"
        "last_activity_unix_s al' = now"
        "pair (legs_of al) src = ((case fst (route tok src (length payload) now ?t) of Inr e \<Rightarrow> Some e | Inl _ \<Rightarrow> None), legs_of al')"
      by blast
    have ps: "(case peers (abs_relay r) tok of None \<Rightarrow> [] | Some (ps, _) \<Rightarrow> ps) = legs_of al"
      using legs by (simp add: abs_relay_def split: option.splits)
    have pr: "pair (case peers (abs_relay r) tok of None \<Rightarrow> [] | Some (ps, _) \<Rightarrow> ps) src =
        ((case fst (route tok src (length payload) now ?t) of Inr e \<Rightarrow> Some e | Inl _ \<Rightarrow> None), legs_of al')"
      unfolding ps by (rule al'(4))
    have h: "handle_datagram d src now r =
        (case fst (route tok src (length payload) now ?t) of Inr e \<Rightarrow> Some (d, e) | Inl _ \<Rightarrow> None,
         r\<lparr>table := AList.update tok al' ?t\<rparr>)"
      using al'(1) al(1) by (simp add: handle_datagram_def p wrap(1) split_beta split: sum.split)
    have "relay_ok (r\<lparr>table := AList.update tok al' ?t\<rparr>)"
      using keys oks al'(2) by (auto simp: relay_ok_def split: if_splits)
    moreover have "abs_relay (r\<lparr>table := AList.update tok al' ?t\<rparr>) =
        (abs_relay r)\<lparr>peers := (peers (abs_relay r))(tok \<mapsto> (legs_of al', now))\<rparr>"
      using al'(3) by (simp add: abs_relay_def fun_eq_iff)
    ultimately show ?thesis
      by (simp add: p h pr split: sum.split)
  qed
  then show "relay_ok (snd (handle_datagram d src now r))"
    and "fst (handle_datagram d src now r) = (case parse_datagram d of None \<Rightarrow> None | Some (tok, _) \<Rightarrow>
       map_option (Pair d) (fst (pair (case peers (abs_relay r) tok of None \<Rightarrow> [] | Some (ps, _) \<Rightarrow> ps) src)))"
    and "abs_relay (snd (handle_datagram d src now r)) = (case parse_datagram d of None \<Rightarrow> abs_relay r | Some (tok, _) \<Rightarrow>
       (abs_relay r)\<lparr>peers := (peers (abs_relay r))(tok \<mapsto>
          (snd (pair (case peers (abs_relay r) tok of None \<Rightarrow> [] | Some (ps, _) \<Rightarrow> ps) src), now))\<rparr>)"
    by blast+
qed

lemma sweep_abs:
  assumes "relay_ok r"
  shows "relay_ok (sweep now r)"
    and "abs_relay (sweep now r) =
      (if now - swept (abs_relay r) \<ge> 10
       then \<lparr>peers = (\<lambda>k. case peers (abs_relay r) k of None \<Rightarrow> None | Some (ps, t) \<Rightarrow> if now - t > 30 then None else Some (ps, t)),
             swept = now\<rparr>
       else abs_relay r)"
proof -
  have keys: "keys_ok (table r)" using assms by (simp add: relay_ok_def)
  note get = allocations.sweep_get [OF keys, of now 30] and ok = allocations.sweep_ok [OF keys, of now 30]
  show "relay_ok (sweep now r)"
  proof (cases "now - last_sweep r \<ge> kExpirySweepSeconds")
    case True
    then have "table (sweep now r) = snd (expire_allocations now 30 (table r))"
      by (simp add: sweep_def kSessionTtlSeconds_def)
    then show ?thesis
      unfolding relay_ok_def using assms ok allocations.sweep_invents_nothing [OF keys]
      unfolding relay_ok_def by metis
  qed (use assms in \<open>simp add: sweep_def\<close>)
  show "abs_relay (sweep now r) =
      (if now - swept (abs_relay r) \<ge> 10
       then \<lparr>peers = (\<lambda>k. case peers (abs_relay r) k of None \<Rightarrow> None | Some (ps, t) \<Rightarrow> if now - t > 30 then None else Some (ps, t)),
             swept = now\<rparr>
       else abs_relay r)"
    using get by (auto simp: abs_relay_def sweep_def kSessionTtlSeconds_def kExpirySweepSeconds_def fun_eq_iff
        split: option.splits)
qed

lemma relay_turn_abs:
  assumes "relay_ok r"
  shows "relay_ok (snd (relay_turn rcv now now2 r))"
    and "fst (relay_turn rcv now now2 r) = fst (pairing_turn rcv now now2 (abs_relay r))"
    and "abs_relay (snd (relay_turn rcv now now2 r)) = snd (pairing_turn rcv now now2 (abs_relay r))"
proof -
  define r' where "r' = (case rcv of Inr (d, src) \<Rightarrow> snd (handle_datagram d src now r) | Inl _ \<Rightarrow> r)"
  have turn: "snd (relay_turn rcv now now2 r) = sweep now2 r'"
    by (simp add: relay_turn_def r'_def split_beta split: sum.split)
  have ok: "relay_ok r'"
    using assms handle_datagram_abs(1) [OF assms] by (auto simp: r'_def split: sum.splits)
  show "relay_ok (snd (relay_turn rcv now now2 r))"
    unfolding turn by (rule sweep_abs(1) [OF ok])
  show "fst (relay_turn rcv now now2 r) = fst (pairing_turn rcv now now2 (abs_relay r))"
    using handle_datagram_abs(2) [OF assms]
    by (auto simp: relay_turn_def pairing_turn_def split_beta split: sum.split option.split)
  have swept: "swept (abs_relay r') = swept (abs_relay r)"
    using handle_datagram_abs(3) [OF assms] by (auto simp: r'_def split: sum.split option.split)
  show "abs_relay (snd (relay_turn rcv now now2 r)) = snd (pairing_turn rcv now now2 (abs_relay r))"
    unfolding turn sweep_abs(2) [OF ok] swept
    using handle_datagram_abs(3) [OF assms]
    by (auto simp: pairing_turn_def r'_def split_beta fun_eq_iff split: sum.split option.split)
qed

lemma relay_loop_abs:
  "relay_ok r \<Longrightarrow> relay_ok (snd (relay_loop is r))
     \<and> fst (relay_loop is r) = fst (pairing_loop is (abs_relay r))
     \<and> abs_relay (snd (relay_loop is r)) = snd (pairing_loop is (abs_relay r))"
proof (induction "is" arbitrary: r)
  case (Cons i "is")
  obtain rcv now now2 where i: "i = (rcv, now, now2)" by (cases i)
  note turn = relay_turn_abs [OF Cons.prems, of rcv now now2]
  from Cons.IH [OF turn(1)] turn show ?case
    by (simp add: i split_beta)
qed simp

lemma relay_start_ok [simp]: "relay_ok (relay_start t)" "abs_relay (relay_start t) = \<lparr>peers = (\<lambda>_. None), swept = t\<rparr>"
  by (simp_all add: relay_ok_def relay_start_def abs_relay_def)

text \<open>C2: The relay is the abstract pairing machine: over any sequence of received datagrams, receive
  errors and clock readings it sends exactly what that machine sends. Per token two endpoints
  are learned in the order they speak, each one's datagrams go to the other byte for byte, a
  third party is refused, and a token idle for more than 30 seconds is forgotten at the next
  sweep, which runs at most every 10 seconds.\<close>

theorem relay_refines_pairing:
  "fst (relay_loop is (relay_start t0)) = fst (pairing_loop is \<lparr>peers = (\<lambda>_. None), swept = t0\<rparr>)"
  using relay_loop_abs [of "relay_start t0" "is"] by simp

definition spoke :: "(received_datagram \<times> int \<times> int) list \<Rightarrow> session_token \<Rightarrow> endpoint \<Rightarrow> bool" where
  "spoke is tok e \<longleftrightarrow> (\<exists>d payload. Inr (d, e) \<in> fst ` set is \<and> parse_datagram d = Some (tok, payload))"

definition learned :: "(received_datagram \<times> int \<times> int) list \<Rightarrow> pairing \<Rightarrow> bool" where
  "learned is p \<longleftrightarrow> (\<forall>tok ps t. peers p tok = Some (ps, t) \<longrightarrow> (\<forall>e \<in> set ps. spoke is tok e))"

lemma spoke_snoc: "spoke is tok e \<Longrightarrow> spoke (is @ js) tok e"
  by (auto simp: spoke_def)

lemma spoke_last: "parse_datagram d = Some (tok, payload) \<Longrightarrow> spoke (is @ [(Inr (d, src), n, m)]) tok src"
  by (auto simp: spoke_def)

lemma pair_set: "set (snd (pair ps src)) \<subseteq> insert src (set ps)"
  by (auto simp: pair_def)

lemma pair_fst: "fst (pair ps src) = Some e \<Longrightarrow> e \<in> set ps \<and> e \<noteq> src"
  by (auto simp: pair_def find_Some_iff in_set_conv_nth nth_append split: if_splits)

lemma learned_turn:
  assumes "learned is p"
  shows "learned (is @ [(rcv, now, now2)]) (snd (pairing_turn rcv now now2 p))"
proof -
  define m where "m = (case rcv of Inl _ \<Rightarrow> peers p | Inr (d, src) \<Rightarrow> (case parse_datagram d of None \<Rightarrow> peers p
     | Some (tok, _) \<Rightarrow> (peers p)(tok \<mapsto> (snd (pair (case peers p tok of None \<Rightarrow> [] | Some (ps, _) \<Rightarrow> ps) src), now))))"
  have m: "spoke (is @ [(rcv, now, now2)]) tok e" if mt: "m tok = Some (ps, t)" and el: "e \<in> set ps" for tok ps t e
  proof (cases "peers p tok = Some (ps, t)")
    case True
    with assms el show ?thesis by (auto simp: learned_def intro: spoke_snoc)
  next
    case False
    then obtain d src payload where rcv: "rcv = Inr (d, src)" "parse_datagram d = Some (tok, payload)"
      and ps: "ps = snd (pair (case peers p tok of None \<Rightarrow> [] | Some (ps, _) \<Rightarrow> ps) src)"
      using mt by (auto simp: m_def split: sum.splits option.splits if_splits)
    from el ps pair_set have "e = src \<or> e \<in> set (case peers p tok of None \<Rightarrow> [] | Some (ps, _) \<Rightarrow> ps)" by fast
    then show ?thesis
    proof
      assume "e = src"
      with rcv show ?thesis by (simp add: spoke_last)
    next
      assume "e \<in> set (case peers p tok of None \<Rightarrow> [] | Some (ps, _) \<Rightarrow> ps)"
      with assms have "spoke is tok e" by (cases "peers p tok"; force simp: learned_def)
      then show ?thesis by (rule spoke_snoc)
    qed
  qed
  have "peers (snd (pairing_turn rcv now now2 p)) tok = Some (ps, t) \<Longrightarrow> m tok = Some (ps, t)" for tok ps t
    by (auto simp: pairing_turn_def m_def split_beta split: sum.splits option.splits if_splits)
  with m show ?thesis unfolding learned_def by blast
qed

lemma pairing_loop_snoc:
  "snd (pairing_loop (is @ [(rcv, now, now2)]) p) = snd (pairing_turn rcv now now2 (snd (pairing_loop is p)))"
proof (induction "is" arbitrary: p)
  case (Cons i "is")
  then show ?case by (cases i) (simp add: split_beta)
qed (simp add: split_beta)

lemma learned_loop: "learned is (snd (pairing_loop is \<lparr>peers = (\<lambda>_. None), swept = t0\<rparr>))"
proof (induction "is" rule: rev_induct)
  case Nil
  then show ?case by (simp add: learned_def)
next
  case (snoc i "is")
  then show ?case by (cases i) (simp add: pairing_loop_snoc learned_turn)
qed

text \<open>C7: The relay is no open reflector and leaks nothing across sessions: whenever it sends a datagram,
  that is the one just received, byte for byte, it does not go back to its sender, and its
  destination has itself already sent a well-formed datagram with the same token.\<close>

theorem relay_forwards_only_to_partner:
  assumes "fst (relay_turn rcv now now2 (snd (relay_loop is (relay_start t0)))) = Some (d, e)"
  shows "\<exists>src tok payload. rcv = Inr (d, src) \<and> parse_datagram d = Some (tok, payload) \<and> e \<noteq> src \<and> spoke is tok e"
proof -
  let ?p = "snd (pairing_loop is \<lparr>peers = (\<lambda>_. None), swept = t0\<rparr>)"
  have ok: "relay_ok (snd (relay_loop is (relay_start t0)))" and p: "abs_relay (snd (relay_loop is (relay_start t0))) = ?p"
    using relay_loop_abs [of "relay_start t0" "is"] by simp_all
  from assms have "fst (pairing_turn rcv now now2 ?p) = Some (d, e)"
    using relay_turn_abs(2) [OF ok] p by simp
  then obtain src tok payload where rcv: "rcv = Inr (d, src)" "parse_datagram d = Some (tok, payload)"
    and e: "fst (pair (case peers ?p tok of None \<Rightarrow> [] | Some (ps, _) \<Rightarrow> ps) src) = Some e"
    by (auto simp: pairing_turn_def split_beta split: sum.splits option.splits)
  from pair_fst [OF e] learned_loop [of "is" t0] have "e \<noteq> src" and "spoke is tok e"
    by (cases "peers ?p tok"; force simp: learned_def)+
  with rcv show ?thesis by blast
qed

definition ep1 :: endpoint where "ep1 = \<lparr>host = ''10.0.0.1'', port = 1000, ipv6 = False\<rparr>"
definition ep2 :: endpoint where "ep2 = \<lparr>host = ''10.0.0.2'', port = 2000, ipv6 = False\<rparr>"
definition ep3 :: endpoint where "ep3 = \<lparr>host = ''10.0.0.3'', port = 3000, ipv6 = False\<rparr>"

lemma ep_distinct [simp]: "ep1 \<noteq> ep2" "ep2 \<noteq> ep1" "ep1 \<noteq> ep3" "ep3 \<noteq> ep1" "ep2 \<noteq> ep3" "ep3 \<noteq> ep2"
  by (simp_all add: ep1_def ep2_def ep3_def)

lemmas relay_eval = relay_start_def relay_turn_def handle_datagram_def parse_datagram_def wrap_datagram_def allocate_def route_def
  choose_leg_def touch_leg_def default_allocation_def default_leg_def sweep_def kExpirySweepSeconds_def good_def fail_def

theorem relay_forwards_only_to_partner_witness:
  "fst (relay_turn (Inr ([1, 7, 42], ep2)) 101 101 (snd (relay_loop [(Inr ([1, 7, 9], ep1), 100, 100)] (relay_start 100)))) = Some ([1, 7, 42], ep1)
   \<and> spoke [(Inr ([1, 7, 9], ep1), 100, 100)] [7] ep1"
proof -
  have s: "fst (relay_turn (Inr ([1, 7, 42], ep2)) 101 101 (snd (relay_loop [(Inr ([1, 7, 9], ep1), 100, 100)] (relay_start 100)))) = Some ([1, 7, 42], ep1)"
    by (simp add: relay_eval)
  from relay_forwards_only_to_partner [OF s] s show ?thesis
    by (auto simp: parse_datagram_def)
qed

section \<open>The table's operations\<close>

text \<open>route, branch by branch: an unknown token changes nothing; otherwise the last activity is
  always refreshed, a source that is neither leg of a fully bound session is refused with the
  legs untouched, a known or newly learned source has its bytes counted on its own leg, and
  the answer is the other leg's endpoint, or Again while that leg has not spoken.\<close>

theorem route_cases:
  assumes "map_of t tok = Some al" and "alloc_ok al"
  shows "(let (r, t') = route tok src n now t; al' = the (map_of t' tok)
    in last_activity_unix_s al' = now
     \<and> (\<forall>k. k = tok \<or> map_of t' k = map_of t k)
     \<and> (if fully_bound al \<and> src \<notin> set (legs_of al)
        then r = fail PermissionDenied ''session legs already bound to other peers'' \<and> legs_of al' = legs_of al
        else legs_of al' = (if src \<in> set (legs_of al) then legs_of al else legs_of al @ [src])
           \<and> r = (case filter (\<lambda>e. e \<noteq> src) (legs_of al) of
                    [] \<Rightarrow> fail Again ''peer leg not yet bound'' | e # _ \<Rightarrow> good e)))
    \<and> fst (route tok' src n now (filter (\<lambda>kv. fst kv \<noteq> tok') t)) = fail InvalidArgument ''unknown session token''"
proof -
  have "map_of (filter (\<lambda>kv. fst kv \<noteq> tok') t) tok' = None"
    by (auto simp: map_of_eq_None_iff)
  then have unknown: "fst (route tok' src n now (filter (\<lambda>kv. fst kv \<noteq> tok') t)) = fail InvalidArgument ''unknown session token''"
    by (simp add: route_def)
  show ?thesis
    using assms unknown
    by (cases "bound (leg_a al)"; cases "bound (leg_b al)")
      (auto simp: route_def choose_leg_def touch_leg_def legs_of_def alloc_ok_def fully_bound_def)
qed

definition demo_table :: allocation_table where
  "demo_table = [([7], default_allocation\<lparr>leg_a := \<lparr>leg_endpoint = ep1, bound = True, bytes_forwarded = 0\<rparr>\<rparr>)]"

theorem route_cases_witness:
  "fst (route [7] ep2 10 5 demo_table) = good ep1"
  using route_cases [of demo_table "[7]" "default_allocation\<lparr>leg_a := \<lparr>leg_endpoint = ep1, bound = True, bytes_forwarded = 0\<rparr>\<rparr>" ep2 10 5]
  by (simp add: demo_table_def alloc_ok_def legs_of_def default_allocation_def default_leg_def fully_bound_def split_beta)

text \<open>A sweep removes exactly the sessions idle for longer than the ttl, reports how many, keeps the
  rest unchanged, and sweeping again at the same or a later time never keeps one that a single
  sweep would drop.\<close>

theorem expire_exact:
  assumes "keys_ok t" and "now \<le> now'"
  shows "map_of (snd (expire_allocations now ttl t)) k =
      (case map_of t k of None \<Rightarrow> None | Some al \<Rightarrow> if now - last_activity_unix_s al > ttl then None else Some al)
    \<and> length t = fst (expire_allocations now ttl t) + length (snd (expire_allocations now ttl t))
    \<and> map_of (snd (expire_allocations now' ttl (snd (expire_allocations now ttl t)))) k
        = map_of (snd (expire_allocations now' ttl t)) k"
  using allocations.sweep_get [OF assms(1)] allocations.sweep_count [OF assms(1)] allocations.sweep_sweep [OF assms]
  by (simp add: table_size_def)

theorem expire_exact_witness:
  "map_of (snd (expire_allocations 31 30 demo_table)) [7] = None \<and> map_of (snd (expire_allocations 30 30 demo_table)) [7] \<noteq> None"
  using expire_exact [of demo_table 31 31 30 "[7]"] expire_exact [of demo_table 30 30 30 "[7]"]
  by (simp add: demo_table_def default_allocation_def)

section \<open>A peer that changes its address\<close>

lemma abs_binding:
  "peers (abs_relay r) tok = Some (es, t) \<Longrightarrow> map_option legs_of (map_of (table r) tok) = Some es"
  by (auto simp: abs_relay_def)

definition only_from :: "session_token \<Rightarrow> endpoint \<Rightarrow> received_datagram \<times> int \<times> int \<Rightarrow> bool" where
  "only_from tok src i \<longleftrightarrow> (case i of (Inr (d, e), now, now2) \<Rightarrow>
     e = src \<and> map_option fst (parse_datagram d) = Some tok \<and> now2 - now \<le> 30 | _ \<Rightarrow> False)"

lemma locked_turn:
  assumes "peers p tok = Some ([x, y], t)" and "src \<noteq> x" and "src \<noteq> y" and "only_from tok src (rcv, now, now2)"
  shows "fst (pairing_turn rcv now now2 p) = None
    \<and> peers (snd (pairing_turn rcv now now2 p)) tok = Some ([x, y], now)"
proof -
  from assms(4) obtain d payload where "rcv = Inr (d, src)" "parse_datagram d = Some (tok, payload)" "now2 - now \<le> 30"
    by (auto simp: only_from_def split: sum.splits)
  with assms(1-3) show ?thesis by (simp add: pairing_turn_def pair_def)
qed

lemma locked_loop:
  "peers p tok = Some ([x, y], t) \<Longrightarrow> src \<noteq> x \<Longrightarrow> src \<noteq> y \<Longrightarrow> list_all (only_from tok src) is \<Longrightarrow>
     fst (pairing_loop is p) = replicate (length is) None
     \<and> (\<exists>t'. peers (snd (pairing_loop is p)) tok = Some ([x, y], t'))"
proof (induction "is" arbitrary: p t)
  case (Cons i "is")
  obtain rcv now now2 where i: "i = (rcv, now, now2)" by (cases i)
  have "only_from tok src (rcv, now, now2)" using Cons.prems(4) i by simp
  from locked_turn [OF Cons.prems(1-3) this] Cons.IH [of _ now] Cons.prems show ?case
    by (simp add: i split_beta)
qed simp

text \<open>Once two addresses are bound to a token, a peer that comes back from a third address is locked
  out for as long as it keeps trying: each of its datagrams is dropped, and since the refused
  datagram still refreshes the session's activity the stale binding never expires.\<close>

theorem rebound_peer_locked_out:
  assumes "map_of (table (snd (relay_loop js (relay_start t0)))) tok = Some al"
    and "legs_of al = [x, y]" and "src \<noteq> x" and "src \<noteq> y" and "list_all (only_from tok src) is"
  shows "fst (relay_loop is (snd (relay_loop js (relay_start t0)))) = replicate (length is) None
    \<and> map_option legs_of (map_of (table (snd (relay_loop is (snd (relay_loop js (relay_start t0)))))) tok) = Some [x, y]"
proof -
  let ?r = "snd (relay_loop js (relay_start t0))"
  have ok: "relay_ok ?r" using relay_loop_abs [of "relay_start t0" js] by simp
  have "peers (abs_relay ?r) tok = Some ([x, y], last_activity_unix_s al)"
    using assms(1,2) by (simp add: abs_relay_def)
  from locked_loop [OF this assms(3-5)] obtain t' where
    l: "fst (pairing_loop is (abs_relay ?r)) = replicate (length is) None"
      "peers (snd (pairing_loop is (abs_relay ?r))) tok = Some ([x, y], t')" by blast
  have "peers (abs_relay (snd (relay_loop is ?r))) tok = Some ([x, y], t')"
    using relay_loop_abs [OF ok, of "is"] l(2) by simp
  then have "map_option legs_of (map_of (table (snd (relay_loop is ?r))) tok) = Some [x, y]"
    by (rule abs_binding)
  with relay_loop_abs [OF ok, of "is"] l(1) show ?thesis by simp
qed

theorem rebound_peer_locked_out_witness:
  "fst (relay_loop [(Inr ([1, 7, 5], ep3), 130, 130), (Inr ([1, 7, 5], ep3), 160, 160)]
      (snd (relay_loop [(Inr ([1, 7, 9], ep1), 100, 100), (Inr ([1, 7, 9], ep2), 101, 101)] (relay_start 100)))) = [None, None]"
proof -
  let ?js = "[(Inr ([1, 7, 9], ep1), 100, 100), (Inr ([1, 7, 9], ep2), 101, 101)] :: (received_datagram \<times> int \<times> int) list"
  have "\<exists>al. map_of (table (snd (relay_loop ?js (relay_start 100)))) [7] = Some al \<and> legs_of al = [ep1, ep2]"
    by (simp add: relay_eval legs_of_def)
  then obtain al where al: "map_of (table (snd (relay_loop ?js (relay_start 100)))) [7] = Some al" "legs_of al = [ep1, ep2]" by blast
  have "list_all (only_from [7] ep3) [(Inr ([1, 7, 5], ep3), 130, 130), (Inr ([1, 7, 5], ep3), 160, 160)]"
    by (simp add: only_from_def parse_datagram_def)
  from rebound_peer_locked_out [OF al _ _ this] show ?thesis by simp
qed

section \<open>A session that is being used\<close>

definition tagged :: "session_token \<Rightarrow> received_datagram \<Rightarrow> bool" where
  "tagged tok rcv = (case rcv of Inr (d, src) \<Rightarrow> map_option fst (parse_datagram d) = Some tok | Inl _ \<Rightarrow> False)"

text \<open>A steady run of a session: its datagrams come from its two endpoints, and when the relay reads
  the clock to sweep, the session's last datagram is never more than 30 seconds old. Everything
  else in the run (other sessions, receive errors, datagrams that do not parse) is arbitrary.\<close>

fun steady :: "session_token \<Rightarrow> endpoint list \<Rightarrow> int \<Rightarrow> (received_datagram \<times> int \<times> int) list \<Rightarrow> bool" where
  "steady tok es seen [] = True"
| "steady tok es seen ((rcv, now, now2) # is) =
     (let seen' = (if tagged tok rcv then now else seen)
      in (if tagged tok rcv then snd (projr rcv) \<in> set es else True) \<and> now2 - seen' \<le> 30 \<and> steady tok es seen' is)"

definition relayed :: "session_token \<Rightarrow> endpoint \<Rightarrow> endpoint \<Rightarrow> received_datagram \<times> int \<times> int \<Rightarrow> (byte list \<times> endpoint) option \<Rightarrow> bool" where
  "relayed tok a b i out = (case i of (rcv, now, now2) \<Rightarrow>
     (if tagged tok rcv
      then case rcv of Inr (d, src) \<Rightarrow> out = Some (d, if src = a then b else a) | Inl _ \<Rightarrow> False
      else True))"

lemma tagged_cases:
  assumes "tagged tok rcv"
  obtains d src payload where "rcv = Inr (d, src)" "parse_datagram d = Some (tok, payload)"
  using assms by (auto simp: tagged_def split: sum.splits)

lemma steady_turn:
  assumes "peers p tok = Some ([a, b], t)" and "a \<noteq> b" and "steady tok [a, b] t ((rcv, now, now2) # is)"
  shows "relayed tok a b (rcv, now, now2) (fst (pairing_turn rcv now now2 p))"
    and "\<exists>t'. peers (snd (pairing_turn rcv now now2 p)) tok = Some ([a, b], t') \<and> steady tok [a, b] t' is"
proof -
  have "relayed tok a b (rcv, now, now2) (fst (pairing_turn rcv now now2 p))
    \<and> (\<exists>t'. peers (snd (pairing_turn rcv now now2 p)) tok = Some ([a, b], t') \<and> steady tok [a, b] t' is)"
  proof (cases "tagged tok rcv")
    case True
    then obtain d src payload where rcv: "rcv = Inr (d, src)" "parse_datagram d = Some (tok, payload)"
      by (rule tagged_cases)
    from assms(3) True have "src = a \<or> src = b" "now2 - now \<le> 30" "steady tok [a, b] now is"
      by (simp_all add: rcv(1))
    with assms(1,2) True show ?thesis
      by (auto simp: relayed_def pairing_turn_def pair_def rcv)
  next
    case False
    with assms(3) have "now2 - t \<le> 30" "steady tok [a, b] t is" by simp_all
    moreover have "peers (snd (pairing_turn rcv now now2 p)) tok = Some ([a, b], t)"
      using False assms(1) \<open>now2 - t \<le> 30\<close>
      by (auto simp: tagged_def pairing_turn_def split_beta split: sum.splits option.splits)
    ultimately show ?thesis using False by (auto simp: relayed_def)
  qed
  then show "relayed tok a b (rcv, now, now2) (fst (pairing_turn rcv now now2 p))"
    and "\<exists>t'. peers (snd (pairing_turn rcv now now2 p)) tok = Some ([a, b], t') \<and> steady tok [a, b] t' is"
    by blast+
qed

lemma steady_loop:
  "peers p tok = Some ([a, b], t) \<Longrightarrow> a \<noteq> b \<Longrightarrow> steady tok [a, b] t is \<Longrightarrow>
     list_all2 (relayed tok a b) is (fst (pairing_loop is p))
     \<and> (\<exists>t'. peers (snd (pairing_loop is p)) tok = Some ([a, b], t'))"
proof (induction "is" arbitrary: p t)
  case (Cons i "is")
  obtain rcv now now2 where i: "i = (rcv, now, now2)" by (cases i)
  note turn = steady_turn [OF Cons.prems(1,2), of rcv now now2 "is"]
  have steady: "steady tok [a, b] t ((rcv, now, now2) # is)" using Cons.prems(3) by (simp only: i)
  from turn(2) [OF this] obtain t' where
    "peers (snd (pairing_turn rcv now now2 p)) tok = Some ([a, b], t')" "steady tok [a, b] t' is"
    by blast
  from Cons.IH [OF this(1) Cons.prems(2) this(2)] turn(1) [OF steady] show ?case
    by (simp add: i split_beta)
qed simp

text \<open>C11: A session in use is carried without loss by the relay itself: from any state the relay
  reaches in which both addresses of a token are bound, and for any further input in which that token's
  datagrams come from those two addresses with no gap of more than 30 seconds at a clock
  reading, every one of its datagrams is sent, unchanged, to the other address, whatever else arrives
  in between, and the session is never swept.\<close>

theorem relay_carries_session:
  assumes "map_of (table (snd (relay_loop js (relay_start t0)))) tok = Some al"
    and "legs_of al = [a, b]" and "steady tok [a, b] (last_activity_unix_s al) is"
  shows "list_all2 (relayed tok a b) is (fst (relay_loop is (snd (relay_loop js (relay_start t0)))))
    \<and> map_option legs_of (map_of (table (snd (relay_loop is (snd (relay_loop js (relay_start t0)))))) tok) = Some [a, b]"
proof -
  let ?r = "snd (relay_loop js (relay_start t0))"
  have ok: "relay_ok ?r" using relay_loop_abs [of "relay_start t0" js] by simp
  then have "distinct (legs_of al)" using assms(1) unfolding relay_ok_def alloc_ok_def by blast
  then have "a \<noteq> b" by (simp add: assms(2))
  moreover have "peers (abs_relay ?r) tok = Some ([a, b], last_activity_unix_s al)"
    using assms(1,2) by (simp add: abs_relay_def)
  ultimately have l: "list_all2 (relayed tok a b) is (fst (pairing_loop is (abs_relay ?r)))"
    and "\<exists>t'. peers (snd (pairing_loop is (abs_relay ?r))) tok = Some ([a, b], t')"
    using steady_loop assms(3) by blast+
  then have "map_option legs_of (map_of (table (snd (relay_loop is ?r))) tok) = Some [a, b]"
    using relay_loop_abs [OF ok, of "is"] abs_binding [of "snd (relay_loop is ?r)" tok] by auto
  with relay_loop_abs [OF ok, of "is"] l show ?thesis by simp
qed

theorem relay_carries_session_witness:
  "list_all2 (relayed [7] ep1 ep2)
      [(Inr ([1, 7, 5], ep2), 120, 121), (Inl (error_status Timeout ''x''), 121, 130), (Inr ([1, 8, 5], ep3), 131, 131), (Inr ([1, 7, 6], ep1), 140, 145)]
      (fst (relay_loop [(Inr ([1, 7, 5], ep2), 120, 121), (Inl (error_status Timeout ''x''), 121, 130), (Inr ([1, 8, 5], ep3), 131, 131), (Inr ([1, 7, 6], ep1), 140, 145)]
        (snd (relay_loop [(Inr ([1, 7, 9], ep1), 100, 100), (Inr ([1, 7, 9], ep2), 101, 101)] (relay_start 100)))))"
proof -
  let ?js = "[(Inr ([1, 7, 9], ep1), 100, 100), (Inr ([1, 7, 9], ep2), 101, 101)] :: (received_datagram \<times> int \<times> int) list"
  have "\<exists>al. map_of (table (snd (relay_loop ?js (relay_start 100)))) [7] = Some al \<and> legs_of al = [ep1, ep2] \<and> last_activity_unix_s al = 101"
    by (simp add: relay_eval legs_of_def)
  then obtain al where al: "map_of (table (snd (relay_loop ?js (relay_start 100)))) [7] = Some al" "legs_of al = [ep1, ep2]"
    "last_activity_unix_s al = 101" by blast
  have "steady [7] [ep1, ep2] (last_activity_unix_s al)
    [(Inr ([1, 7, 5], ep2), 120, 121), (Inl (error_status Timeout ''x''), 121, 130), (Inr ([1, 8, 5], ep3), 131, 131), (Inr ([1, 7, 6], ep1), 140, 145)]"
    by (simp add: al(3) tagged_def parse_datagram_def)
  from relay_carries_session [OF al(1,2) this] show ?thesis by blast
qed

end
