(* ===== verification/Rendezvous_Core.thy ===== *)
theory Rendezvous_Core
  imports Net_Core
begin

text \<open>
  \<open>server/rendezvous/\<close>: the control frames (\<open>protocol\<close>), the registry (\<open>registry_store\<close>),
  the signed introducer (\<open>signer\<close>) and the server loop (\<open>main\<close>). Ids and bodies are byte
  strings, times are seconds as unbounded integers. One turn of the loop takes what
  \<open>recv_from\<close> returned and the clock readings as arguments and returns the datagrams it
  sends; diagnostics are left out. The libsodium calls are parameters.
\<close>

type_synonym redesk_id = "byte list"
type_synonym static_pubkey = "byte list"

definition kStaticPubKeyLen :: nat where "kStaticPubKeyLen = 32"

section \<open>Control frames\<close>

datatype control_type = Unknown | Register | RegisterOk | Lookup | LookupOk | LookupFail | BrokerCandidates | Keepalive

definition control_type_code :: "control_type \<Rightarrow> byte" where
  "control_type_code t = (case t of Unknown \<Rightarrow> 0 | Register \<Rightarrow> 1 | RegisterOk \<Rightarrow> 2 | Lookup \<Rightarrow> 3 | LookupOk \<Rightarrow> 4
     | LookupFail \<Rightarrow> 5 | BrokerCandidates \<Rightarrow> 6 | Keepalive \<Rightarrow> 7)"

definition control_types :: "control_type list" where
  "control_types = [Unknown, Register, RegisterOk, Lookup, LookupOk, LookupFail, BrokerCandidates, Keepalive]"

text \<open>\<open>static_cast<MessageType>(t)\<close> for \<open>1 \<le> t \<le> kMaxType\<close>.\<close>

definition control_type_of :: "byte \<Rightarrow> control_type" where
  "control_type_of b = control_types ! unat b"

definition kMaxType :: byte where "kMaxType = control_type_code Keepalive"

record frame =
  ftype :: control_type
  fid :: redesk_id
  fbody :: "byte list"

definition empty_frame :: frame where
  "empty_frame = \<lparr>ftype = Unknown, fid = [], fbody = []\<rparr>"

definition decode_frame :: "byte list \<Rightarrow> frame result" where
  "decode_frame d =
     (let len = length d in
      if \<not> 0 + 1 \<le> len then fail InvalidArgument ''short frame: type''
      else if d ! 0 = 0 \<or> d ! 0 > kMaxType then good empty_frame
      else if \<not> 1 + 1 \<le> len then fail InvalidArgument ''short frame: id_len''
      else
        (let id_len = unat (d ! 1) in
         if \<not> 2 + id_len \<le> len then fail InvalidArgument ''short frame: id''
         else
           (let off = 2 + id_len in
            if \<not> off + 2 \<le> len then fail InvalidArgument ''short frame: body_len''
            else
              (let body_len = unat (d ! off) * 256 + unat (d ! (off + 1)); off = off + 2 in
               if \<not> off + body_len \<le> len then fail InvalidArgument ''short frame: body''
               else good \<lparr>ftype = control_type_of (d ! 0), fid = take id_len (drop 2 d), fbody = take body_len (drop off d)\<rparr>))))"

definition encode_frame :: "frame \<Rightarrow> byte list" where
  "encode_frame f =
     (let id_len = min 255 (length (fid f)); body_len = min 65535 (length (fbody f))
      in [control_type_code (ftype f), of_nat id_len] @ take id_len (fid f)
         @ [of_nat (body_len div 256), of_nat (body_len mod 256)] @ take body_len (fbody f))"

section \<open>The registry\<close>

record peer_record =
  pid :: redesk_id
  pendpoint :: endpoint
  static_key :: static_pubkey
  pcapabilities :: u32
  last_seen_unix_s :: int

definition default_peer_record :: peer_record where
  "default_peer_record = \<lparr>pid = [], pendpoint = default_endpoint, static_key = [], pcapabilities = 0, last_seen_unix_s = 0\<rparr>"

type_synonym registry = "(redesk_id \<times> peer_record) list"

definition kSquatGuardWindowS :: int where "kSquatGuardWindowS = 90"

definition upsert :: "peer_record \<Rightarrow> registry \<Rightarrow> status \<times> registry" where
  "upsert rec reg =
     (if pid rec = [] then (error_status InvalidArgument ''empty REDesk-ID'', reg)
      else if length (static_key rec) \<noteq> kStaticPubKeyLen then
        (error_status InvalidArgument ''static pubkey must be 32 bytes (X25519)'', reg)
      else
        (case map_of reg (pid rec) of
           Some prior \<Rightarrow>
             (let prior_live = last_seen_unix_s rec - last_seen_unix_s prior < kSquatGuardWindowS;
                  key_changed = static_key prior \<noteq> static_key rec
              in if prior_live \<and> key_changed then
                   (error_status PermissionDenied ''REDesk-ID held by a live peer with a different key'', reg)
                 else (success, AList.update (pid rec) rec reg))
         | None \<Rightarrow> (success, AList.update (pid rec) rec reg)))"

definition lookup :: "registry \<Rightarrow> redesk_id \<Rightarrow> peer_record option" where
  "lookup reg i = map_of reg i"

definition expire_records :: "int \<Rightarrow> int \<Rightarrow> registry \<Rightarrow> nat \<times> registry" where
  "expire_records now ttl reg =
     (let reg' = keep (\<lambda>r. \<not> (now - last_seen_unix_s r > ttl)) reg in (length reg - length reg', reg'))"

definition registry_size :: "registry \<Rightarrow> nat" where
  "registry_size reg = length reg"

section \<open>The signed introducer\<close>

definition kEd25519PubKeyLen :: nat where "kEd25519PubKeyLen = 32"
definition kEd25519SigLen :: nat where "kEd25519SigLen = 64"

definition bytes_of :: "string \<Rightarrow> byte list" where
  "bytes_of s = map of_char s"

definition kIntroDomain :: string where "kIntroDomain = ''REDESK-INTRO-v1''"

definition intro_message :: "redesk_id \<Rightarrow> static_pubkey \<Rightarrow> byte list" where
  "intro_message i pk = bytes_of kIntroDomain @ i @ pk"

record signer =
  verify_key :: "byte list"
  sign_peer_key :: "redesk_id \<Rightarrow> static_pubkey \<Rightarrow> byte list result"
  is_secure :: bool

text \<open>The mixing loop of the test signer over message position, hash and signature.\<close>

fun test_mix :: "byte list \<Rightarrow> nat \<Rightarrow> u64 \<Rightarrow> byte list \<Rightarrow> byte list" where
  "test_mix [] i h sig = sig"
| "test_mix (m # ms) i h sig =
     (let h' = (h XOR ucast m) * 1099511628211
      in test_mix ms (Suc i) h' (sig[i mod kEd25519SigLen := (sig ! (i mod kEd25519SigLen)) XOR ucast (h' AND 0xFF)]))"

definition test_sign :: "redesk_id \<Rightarrow> static_pubkey \<Rightarrow> byte list result" where
  "test_sign i pk =
     (if length pk \<noteq> kStaticPubKeyLen then fail InvalidArgument ''static pubkey must be 32 bytes''
      else
        (let sig = test_mix (intro_message i pk) 0 1469598103934665603 (replicate kEd25519SigLen 0)
         in good (bytes_of ''FAKE'' @ drop 4 sig)))"

definition make_insecure_test_signer :: signer where
  "make_insecure_test_signer = \<lparr>verify_key = take kEd25519PubKeyLen (bytes_of ''INSECURE-TEST-ONLY-RENDEZVOUS-KY''),
     sign_peer_key = test_sign, is_secure = False\<rparr>"

text \<open>The libsodium signer: \<open>crypto_sign_detached\<close> on a message is a parameter, \<open>None\<close> when it fails.\<close>

definition libsodium_sign :: "(byte list \<Rightarrow> byte list option) \<Rightarrow> redesk_id \<Rightarrow> static_pubkey \<Rightarrow> byte list result" where
  "libsodium_sign sign_detached i pk =
     (if length pk \<noteq> kStaticPubKeyLen then fail InvalidArgument ''static pubkey must be 32 bytes''
      else case sign_detached (intro_message i pk) of
        None \<Rightarrow> fail Internal ''crypto_sign_detached failed''
      | Some sig \<Rightarrow> good sig)"

text \<open>\<open>make_libsodium_signer\<close>: initialisation, a fresh key pair and the key pair of a seed are
  parameters; a key pair is its public key and its signing function.\<close>

definition make_libsodium_signer ::
  "bool \<Rightarrow> byte list \<times> (byte list \<Rightarrow> byte list option) \<Rightarrow> (byte list \<Rightarrow> byte list \<times> (byte list \<Rightarrow> byte list option)) \<Rightarrow> byte list \<Rightarrow> signer result" where
  "make_libsodium_signer init_ok fresh_pair seed_pair seed =
     (if \<not> init_ok then fail Internal ''sodium_init failed''
      else if seed = [] then
        good \<lparr>verify_key = fst fresh_pair, sign_peer_key = libsodium_sign (snd fresh_pair), is_secure = True\<rparr>
      else if length seed = 32 then
        good \<lparr>verify_key = fst (seed_pair seed), sign_peer_key = libsodium_sign (snd (seed_pair seed)), is_secure = True\<rparr>
      else fail InvalidArgument (''Ed25519 seed must be '' @ to_string 32 @ '' bytes''))"

section \<open>The server\<close>

definition kDefaultControlPort :: u16 where "kDefaultControlPort = 21116"
definition kRegistryTtlSeconds :: int where "kRegistryTtlSeconds = 60"
definition kRendezvousSweepSeconds :: int where "kRendezvousSweepSeconds = 15"

record broker_session =
  caller :: redesk_id
  callee :: redesk_id
  caller_ep :: endpoint
  callee_ep :: endpoint
  bs_created_unix_s :: int

definition default_broker_session :: broker_session where
  "default_broker_session = \<lparr>caller = [], callee = [], caller_ep = default_endpoint, callee_ep = default_endpoint,
     bs_created_unix_s = 0\<rparr>"

record rendezvous =
  registry :: registry
  sessions :: "(string \<times> broker_session) list"
  rz_last_sweep :: int

definition push_lv :: "byte list \<Rightarrow> byte list" where
  "push_lv v = (let n = (if length v > 255 then 255 else length v) in of_nat n # take n v)"

definition encode_attestation :: "static_pubkey \<Rightarrow> byte list \<Rightarrow> byte list \<Rightarrow> byte list" where
  "encode_attestation pk sig vk = push_lv pk @ push_lv sig @ push_lv vk"

type_synonym sent = "(byte list \<times> endpoint) list"

definition send_frame :: "endpoint \<Rightarrow> control_type \<Rightarrow> redesk_id \<Rightarrow> byte list \<Rightarrow> sent" where
  "send_frame to t i body = [(encode_frame \<lparr>ftype = t, fid = i, fbody = body\<rparr>, to)]"

definition handle_register :: "signer \<Rightarrow> int \<Rightarrow> endpoint \<Rightarrow> frame \<Rightarrow> rendezvous \<Rightarrow> sent \<times> rendezvous" where
  "handle_register sg now from f s =
     (if length (fbody f) < kStaticPubKeyLen then ([], s)
      else
        (let rec = default_peer_record\<lparr>pid := fid f, pendpoint := from,
                     static_key := take kStaticPubKeyLen (fbody f), last_seen_unix_s := now\<rparr>;
             (st, reg) = upsert rec (registry s)
         in if \<not> status_ok st then ([], s\<lparr>registry := reg\<rparr>)
            else (case sign_peer_key sg (pid rec) (static_key rec) of
                    Inl _ \<Rightarrow> ([], s\<lparr>registry := reg\<rparr>)
                  | Inr sig \<Rightarrow> (send_frame from RegisterOk (fid f) (encode_attestation (static_key rec) sig (verify_key sg)),
                                s\<lparr>registry := reg\<rparr>))))"

definition handle_keepalive :: "int \<Rightarrow> endpoint \<Rightarrow> frame \<Rightarrow> rendezvous \<Rightarrow> rendezvous" where
  "handle_keepalive now from f s =
     (case lookup (registry s) (fid f) of
        None \<Rightarrow> s
      | Some rec \<Rightarrow> s\<lparr>registry := snd (upsert (rec\<lparr>pendpoint := from, last_seen_unix_s := now\<rparr>) (registry s))\<rparr>)"

definition handle_lookup :: "signer \<Rightarrow> endpoint \<Rightarrow> frame \<Rightarrow> rendezvous \<Rightarrow> sent" where
  "handle_lookup sg from f s =
     (let target = (if fid f \<noteq> [] then fid f else fbody f)
      in case lookup (registry s) target of
           None \<Rightarrow> send_frame from LookupFail target []
         | Some rec \<Rightarrow> (case sign_peer_key sg (pid rec) (static_key rec) of
             Inl _ \<Rightarrow> []
           | Inr sig \<Rightarrow> send_frame from LookupOk target (encode_attestation (static_key rec) sig (verify_key sg))))"

definition broker_token :: "endpoint \<Rightarrow> endpoint \<Rightarrow> string" where
  "broker_token from to = endpoint_display from @ ''|'' @ endpoint_display to"

definition handle_broker :: "int \<Rightarrow> endpoint \<Rightarrow> frame \<Rightarrow> rendezvous \<Rightarrow> sent \<times> rendezvous" where
  "handle_broker now from f s =
     (case lookup (registry s) (fid f) of
        None \<Rightarrow> (send_frame from LookupFail (fid f) [], s)
      | Some target \<Rightarrow>
          (let tok = broker_token from (pendpoint target);
               sess = (case map_of (sessions s) tok of Some b \<Rightarrow> b | None \<Rightarrow> default_broker_session);
               sess' = (if bs_created_unix_s sess = 0
                        then sess\<lparr>caller_ep := from, callee := fid f, callee_ep := pendpoint target, bs_created_unix_s := now\<rparr>
                        else sess)
           in (send_frame (pendpoint target) BrokerCandidates (fid f) (fbody f),
               s\<lparr>sessions := AList.update tok sess' (sessions s)\<rparr>)))"

definition handle_frame :: "signer \<Rightarrow> int \<Rightarrow> endpoint \<Rightarrow> frame \<Rightarrow> rendezvous \<Rightarrow> sent \<times> rendezvous" where
  "handle_frame sg now from f s =
     (case ftype f of
        Register \<Rightarrow> handle_register sg now from f s
      | Keepalive \<Rightarrow> ([], handle_keepalive now from f s)
      | Lookup \<Rightarrow> (handle_lookup sg from f s, s)
      | BrokerCandidates \<Rightarrow> handle_broker now from f s
      | _ \<Rightarrow> ([], s))"

definition rendezvous_sweep :: "int \<Rightarrow> rendezvous \<Rightarrow> rendezvous" where
  "rendezvous_sweep now s =
     (if now - rz_last_sweep s \<ge> kRendezvousSweepSeconds
      then s\<lparr>registry := snd (expire_records now kRegistryTtlSeconds (registry s)),
             sessions := keep (\<lambda>b. \<not> (now - bs_created_unix_s b > kRegistryTtlSeconds)) (sessions s),
             rz_last_sweep := now\<rparr>
      else s)"

type_synonym control_datagram = "(byte list \<times> endpoint) result"

definition rendezvous_turn :: "signer \<Rightarrow> control_datagram \<Rightarrow> int \<Rightarrow> int \<Rightarrow> rendezvous \<Rightarrow> sent \<times> rendezvous" where
  "rendezvous_turn sg rcv now now2 s =
     (let (out, s') = (case rcv of
            Inl _ \<Rightarrow> ([], s)
          | Inr (d, from) \<Rightarrow> (case decode_frame d of
              Inl _ \<Rightarrow> ([], s)
            | Inr f \<Rightarrow> (if ftype f = Unknown then ([], s) else handle_frame sg now from f s)))
      in (out, rendezvous_sweep now2 s'))"

definition rendezvous_start :: "int \<Rightarrow> rendezvous" where
  "rendezvous_start now = \<lparr>registry = [], sessions = [], rz_last_sweep = now\<rparr>"

type_synonym control_input = "control_datagram \<times> int \<times> int"

definition rendezvous_step :: "signer \<Rightarrow> rendezvous \<Rightarrow> control_input \<Rightarrow> rendezvous" where
  "rendezvous_step sg s i = (case i of (rcv, now, now2) \<Rightarrow> snd (rendezvous_turn sg rcv now now2 s))"

text \<open>\<open>run\<close>: no UDP socket ends the process with status 1, a missing TCP socket does not matter; then
  the loop runs with the test signer for as long as datagrams come.\<close>

definition rendezvous_run :: "socket result \<Rightarrow> int \<Rightarrow> control_input list \<Rightarrow> int + rendezvous" where
  "rendezvous_run udp now0 is =
     (case udp of Inl _ \<Rightarrow> Inl 1
      | Inr _ \<Rightarrow> Inr (foldl (rendezvous_step make_insecure_test_signer) (rendezvous_start now0) is))"

fun control_port_from :: "(string \<Rightarrow> int) \<Rightarrow> string list \<Rightarrow> u16" where
  "control_port_from atoi (a # b # rest) = (if a = ''--port'' then of_int (atoi b) else control_port_from atoi (b # rest))"
| "control_port_from atoi _ = kDefaultControlPort"

definition control_port :: "(string \<Rightarrow> int) \<Rightarrow> string list \<Rightarrow> u16" where
  "control_port atoi argv = control_port_from atoi (drop 1 argv)"

end
