(* ===== verification/Rendezvous_Proofs.thy ===== *)
theory Rendezvous_Proofs
  imports Rendezvous_Core
begin

text \<open>
  Properties of the rendezvous server: its frames as a prefix code, the registry as a keyed
  store and an expiring table, the introducer's contract, and what the loop guarantees about
  ids, keys and endpoints.
\<close>

section \<open>Frames\<close>

lemma control_type_of_code: "control_type_of (control_type_code t) = t"
  by (cases t) (simp_all add: control_type_of_def control_type_code_def control_types_def)

lemma control_type_code_range: "control_type_code t \<le> kMaxType \<and> (control_type_code t = 0 \<longleftrightarrow> t = Unknown)"
  by (cases t) (simp_all add: control_type_code_def kMaxType_def)

text \<open>What a frame keeps when it is encoded.\<close>

definition clip_frame :: "frame \<Rightarrow> frame" where
  "clip_frame f = f\<lparr>fid := take 255 (fid f), fbody := take 65535 (fbody f)\<rparr>"

lemma min_take: "take (min k (length xs)) xs = take k xs" "take (min (length xs) k) xs = take k xs"
  by (simp_all add: min_def)

lemma unat_byte: "n < 256 \<Longrightarrow> unat (of_nat n :: byte) = n"
  by (simp add: unsigned_of_nat take_bit_nat_eq_self)

lemma encode_clip: "encode_frame f = [control_type_code (ftype f), of_nat (length (fid (clip_frame f)))] @ fid (clip_frame f)
    @ [of_nat (length (fbody (clip_frame f)) div 256), of_nat (length (fbody (clip_frame f)) mod 256)] @ fbody (clip_frame f)"
  by (simp add: encode_frame_def clip_frame_def min.commute min_take)

lemma decode_layout:
  assumes "t \<noteq> Unknown" and "length i \<le> 255" and "length b \<le> 65535"
  shows "decode_frame ((control_type_code t # of_nat (length i) # i @ of_nat (length b div 256) # of_nat (length b mod 256) # b) @ rest)
    = good \<lparr>ftype = t, fid = i, fbody = b\<rparr>"
proof -
  let ?d = "(control_type_code t # of_nat (length i) # i @ of_nat (length b div 256) # of_nat (length b mod 256) # b) @ rest"
  have il: "unat (of_nat (length i) :: byte) = length i" using assms(2) by (simp add: unat_byte)
  have "length b div 256 < 256" using assms(3) by (simp add: div_less_iff_less_mult)
  then have bl: "unat (of_nat (length b div 256) :: byte) * 256 + unat (of_nat (length b mod 256) :: byte) = length b"
    by (simp add: unat_byte)
  have n0: "?d ! 0 = control_type_code t" and n1: "?d ! 1 = of_nat (length i)" by simp_all
  have n2: "?d ! (2 + length i) = of_nat (length b div 256)" "?d ! (2 + length i + 1) = of_nat (length b mod 256)"
    by (simp_all add: nth_append)
  have d2: "take (length i) (drop 2 ?d) = i" "take (length b) (drop (2 + length i + 2) ?d) = b"
    by (simp_all add: numeral_2_eq_2)
  have len: "length ?d = 4 + length i + length b + length rest" by simp
  show ?thesis
    unfolding decode_frame_def Let_def n0 n1 il n2 bl d2 len
    using assms(1) control_type_code_range [of t] by (simp add: control_type_of_code leD)
qed

lemma decode_encode:
  assumes "ftype f \<noteq> Unknown"
  shows "decode_frame (encode_frame f @ rest) = good (clip_frame f)"
proof -
  have c: "\<lparr>ftype = ftype f, fid = fid (clip_frame f), fbody = fbody (clip_frame f)\<rparr> = clip_frame f"
    by (cases f) (simp add: clip_frame_def)
  have "length (fid (clip_frame f)) \<le> 255" and "length (fbody (clip_frame f)) \<le> 65535"
    by (simp_all add: clip_frame_def)
  from decode_layout [OF assms this, of rest] show ?thesis
    unfolding encode_clip c by simp
qed

text \<open>Reading one frame off the front of a byte string.\<close>

definition frame_of_stream :: "byte list \<Rightarrow> (frame \<times> byte list) option" where
  "frame_of_stream d = (case decode_frame d of Inl _ \<Rightarrow> None
     | Inr f \<Rightarrow> if ftype f = Unknown then None else Some (f, drop (4 + length (fid f) + length (fbody f)) d))"

interpretation control_frames: prefix_codec encode_frame frame_of_stream
  "\<lambda>f. ftype f \<noteq> Unknown \<and> length (fid f) \<le> 255 \<and> length (fbody f) \<le> 65535"
proof
  fix f :: frame and rest
  assume wf: "ftype f \<noteq> Unknown \<and> length (fid f) \<le> 255 \<and> length (fbody f) \<le> 65535"
  then have c: "clip_frame f = f" by (simp add: clip_frame_def)
  have "length (encode_frame f) = 4 + length (fid f) + length (fbody f)"
    unfolding encode_clip c by simp
  with wf decode_encode [of f rest] show "frame_of_stream (encode_frame f @ rest) = Some (f, rest)"
    by (simp add: frame_of_stream_def c good_def)
qed

text \<open>A control frame survives the wire: what decode returns for an encoded frame, whatever bytes
  follow it, is the frame with its id cut to 255 and its body to 65535 bytes, so frames within
  those limits come back equal and two of them never share an encoding.\<close>

theorem control_frame_roundtrip:
  assumes "ftype f \<noteq> Unknown"
  shows "decode_frame (encode_frame f @ rest) = good (clip_frame f)
    \<and> (length (fid f) \<le> 255 \<and> length (fbody f) \<le> 65535 \<longrightarrow> clip_frame f = f)
    \<and> (encode_frame f = encode_frame g \<and> ftype g \<noteq> Unknown \<longrightarrow> clip_frame f = clip_frame g)"
proof -
  have "encode_frame f = encode_frame g \<Longrightarrow> ftype g \<noteq> Unknown \<Longrightarrow> clip_frame f = clip_frame g"
    using decode_encode [of f "[]"] decode_encode [of g "[]"] assms by simp
  then show ?thesis using assms by (auto simp: decode_encode clip_frame_def)
qed

definition demo_control :: frame where
  "demo_control = \<lparr>ftype = Lookup, fid = [49, 50], fbody = [7]\<rparr>"

theorem control_frame_roundtrip_witness:
  "decode_frame (encode_frame demo_control @ [1, 2, 3]) = good demo_control"
  using control_frame_roundtrip [of demo_control "[1, 2, 3]" demo_control]
  by (simp add: demo_control_def clip_frame_def)

lemma control_code_of: "b \<le> kMaxType \<Longrightarrow> control_type_code (control_type_of b) = b"
proof -
  assume "b \<le> kMaxType"
  then have "unat b \<le> 7" by (simp add: kMaxType_def control_type_code_def word_le_nat_alt)
  then have "unat b \<in> {0, 1, 2, 3, 4, 5, 6, 7}" by auto
  then have "unat (control_type_code (control_type_of b)) = unat b"
    by (auto simp: control_type_of_def control_types_def control_type_code_def)
  then show ?thesis by (simp add: word_unat_eq_iff)
qed

text \<open>The pieces of a datagram that decodes.\<close>

lemma decode_parts:
  assumes "decode_frame d = Inr f" and "ftype f \<noteq> Unknown"
  obtains b0 b1 h l rest where "d = b0 # b1 # fid f @ h # l # fbody f @ rest"
    and "length (fid f) = unat b1" and "length (fbody f) = unat h * 256 + unat l"
    and "ftype f = control_type_of b0" and "b0 \<le> kMaxType"
proof -
  have "\<not> length d < 2"
  proof
    assume "length d < 2"
    then have "d = [] \<or> (\<exists>b. d = [b])" by (cases d; cases "tl d") auto
    with assms show False by (auto simp: decode_frame_def fail_def good_def empty_frame_def split: if_splits)
  qed
  then obtain b0 b1 ds where d: "d = b0 # b1 # ds" by (metis One_nat_def Suc_1 length_Suc_conv list.exhaust list.size(3) less_Suc_eq_le not_less zero_less_Suc le_zero_eq less_2_cases_iff)
  from assms have ok: "b0 \<noteq> 0" "b0 \<le> kMaxType" and l1: "unat b1 + 2 \<le> length ds"
    and f: "f = \<lparr>ftype = control_type_of b0, fid = take (unat b1) ds,
        fbody = take (unat (ds ! unat b1) * 256 + unat (ds ! Suc (unat b1))) (drop (unat b1 + 2) ds)\<rparr>"
    and l2: "unat b1 + 2 + (unat (ds ! unat b1) * 256 + unat (ds ! Suc (unat b1))) \<le> length ds"
    by (auto simp: d decode_frame_def fail_def good_def empty_frame_def split: if_splits)
  have "2 \<le> length (drop (unat b1) ds)" using l1 by simp
  then obtain h l es where es: "drop (unat b1) ds = h # l # es"
    by (cases "drop (unat b1) ds"; cases "tl (drop (unat b1) ds)") auto
  have ds: "ds = take (unat b1) ds @ h # l # es" by (metis append_take_drop_id es)
  have len: "length (take (unat b1) ds) = unat b1" using l1 by simp
  have hl: "ds ! unat b1 = h" "ds ! Suc (unat b1) = l" "drop (unat b1 + 2) ds = es"
    using arg_cong [OF es, of "\<lambda>x. x ! 0"] arg_cong [OF es, of "\<lambda>x. x ! 1"] arg_cong [OF es, of "drop 2"] l1
    by (simp_all add: nth_drop add.commute numeral_2_eq_2)
  show ?thesis
  proof (rule that [of b0 b1 h l "drop (unat h * 256 + unat l) es"])
    show "d = b0 # b1 # fid f @ h # l # fbody f @ drop (unat h * 256 + unat l) es"
    proof -
      have "fid f = take (unat b1) ds" and "fbody f = take (unat h * 256 + unat l) es"
        by (simp_all only: f hl frame.simps)
      then have "fid f @ h # l # fbody f @ drop (unat h * 256 + unat l) es = ds"
        using ds by simp
      then show ?thesis by (simp only: d)
    qed
    show "length (fid f) = unat b1" using len by (simp add: f)
    show "length (fbody f) = unat h * 256 + unat l"
      using l2 hl by (simp add: f flip: hl(3))
    show "ftype f = control_type_of b0" by (simp add: f)
    show "b0 \<le> kMaxType" by (rule ok)
  qed
qed

lemma decode_bounds:
  assumes "decode_frame d = Inr f" and "ftype f \<noteq> Unknown"
  shows "take (4 + length (fid f) + length (fbody f)) d = encode_frame f"
    and "length (fid f) \<le> 255" and "length (fbody f) \<le> 65535"
proof -
  from decode_parts [OF assms] obtain b0 b1 h l rest where d: "d = b0 # b1 # fid f @ h # l # fbody f @ rest"
    and i: "length (fid f) = unat b1" and b: "length (fbody f) = unat h * 256 + unat l"
    and t: "ftype f = control_type_of b0" "b0 \<le> kMaxType" by blast
  have bd: "unat b1 < 2 ^ LENGTH(8)" "unat h < 2 ^ LENGTH(8)" "unat l < 2 ^ LENGTH(8)"
    by (rule unsigned_less)+
  then show il: "length (fid f) \<le> 255" and bl: "length (fbody f) \<le> 65535" using i b by simp_all
  have c: "clip_frame f = f" using il bl by (simp add: clip_frame_def)
  have "encode_frame f = b0 # b1 # fid f @ h # l # fbody f"
    unfolding encode_clip c using bd i b t by (simp add: control_code_of)
  then show "take (4 + length (fid f) + length (fbody f)) d = encode_frame f"
  proof -
    let ?e = "b0 # b1 # fid f @ h # l # fbody f"
    have "d = ?e @ rest" and "length ?e = 4 + length (fid f) + length (fbody f)"
      by (simp_all add: d)
    then show ?thesis
      unfolding \<open>encode_frame f = ?e\<close> by (metis append_eq_conv_conj)
  qed
qed

text \<open>A frame of a known type, and the frame of type Unknown.\<close>

lemma decode_known:
  assumes "ftype f \<noteq> Unknown"
  shows "decode_frame d = good f \<longleftrightarrow>
    length (fid f) \<le> 255 \<and> length (fbody f) \<le> 65535 \<and> take (length (encode_frame f)) d = encode_frame f"
proof
  assume dec: "decode_frame d = good f"
  then have inr: "decode_frame d = Inr f" by (simp add: good_def)
  have b: "length (fid f) \<le> 255" "length (fbody f) \<le> 65535"
    "take (4 + length (fid f) + length (fbody f)) d = encode_frame f"
    using decode_bounds [OF inr assms] by simp_all
  moreover have "length (encode_frame f) = 4 + length (fid f) + length (fbody f)"
    using b(1,2) by (simp add: encode_frame_def Let_def)
  ultimately show "length (fid f) \<le> 255 \<and> length (fbody f) \<le> 65535 \<and> take (length (encode_frame f)) d = encode_frame f"
    by simp
next
  assume r: "length (fid f) \<le> 255 \<and> length (fbody f) \<le> 65535 \<and> take (length (encode_frame f)) d = encode_frame f"
  then have "d = encode_frame f @ drop (length (encode_frame f)) d" by (metis append_take_drop_id)
  moreover have "clip_frame f = f" using r by (simp add: clip_frame_def)
  ultimately show "decode_frame d = good f" using decode_encode [OF assms] by metis
qed

lemma decode_unknown:
  assumes "ftype f = Unknown"
  shows "decode_frame d = good f \<longleftrightarrow> f = empty_frame \<and> d \<noteq> [] \<and> (hd d = 0 \<or> hd d > kMaxType)"
proof (cases d)
  case Nil
  then show ?thesis by (simp add: decode_frame_def fail_def good_def)
next
  case (Cons b bs)
  have "control_type_of b \<noteq> Unknown" if "b \<noteq> 0" "\<not> b > kMaxType"
    using that control_code_of [of b] control_type_code_range [of "control_type_of b"] by (metis not_less)
  with Cons assms show ?thesis
    by (auto simp: decode_frame_def fail_def good_def Let_def)
qed

text \<open>C31: Decoding hostile bytes is exact, in both directions: the decoder returns a frame of a known type
  if and only if the bytes start with that frame's encoding and its id and body fit their length
  fields; it returns the empty frame of type Unknown if and only if there is a type byte and it is out of
  range; and everything else (an empty, cut off or short frame) is refused as an invalid argument,
  although the header documents that malformed frames decode to type Unknown.\<close>

theorem decode_frame_exact:
  "(decode_frame d = good f \<longleftrightarrow>
      (if ftype f = Unknown then f = empty_frame \<and> d \<noteq> [] \<and> (hd d = 0 \<or> hd d > kMaxType)
       else length (fid f) \<le> 255 \<and> length (fbody f) \<le> 65535 \<and> take (length (encode_frame f)) d = encode_frame f))
   \<and> (case decode_frame d of Inl s \<Rightarrow> code s = InvalidArgument | Inr _ \<Rightarrow> True)"
proof -
  have "decode_frame d = good f \<longleftrightarrow> f = empty_frame \<and> d \<noteq> [] \<and> (hd d = 0 \<or> hd d > kMaxType)" if "ftype f = Unknown"
    by (rule decode_unknown [OF that])
  moreover have "decode_frame d = good f \<longleftrightarrow>
      length (fid f) \<le> 255 \<and> length (fbody f) \<le> 65535 \<and> take (length (encode_frame f)) d = encode_frame f" if "ftype f \<noteq> Unknown"
    by (rule decode_known [OF that])
  moreover have "case decode_frame d of Inl s \<Rightarrow> code s = InvalidArgument | Inr _ \<Rightarrow> True"
    by (auto simp: decode_frame_def fail_def good_def Let_def)
  ultimately show ?thesis by simp
qed

section \<open>The registry\<close>

interpretation registry_table: expiring_table lookup expire_records registry_size last_seen_unix_s keys_ok
proof
  fix t :: registry and now ttl :: int and k
  assume ok: "keys_ok t"
  show "lookup (snd (expire_records now ttl t)) k =
      (case lookup t k of None \<Rightarrow> None | Some v \<Rightarrow> if now - last_seen_unix_s v > ttl then None else Some v)"
    using map_of_keep [OF ok] by (simp add: expire_records_def lookup_def split: option.splits)
  show "registry_size t = fst (expire_records now ttl t) + registry_size (snd (expire_records now ttl t))"
    by (simp add: expire_records_def registry_size_def length_keep)
  show "keys_ok (snd (expire_records now ttl t))"
    using ok by (simp add: expire_records_def)
qed

text \<open>The guard that decides whether a record may be stored.\<close>

definition may_store :: "peer_record \<Rightarrow> registry \<Rightarrow> bool" where
  "may_store rec reg \<longleftrightarrow> pid rec \<noteq> [] \<and> length (static_key rec) = 32
     \<and> (case lookup reg (pid rec) of None \<Rightarrow> True
        | Some prior \<Rightarrow> static_key prior = static_key rec \<or> last_seen_unix_s rec - last_seen_unix_s prior \<ge> 90)"

lemma upsert_status: "status_ok (fst (upsert rec reg)) \<longleftrightarrow> may_store rec reg"
  by (auto simp: upsert_def may_store_def kStaticPubKeyLen_def kSquatGuardWindowS_def lookup_def split: option.splits)

lemma upsert_registry: "snd (upsert rec reg) = (if may_store rec reg then AList.update (pid rec) rec reg else reg)"
  by (auto simp: upsert_def may_store_def kStaticPubKeyLen_def kSquatGuardWindowS_def lookup_def split: option.splits)

lemma upsert_refused:
  "code (fst (upsert rec reg)) = PermissionDenied \<longleftrightarrow>
     pid rec \<noteq> [] \<and> length (static_key rec) = 32 \<and> \<not> may_store rec reg"
  by (cases "map_of reg (pid rec)"; cases "pid rec = []"; cases "length (static_key rec) = 32")
    (auto simp: upsert_def may_store_def kStaticPubKeyLen_def kSquatGuardWindowS_def lookup_def)

lemma lookup_update [simp]: "lookup (AList.update i r reg) = (lookup reg)(i \<mapsto> r)"
  by (simp add: lookup_def fun_eq_iff)

interpretation registry_store: keyed_store lookup "\<lambda>rec. AList.update (pid rec) rec" pid
  by unfold_locales simp

text \<open>upsert stores a record exactly when its id is not empty, its key has 32 bytes and no record
  with another key was seen for that id less than 90 seconds before; it then replaces that
  id's record alone, and otherwise it changes nothing and reports why.\<close>

theorem upsert_guard:
  "lookup (snd (upsert rec reg)) k = (if k = pid rec \<and> may_store rec reg then Some rec else lookup reg k)
   \<and> status_ok (fst (upsert rec reg)) = may_store rec reg
   \<and> (code (fst (upsert rec reg)) = PermissionDenied) =
       (pid rec \<noteq> [] \<and> length (static_key rec) = 32 \<and> \<not> may_store rec reg)"
  using upsert_refused [of rec reg] by (auto simp: upsert_registry upsert_status)

definition registry_ok :: "registry \<Rightarrow> bool" where
  "registry_ok reg \<longleftrightarrow> keys_ok reg \<and> (\<forall>i r. lookup reg i = Some r \<longrightarrow> pid r = i \<and> i \<noteq> [] \<and> length (static_key r) = 32)"

lemma registry_ok_upsert: "registry_ok reg \<Longrightarrow> registry_ok (snd (upsert rec reg))"
  by (auto simp: registry_ok_def upsert_registry may_store_def)

lemma registry_ok_expire: "registry_ok reg \<Longrightarrow> registry_ok (snd (expire_records now ttl reg))"
  unfolding registry_ok_def using registry_table.sweep_invents_nothing registry_table.sweep_ok by metis

section \<open>The introducer\<close>

text \<open>The contract of a signer: it signs every 32-byte key and refuses every other. The handlers
  rely on nothing else.\<close>

locale introducer =
  fixes sg :: signer
  assumes sign_ok: "length pk = 32 \<Longrightarrow> \<exists>sig. sign_peer_key sg i pk = Inr sig"
    and sign_bad: "length pk \<noteq> 32 \<Longrightarrow> \<exists>s. sign_peer_key sg i pk = Inl s \<and> code s = InvalidArgument"
begin

definition signature :: "redesk_id \<Rightarrow> static_pubkey \<Rightarrow> byte list" where
  "signature i pk = (case sign_peer_key sg i pk of Inr sig \<Rightarrow> sig | Inl _ \<Rightarrow> [])"

definition attestation :: "redesk_id \<Rightarrow> static_pubkey \<Rightarrow> byte list" where
  "attestation i pk = encode_attestation pk (signature i pk) (verify_key sg)"

lemma sign_eq: "length pk = 32 \<Longrightarrow> sign_peer_key sg i pk = Inr (signature i pk)"
  using sign_ok [of pk i] by (auto simp: signature_def)

lemma register_reply:
  "handle_register sg now from f s =
     (let rec = default_peer_record\<lparr>pid := fid f, pendpoint := from, static_key := take 32 (fbody f), last_seen_unix_s := now\<rparr>
      in if 32 \<le> length (fbody f) \<and> may_store rec (registry s)
         then (send_frame from RegisterOk (fid f) (attestation (fid f) (take 32 (fbody f))),
               s\<lparr>registry := AList.update (fid f) rec (registry s)\<rparr>)
         else ([], s))"
  using upsert_status [of _ "registry s"] upsert_registry [of _ "registry s"] sign_eq
  by (auto simp: handle_register_def kStaticPubKeyLen_def attestation_def split_beta default_peer_record_def not_less)

lemma lookup_reply:
  assumes "registry_ok (registry s)"
  shows "handle_lookup sg from f s =
     (let target = (if fid f \<noteq> [] then fid f else fbody f)
      in case lookup (registry s) target of
           None \<Rightarrow> send_frame from LookupFail target []
         | Some r \<Rightarrow> send_frame from LookupOk target (attestation target (static_key r)))"
  using assms sign_eq
  by (auto simp: handle_lookup_def registry_ok_def attestation_def split: option.splits)

end

lemma length_test_mix: "length (test_mix ms i h sig) = length sig"
  by (induction ms i h sig rule: test_mix.induct) simp_all

interpretation test_signer: introducer make_insecure_test_signer
  by unfold_locales (auto simp: make_insecure_test_signer_def test_sign_def good_def fail_def kStaticPubKeyLen_def)

text \<open>What the introducer signs determines the id and the key: no signature made for one id and
  key covers another pair. The default signer answers every 32-byte key with 64 bytes that
  start with FAKE and announces a 32-byte label as its key, so nobody can take it for real.\<close>

theorem introduction_binds_id_and_key:
  assumes "length pk = 32" and "length pk' = 32"
  shows "(intro_message i pk = intro_message i' pk') = (i = i' \<and> pk = pk')
    \<and> (\<exists>sig. sign_peer_key make_insecure_test_signer i pk = Inr sig \<and> length sig = 64 \<and> take 4 sig = bytes_of ''FAKE'')
    \<and> length (verify_key make_insecure_test_signer) = 32
    \<and> libsodium_sign det i pk = (case det (intro_message i pk) of None \<Rightarrow> fail Internal ''crypto_sign_detached failed'' | Some sig \<Rightarrow> good sig)"
  using assms
  by (auto simp: intro_message_def make_insecure_test_signer_def test_sign_def good_def bytes_of_def length_test_mix
      kStaticPubKeyLen_def kEd25519SigLen_def kEd25519PubKeyLen_def libsodium_sign_def)

theorem introduction_binds_id_and_key_witness:
  "intro_message [1] (replicate 32 2) \<noteq> intro_message [1, 2] (replicate 32 2)
   \<and> (\<exists>sig. sign_peer_key make_insecure_test_signer [1] (replicate 32 2) = Inr sig \<and> length sig = 64)"
  using introduction_binds_id_and_key [of "replicate 32 2" "replicate 32 2" "[1]" "[1, 2]"] by auto

section \<open>The loop\<close>

text \<open>What a turn does before the sweep, and the frame it acted on.\<close>

definition acted :: "signer \<Rightarrow> control_datagram \<Rightarrow> int \<Rightarrow> rendezvous \<Rightarrow> sent \<times> rendezvous" where
  "acted sg rcv now s = (case rcv of Inl _ \<Rightarrow> ([], s)
     | Inr (d, from) \<Rightarrow> (case decode_frame d of Inl _ \<Rightarrow> ([], s)
        | Inr f \<Rightarrow> (if ftype f = Unknown then ([], s) else handle_frame sg now from f s)))"

lemma rendezvous_turn_acted:
  "rendezvous_turn sg rcv now now2 s = (fst (acted sg rcv now s), rendezvous_sweep now2 (snd (acted sg rcv now s)))"
  by (simp add: rendezvous_turn_def acted_def split_beta split: sum.split)

lemma sweep_registry:
  assumes "registry_ok (registry s)"
  shows "lookup (registry (rendezvous_sweep now s)) i =
    (case lookup (registry s) i of None \<Rightarrow> None
     | Some r \<Rightarrow> if now - rz_last_sweep s \<ge> 15 \<and> now - last_seen_unix_s r > 60 then None else Some r)"
  using registry_table.sweep_get [of "registry s" now 60 i] assms
  by (auto simp: rendezvous_sweep_def kRendezvousSweepSeconds_def kRegistryTtlSeconds_def registry_ok_def split: option.splits)

lemma registry_ok_acted:
  assumes "registry_ok (registry s)"
  shows "registry_ok (registry (snd (acted sg rcv now s)))"
  using assms registry_ok_upsert [OF assms]
  by (auto simp: acted_def handle_frame_def handle_register_def handle_keepalive_def handle_broker_def split_beta
      split: sum.splits control_type.splits option.splits)

lemma registry_ok_step:
  assumes "registry_ok (registry s)"
  shows "registry_ok (registry (rendezvous_step sg s e))"
proof -
  obtain rcv now now2 where e: "e = (rcv, now, now2)" by (cases e)
  have "registry_ok (registry (snd (acted sg rcv now s)))" by (rule registry_ok_acted [OF assms])
  then show ?thesis
    by (simp add: e rendezvous_step_def rendezvous_turn_acted rendezvous_sweep_def registry_ok_expire)
qed

interpretation rendezvous_registry: run_invariant "rendezvous_step sg" "\<lambda>s. registry_ok (registry s)" for sg
  by unfold_locales (rule registry_ok_step)

lemma registry_ok_start [simp]: "registry_ok (registry (rendezvous_start t))"
  by (simp add: registry_ok_def rendezvous_start_def lookup_def)

lemma registry_ok_run: "registry_ok (registry (foldl (rendezvous_step sg) (rendezvous_start t) is))"
  by (rule rendezvous_registry.run_inv) simp

text \<open>What one turn can do to a record.\<close>

lemma acted_record:
  assumes "registry_ok (registry s)" and "lookup (registry (snd (acted sg rcv now s))) i = Some r'"
  shows "lookup (registry s) i = Some r'
    \<or> (\<exists>d from f. rcv = Inr (d, from) \<and> decode_frame d = Inr f \<and> fid f = i \<and> pendpoint r' = from \<and> last_seen_unix_s r' = now
        \<and> (ftype f = Register \<and> static_key r' = take 32 (fbody f)
             \<and> (case lookup (registry s) i of None \<Rightarrow> True
                | Some r \<Rightarrow> static_key r = static_key r' \<or> now - last_seen_unix_s r \<ge> 90)
           \<or> ftype f = Keepalive \<and> (\<exists>r. lookup (registry s) i = Some r \<and> static_key r' = static_key r)))"
proof (cases rcv)
  case (Inl x)
  with assms show ?thesis by (simp add: acted_def)
next
  case (Inr df)
  obtain d src where rcv: "rcv = Inr (d, src)" using Inr by (cases df) auto
  show ?thesis
  proof (cases "decode_frame d")
    case (Inl x)
    with assms rcv show ?thesis by (simp add: acted_def)
  next
    case f: (Inr f)
    show ?thesis
    proof (cases "ftype f = Register \<or> ftype f = Keepalive")
      case False
      then have "registry (snd (acted sg rcv now s)) = registry s"
        by (cases "ftype f") (auto simp: acted_def rcv f handle_frame_def handle_broker_def split: option.splits)
      with assms show ?thesis by simp
    next
      case True
      have pid: "lookup (registry s) i = Some r \<Longrightarrow> pid r = i" for i r using assms(1) by (simp add: registry_ok_def)
      show ?thesis
        using True
      proof
        assume t: "ftype f = Register"
        define nr where "nr = default_peer_record\<lparr>pid := fid f, pendpoint := src, static_key := take 32 (fbody f), last_seen_unix_s := now\<rparr>"
        have "registry (snd (acted sg rcv now s)) = (if length (fbody f) < 32 then registry s else snd (upsert nr (registry s)))"
          by (auto simp: acted_def rcv f t handle_frame_def handle_register_def split_beta kStaticPubKeyLen_def nr_def split: sum.splits)
        with assms(2) have "lookup (registry s) i = Some r' \<or> (i = fid f \<and> r' = nr \<and> may_store nr (registry s))"
          by (auto simp: upsert_registry nr_def split: if_splits)
        then show ?thesis
          using rcv f t by (auto simp: nr_def may_store_def split: option.splits)
      next
        assume t: "ftype f = Keepalive"
        have "registry (snd (acted sg rcv now s)) = (case lookup (registry s) (fid f) of None \<Rightarrow> registry s
            | Some r \<Rightarrow> snd (upsert (r\<lparr>pendpoint := src, last_seen_unix_s := now\<rparr>) (registry s)))"
          by (simp add: acted_def rcv f t handle_frame_def handle_keepalive_def split: option.split)
        with assms(2) pid have "lookup (registry s) i = Some r' \<or> (\<exists>r. lookup (registry s) (fid f) = Some r
            \<and> i = fid f \<and> r' = r\<lparr>pendpoint := src, last_seen_unix_s := now\<rparr>)"
          by (auto simp: upsert_registry split: option.splits if_splits)
        then show ?thesis using rcv f t by auto
      qed
    qed
  qed
qed

lemma turn_record:
  assumes "registry_ok (registry s)" and "lookup (registry (snd (rendezvous_turn sg rcv now now2 s))) i = Some r'"
  shows "lookup (registry (snd (acted sg rcv now s))) i = Some r'"
  using assms(2) sweep_registry [OF registry_ok_acted [OF assms(1)]]
  by (simp add: rendezvous_turn_acted split: option.splits if_splits)

text \<open>C5: A registered id keeps its key: if one turn of the server leaves an id with another key than
  before, the datagram was a well-formed Register for that id carrying the new key, and the
  previous holder had not been seen for at least 90 seconds.\<close>

theorem key_changes_only_when_stale:
  assumes "registry_ok (registry s)" and "lookup (registry s) i = Some r"
    and "lookup (registry (snd (rendezvous_turn sg rcv now now2 s))) i = Some r'" and "static_key r \<noteq> static_key r'"
  shows "\<exists>d from f. rcv = Inr (d, from) \<and> decode_frame d = Inr f \<and> ftype f = Register \<and> fid f = i
    \<and> pendpoint r' = from \<and> static_key r' = take 32 (fbody f) \<and> now - last_seen_unix_s r \<ge> 90"
  using acted_record [OF assms(1) turn_record [OF assms(1,3)]] assms(2,4) by auto

lemma demo_pk_len [simp]: "length (replicate 32 (x :: byte)) = 32" by simp

definition alice :: redesk_id where "alice = [65]"
definition ep_a :: endpoint where "ep_a = \<lparr>host = ''10.0.0.1'', port = 1000, ipv6 = False\<rparr>"
definition ep_m :: endpoint where "ep_m = \<lparr>host = ''10.6.6.6'', port = 666, ipv6 = False\<rparr>"

definition alice_record :: "int \<Rightarrow> peer_record" where
  "alice_record t = default_peer_record\<lparr>pid := alice, pendpoint := ep_a, static_key := replicate 32 1, last_seen_unix_s := t\<rparr>"

definition with_alice :: "int \<Rightarrow> int \<Rightarrow> rendezvous" where
  "with_alice seen swept = \<lparr>registry = [(alice, alice_record seen)], sessions = [], rz_last_sweep = swept\<rparr>"

lemma with_alice_ok [simp]: "registry_ok (registry (with_alice t u))"
  by (simp add: with_alice_def registry_ok_def lookup_def alice_record_def alice_def)

lemma lookup_with_alice [simp]: "lookup (registry (with_alice t u)) alice = Some (alice_record t)"
  by (simp add: with_alice_def lookup_def)

lemma alice_fields [simp]:
  "pid (alice_record t) = alice" "pendpoint (alice_record t) = ep_a" "static_key (alice_record t) = replicate 32 1"
  "last_seen_unix_s (alice_record t) = t"
  by (simp_all add: alice_record_def)

definition control_bytes :: "control_type \<Rightarrow> byte list \<Rightarrow> byte list" where
  "control_bytes t body = encode_frame \<lparr>ftype = t, fid = alice, fbody = body\<rparr>"

lemma decode_control_bytes:
  "t \<noteq> Unknown \<Longrightarrow> length body \<le> 65535 \<Longrightarrow> decode_frame (control_bytes t body) = Inr \<lparr>ftype = t, fid = alice, fbody = body\<rparr>"
  using decode_encode [of "\<lparr>ftype = t, fid = alice, fbody = body\<rparr>" "[]"]
  by (simp add: control_bytes_def clip_frame_def alice_def good_def)

theorem key_changes_only_when_stale_witness:
  "\<exists>r'. lookup (registry (snd (rendezvous_turn make_insecure_test_signer (Inr (control_bytes Register (replicate 32 2), ep_m)) 190 190 (with_alice 100 180)))) alice = Some r'
     \<and> (\<exists>d from f. (Inr (control_bytes Register (replicate 32 2), ep_m) :: control_datagram) = Inr (d, from) \<and> decode_frame d = Inr f \<and> ftype f = Register \<and> fid f = alice
        \<and> pendpoint r' = from \<and> static_key r' = take 32 (fbody f) \<and> (190 :: int) - 100 \<ge> 90)"
proof -
  have "\<exists>r'. lookup (registry (snd (rendezvous_turn make_insecure_test_signer (Inr (control_bytes Register (replicate 32 2), ep_m)) 190 190 (with_alice 100 180)))) alice = Some r'
      \<and> static_key r' = replicate 32 2"
    by (simp add: rendezvous_turn_acted acted_def decode_control_bytes handle_frame_def test_signer.register_reply may_store_def
        default_peer_record_def alice_def [symmetric] sweep_registry registry_ok_def with_alice_def rendezvous_sweep_def
        kRendezvousSweepSeconds_def) (simp add: alice_def lookup_def)
  then obtain r' where "lookup (registry (snd (rendezvous_turn make_insecure_test_signer (Inr (control_bytes Register (replicate 32 2), ep_m)) 190 190 (with_alice 100 180)))) alice = Some r'"
    and "static_key (alice_record 100) \<noteq> static_key r'" by auto
  from key_changes_only_when_stale [OF with_alice_ok lookup_with_alice this] this(1) show ?thesis by simp
qed

text \<open>A history's datagrams that vouch for a record: the last word on its endpoint and time, and the
  registration of its key.\<close>

definition heard :: "control_input list \<Rightarrow> control_type set \<Rightarrow> redesk_id \<Rightarrow> endpoint \<Rightarrow> int \<Rightarrow> (frame \<Rightarrow> bool) \<Rightarrow> bool" where
  "heard is ts i ep t P \<longleftrightarrow> (\<exists>d now2 f. (Inr (d, ep), t, now2) \<in> set is \<and> decode_frame d = Inr f \<and> ftype f \<in> ts \<and> fid f = i \<and> P f)"

lemma heard_mono: "heard is ts i ep t P \<Longrightarrow> heard (is @ js) ts i ep t P"
  by (auto simp: heard_def)

definition vouched :: "control_input list \<Rightarrow> rendezvous \<Rightarrow> bool" where
  "vouched is s \<longleftrightarrow> (\<forall>i r. lookup (registry s) i = Some r \<longrightarrow>
     heard is {Register, Keepalive} i (pendpoint r) (last_seen_unix_s r) (\<lambda>_. True)
     \<and> (\<exists>ep t. heard is {Register} i ep t (\<lambda>f. static_key r = take 32 (fbody f))))"

lemma vouched_step:
  assumes "registry_ok (registry s)" and "vouched is s"
  shows "vouched (is @ [(rcv, now, now2)]) (snd (rendezvous_turn sg rcv now now2 s))"
  unfolding vouched_def
proof (intro allI impI)
  fix i r' assume r': "lookup (registry (snd (rendezvous_turn sg rcv now now2 s))) i = Some r'"
  let ?is = "is @ [(rcv, now, now2)]"
  from acted_record [OF assms(1) turn_record [OF assms(1) r']]
  show "heard ?is {Register, Keepalive} i (pendpoint r') (last_seen_unix_s r') (\<lambda>_. True)
     \<and> (\<exists>ep t. heard ?is {Register} i ep t (\<lambda>f. static_key r' = take 32 (fbody f)))"
  proof
    assume "lookup (registry s) i = Some r'"
    with assms(2) show ?thesis unfolding vouched_def by (blast intro: heard_mono)
  next
    assume "\<exists>d from f. rcv = Inr (d, from) \<and> decode_frame d = Inr f \<and> fid f = i \<and> pendpoint r' = from \<and> last_seen_unix_s r' = now
        \<and> (ftype f = Register \<and> static_key r' = take 32 (fbody f)
             \<and> (case lookup (registry s) i of None \<Rightarrow> True
                | Some r \<Rightarrow> static_key r = static_key r' \<or> now - last_seen_unix_s r \<ge> 90)
           \<or> ftype f = Keepalive \<and> (\<exists>r. lookup (registry s) i = Some r \<and> static_key r' = static_key r))"
    then obtain d f where f: "rcv = Inr (d, pendpoint r')" "decode_frame d = Inr f" "fid f = i" "last_seen_unix_s r' = now"
      and k: "ftype f = Register \<and> static_key r' = take 32 (fbody f)
         \<or> ftype f = Keepalive \<and> (\<exists>r. lookup (registry s) i = Some r \<and> static_key r' = static_key r)" by blast
    have "heard ?is {Register, Keepalive} i (pendpoint r') (last_seen_unix_s r') (\<lambda>_. True)"
      using f k by (auto simp: heard_def)
    moreover have "\<exists>ep t. heard ?is {Register} i ep t (\<lambda>f. static_key r' = take 32 (fbody f))"
      using k
    proof
      assume "ftype f = Register \<and> static_key r' = take 32 (fbody f)"
      with f have "heard ?is {Register} i (pendpoint r') now (\<lambda>f. static_key r' = take 32 (fbody f))"
        by (auto simp: heard_def)
      then show ?thesis by blast
    next
      assume "ftype f = Keepalive \<and> (\<exists>r. lookup (registry s) i = Some r \<and> static_key r' = static_key r)"
      with assms(2) show ?thesis unfolding vouched_def by (metis heard_mono)
    qed
    ultimately show ?thesis by blast
  qed
qed

lemma vouched_run: "vouched is (foldl (rendezvous_step sg) (rendezvous_start t0) is)"
proof (induction "is" rule: rev_induct)
  case Nil
  then show ?case by (simp add: vouched_def rendezvous_start_def lookup_def)
next
  case (snoc e "is")
  obtain rcv now now2 where e: "e = (rcv, now, now2)" by (cases e)
  from vouched_step [OF registry_ok_run snoc] show ?case
    by (simp add: e rendezvous_step_def)
qed

text \<open>C6: The registry holds only what was observed: after any history, the endpoint and the time of every
  record are the source and the arrival time of one received Register or Keepalive for that id,
  never bytes from a body, and its key is the first 32 bytes of a received Register for that id.\<close>

theorem records_are_observed:
  assumes "lookup (registry (foldl (rendezvous_step sg) (rendezvous_start t0) is)) i = Some r"
  shows "heard is {Register, Keepalive} i (pendpoint r) (last_seen_unix_s r) (\<lambda>_. True)
    \<and> (\<exists>ep t. heard is {Register} i ep t (\<lambda>f. static_key r = take 32 (fbody f)))"
  using vouched_run [of "is" sg t0] assms unfolding vouched_def by blast

lemma register_alice:
  "registry (rendezvous_step make_insecure_test_signer (rendezvous_start 100) (Inr (control_bytes Register (replicate 32 1), ep_a), 100, 100))
     = [(alice, alice_record 100)]"
  by (simp add: rendezvous_step_def rendezvous_turn_acted acted_def decode_control_bytes handle_frame_def test_signer.register_reply
      may_store_def default_peer_record_def rendezvous_start_def rendezvous_sweep_def kRendezvousSweepSeconds_def lookup_def
      alice_record_def) (simp add: alice_def)

theorem records_are_observed_witness:
  "heard [(Inr (control_bytes Register (replicate 32 1), ep_a), 100, 100)] {Register, Keepalive} alice ep_a 100 (\<lambda>_. True)"
proof -
  have "lookup (registry (foldl (rendezvous_step make_insecure_test_signer) (rendezvous_start 100) [(Inr (control_bytes Register (replicate 32 1), ep_a), 100, 100)])) alice
      = Some (alice_record 100)"
    by (simp only: foldl.simps register_alice) (simp add: lookup_def)
  from records_are_observed [OF this] show ?thesis by simp
qed

lemma test_attestation:
  assumes "length pk = 32"
  shows "test_signer.attestation i pk = encode_attestation pk (projr (test_sign i pk)) (verify_key make_insecure_test_signer)"
proof -
  have "sign_peer_key make_insecure_test_signer = test_sign" by (simp add: make_insecure_test_signer_def)
  moreover have "test_sign i pk = Inr (projr (test_sign i pk))"
    using assms by (simp add: test_sign_def kStaticPubKeyLen_def good_def)
  ultimately show ?thesis
    unfolding test_signer.attestation_def test_signer.signature_def by (metis old.sum.simps(6))
qed

text \<open>A lookup is answered from the registry with a signed key: the one reply goes to the asker, it is
  LookupOk with the key registered under exactly the id asked for, the introducer's signature
  over that id and key and the verify key, or LookupFail when the id is unknown; and the
  registry is left as it was.\<close>

theorem lookup_answers_attested:
  assumes "registry_ok (registry s)" and "decode_frame d = Inr f" and "ftype f = Lookup"
  shows "acted make_insecure_test_signer (Inr (d, asker)) now s =
    (let target = (if fid f \<noteq> [] then fid f else fbody f)
     in (case lookup (registry s) target of
           None \<Rightarrow> [(encode_frame \<lparr>ftype = LookupFail, fid = target, fbody = []\<rparr>, asker)]
         | Some r \<Rightarrow> [(encode_frame \<lparr>ftype = LookupOk, fid = target,
               fbody = encode_attestation (static_key r) (projr (test_sign target (static_key r)))
                  (verify_key make_insecure_test_signer)\<rparr>, asker)], s))"
proof -
  have len: "lookup (registry s) i = Some r \<Longrightarrow> length (static_key r) = 32" for i r
    using assms(1) by (simp add: registry_ok_def)
  show ?thesis
    using assms(2,3) test_signer.lookup_reply [OF assms(1), of asker f]
    by (simp add: acted_def handle_frame_def send_frame_def test_attestation len split: option.split)
qed

theorem lookup_answers_attested_witness:
  "fst (acted make_insecure_test_signer (Inr (control_bytes Lookup [], ep_m)) 110 (with_alice 100 100)) =
     [(encode_frame \<lparr>ftype = LookupOk, fid = alice, fbody = encode_attestation (replicate 32 1)
        (projr (test_sign alice (replicate 32 1))) (verify_key make_insecure_test_signer)\<rparr>, ep_m)]"
  using lookup_answers_attested [OF with_alice_ok decode_control_bytes [of Lookup "[]"], of ep_m 110 100 100]
  by (simp add: alice_def) (simp add: lookup_def with_alice_def alice_def)

section \<open>Where the server promises more than it does\<close>

text \<open>The answer to a lookup says nothing about where the peer is, nor whether it is still there: two
  servers whose registries hold the same keys under the same ids answer every lookup alike,
  whatever endpoints and last-seen times they have on record.\<close>

theorem lookup_reply_has_no_endpoint:
  assumes "\<And>i. map_option (\<lambda>r. (pid r, static_key r)) (lookup (registry s) i) = map_option (\<lambda>r. (pid r, static_key r)) (lookup (registry s') i)"
  shows "handle_lookup sg asker f s = handle_lookup sg asker f s'"
proof -
  let ?t = "if fid f \<noteq> [] then fid f else fbody f"
  from assms [of ?t] show ?thesis
    by (auto simp: handle_lookup_def split: option.splits sum.splits)
qed

theorem lookup_reply_has_no_endpoint_witness:
  "handle_lookup make_insecure_test_signer ep_m \<lparr>ftype = Lookup, fid = alice, fbody = []\<rparr> (with_alice 0 1000)
     = handle_lookup make_insecure_test_signer ep_m \<lparr>ftype = Lookup, fid = alice, fbody = []\<rparr> (with_alice 1000 1000)"
  by (rule lookup_reply_has_no_endpoint) (simp add: with_alice_def lookup_def)

text \<open>C27: Anyone can take over an id's traffic with one unauthenticated datagram: a Keepalive naming the id,
  from any source, moves the record to that source, and the next candidates anyone sends for
  the id go there and not to the peer that registered it.\<close>

theorem keepalive_hijacks_endpoint:
  assumes "registry_ok (registry s)" and "lookup (registry s) i = Some r"
    and "decode_frame d = Inr f" and "ftype f = Keepalive" and "fid f = i"
    and "decode_frame d' = Inr g" and "ftype g = BrokerCandidates" and "fid g = i"
  shows "lookup (registry (snd (acted sg (Inr (d, attacker)) now s))) i = Some (r\<lparr>pendpoint := attacker, last_seen_unix_s := now\<rparr>)
    \<and> fst (acted sg (Inr (d', other_peer)) now' (snd (acted sg (Inr (d, attacker)) now s))) = [(encode_frame g, attacker)]"
proof -
  have r: "pid r = i" "i \<noteq> []" "length (static_key r) = 32" using assms(1,2) by (simp_all add: registry_ok_def)
  let ?r = "r\<lparr>pendpoint := attacker, last_seen_unix_s := now\<rparr>"
  have "may_store ?r (registry s)" using r assms(2) by (simp add: may_store_def)
  then have reg: "registry (snd (acted sg (Inr (d, attacker)) now s)) = AList.update i ?r (registry s)"
    using assms(2-5) r by (simp add: acted_def handle_frame_def handle_keepalive_def upsert_registry)
  have g: "\<lparr>ftype = BrokerCandidates, fid = i, fbody = fbody g\<rparr> = g"
    using assms(7,8) by (cases g) simp
  from reg assms(6-8) show ?thesis
    by (simp add: acted_def handle_frame_def handle_broker_def send_frame_def g)
qed

theorem keepalive_hijacks_endpoint_witness:
  "fst (acted make_insecure_test_signer (Inr (control_bytes BrokerCandidates [9], ep_a)) 103
      (snd (acted make_insecure_test_signer (Inr (control_bytes Keepalive [], ep_m)) 102 (with_alice 100 100))))
     = [(control_bytes BrokerCandidates [9], ep_m)]"
  using keepalive_hijacks_endpoint [OF with_alice_ok lookup_with_alice decode_control_bytes [of Keepalive "[]"] _ _
      decode_control_bytes [of BrokerCandidates "[9]"], where attacker = ep_m and other_peer = ep_a]
  by (simp add: control_bytes_def)

text \<open>Candidates are relayed blindly: a BrokerCandidates datagram for a known id reaches that id's
  endpoint as exactly the bytes of the frame received, which name the target and not the
  sender; for an unknown id the sender alone is told. No record changes.\<close>

theorem broker_relays_verbatim:
  assumes "decode_frame d = Inr f" and "ftype f = BrokerCandidates"
  shows "fst (acted sg (Inr (d, src)) now s) =
      (case lookup (registry s) (fid f) of
         None \<Rightarrow> [(encode_frame \<lparr>ftype = LookupFail, fid = fid f, fbody = []\<rparr>, src)]
       | Some r \<Rightarrow> [(take (4 + length (fid f) + length (fbody f)) d, pendpoint r)])
    \<and> registry (snd (acted sg (Inr (d, src)) now s)) = registry s"
proof -
  have f: "\<lparr>ftype = BrokerCandidates, fid = fid f, fbody = fbody f\<rparr> = f"
    using assms(2) by (cases f) simp
  have "take (4 + length (fid f) + length (fbody f)) d = encode_frame f"
    by (rule decode_bounds(1) [OF assms(1)]) (simp add: assms(2))
  then show ?thesis
    using assms by (simp add: acted_def handle_frame_def handle_broker_def send_frame_def f split: option.split)
qed

theorem broker_relays_verbatim_witness:
  "fst (acted make_insecure_test_signer (Inr (control_bytes BrokerCandidates [9], ep_m)) 101 (with_alice 100 100))
     = [(take 6 (control_bytes BrokerCandidates [9]), ep_a)]"
  using broker_relays_verbatim [OF decode_control_bytes [of BrokerCandidates "[9]"], of make_insecure_test_signer ep_m 101 "with_alice 100 100"]
  by (simp add: alice_def) (simp add: lookup_def with_alice_def alice_def)

section \<open>Attestations\<close>

definition read_lv :: "byte list \<Rightarrow> (byte list \<times> byte list) option" where
  "read_lv bs = (case bs of [] \<Rightarrow> None
     | n # r \<Rightarrow> if unat n \<le> length r then Some (take (unat n) r, drop (unat n) r) else None)"

interpretation lv: prefix_codec push_lv read_lv "\<lambda>v. length v \<le> 255"
proof
  fix v rest :: "byte list"
  assume "length v \<le> 255"
  then show "read_lv (push_lv v @ rest) = Some (v, rest)"
    by (simp add: read_lv_def push_lv_def unat_byte)
qed

text \<open>An attestation can be taken apart again: three fields of at most 255 bytes come back from its
  bytes one after the other, so a client reads the very key, signature and verify key sent.\<close>

theorem attestation_roundtrip:
  assumes "length pk \<le> 255" and "length sig \<le> 255" and "length vk \<le> 255"
  shows "decode_all read_lv 3 (encode_attestation pk sig vk) = ([pk, sig, vk], [])"
  using lv.decode_all_concat [of "[pk, sig, vk]" "[]" 0] assms
  by (simp add: encode_attestation_def read_lv_def numeral_3_eq_3)

theorem attestation_roundtrip_witness:
  "decode_all read_lv 3 (encode_attestation [1, 2] [3] []) = ([[1, 2], [3], []], [])"
  by (rule attestation_roundtrip) simp_all

end
