(* ===== verification/Net_Address.thy ===== *)
theory Net_Address
  imports Net_Core
begin

text \<open>
  \<open>server/common/net.cpp\<close>: endpoints and socket addresses. A socket address is its family, the two
  port bytes in network order and the address bytes. \<open>inet_ntop\<close> and \<open>inet_pton\<close> are parameters:
  what one prints the other reads back (\<open>inet_inverse\<close>), for the 4 bytes of IPv4 and the 16 of IPv6.
\<close>

section \<open>Addresses\<close>

datatype address_family = AF_INET | AF_INET6 | AF_OTHER

record sockaddr =
  family :: address_family
  port_bytes :: "byte list"
  addr_bytes :: "byte list"

type_synonym inet_ntop = "address_family \<Rightarrow> byte list \<Rightarrow> string"
type_synonym inet_pton = "address_family \<Rightarrow> string \<Rightarrow> byte list option"

text \<open>On a little-endian host; the socket layer stores the port most significant byte first.\<close>

definition htons :: "u16 \<Rightarrow> byte list" where "htons p = rev (le_bytes 2 p)"

definition ntohs :: "byte list \<Rightarrow> u16" where "ntohs bs = of_le_bytes (rev bs)"

definition endpoint_from_sockaddr :: "inet_ntop \<Rightarrow> sockaddr \<Rightarrow> endpoint" where
  "endpoint_from_sockaddr ntop ss =
     (if family ss = AF_INET6
      then \<lparr>host = ntop AF_INET6 (addr_bytes ss), port = ntohs (port_bytes ss), ipv6 = True\<rparr>
      else \<lparr>host = ntop AF_INET (addr_bytes ss), port = ntohs (port_bytes ss), ipv6 = False\<rparr>)"

definition sockaddr_from_endpoint :: "inet_pton \<Rightarrow> endpoint \<Rightarrow> sockaddr option" where
  "sockaddr_from_endpoint pton ep =
     (if ipv6 ep
      then (case pton AF_INET6 (host ep) of
              None \<Rightarrow> None
            | Some a \<Rightarrow> Some \<lparr>family = AF_INET6, port_bytes = htons (port ep), addr_bytes = a\<rparr>)
      else (case pton AF_INET (host ep) of
              None \<Rightarrow> None
            | Some a \<Rightarrow> Some \<lparr>family = AF_INET, port_bytes = htons (port ep), addr_bytes = a\<rparr>))"

section \<open>Facts\<close>

definition inet_inverse :: "inet_ntop \<Rightarrow> inet_pton \<Rightarrow> bool" where
  "inet_inverse ntop pton \<longleftrightarrow>
     (\<forall>a. length a = 4 \<longrightarrow> pton AF_INET (ntop AF_INET a) = Some a)
     \<and> (\<forall>a. length a = 16 \<longrightarrow> pton AF_INET6 (ntop AF_INET6 a) = Some a)"

definition sockaddr_ok :: "sockaddr \<Rightarrow> bool" where
  "sockaddr_ok ss \<longleftrightarrow> length (port_bytes ss) = 2
     \<and> (case family ss of AF_INET \<Rightarrow> length (addr_bytes ss) = 4 | AF_INET6 \<Rightarrow> length (addr_bytes ss) = 16 | AF_OTHER \<Rightarrow> False)"

lemma htons_ntohs [wire_simps]: "length bs = 2 \<Longrightarrow> htons (ntohs bs) = bs"
  using le_of_le_bytes [of "rev bs", where 'a = 16] by (simp add: htons_def ntohs_def)

lemma ntohs_htons [wire_simps]: "ntohs (htons p) = p"
  by (simp add: htons_def ntohs_def of_le_le_bytes)

text \<open>A reply goes back to the very address a datagram came from: turning a received IPv4 or IPv6
  socket address into an endpoint and that endpoint into an address again gives the same family,
  port bytes and address bytes, so two sources that differ in any of them stay distinct endpoints.\<close>

theorem reply_address_exact:
  assumes "inet_inverse ntop pton" and "sockaddr_ok ss" and "sockaddr_ok ss'"
  shows "sockaddr_from_endpoint pton (endpoint_from_sockaddr ntop ss) = Some ss
    \<and> (endpoint_from_sockaddr ntop ss = endpoint_from_sockaddr ntop ss') = (ss = ss')"
proof -
  have rt: "sockaddr_from_endpoint pton (endpoint_from_sockaddr ntop s) = Some s" if "sockaddr_ok s" for s
    using that assms(1)
    by (cases s; cases "family s")
      (auto simp: sockaddr_ok_def inet_inverse_def sockaddr_from_endpoint_def endpoint_from_sockaddr_def htons_ntohs)
  from rt [OF assms(2)] rt [OF assms(3)] show ?thesis by (metis option.inject)
qed

definition demo_ntop :: inet_ntop where "demo_ntop f a = map (\<lambda>b. char_of (unat b)) a"
definition demo_pton :: inet_pton where "demo_pton f s = Some (map (\<lambda>c. of_nat (of_char c)) s)"

theorem reply_address_exact_witness:
  "sockaddr_from_endpoint demo_pton (endpoint_from_sockaddr demo_ntop \<lparr>family = AF_INET, port_bytes = [0x52, 0x7C], addr_bytes = [10, 0, 0, 7]\<rparr>)
     = Some \<lparr>family = AF_INET, port_bytes = [0x52, 0x7C], addr_bytes = [10, 0, 0, 7]\<rparr>"
proof -
  have "(of_nat (of_char (char_of (unat b) :: char)) :: byte) = b" for b :: byte
  proof -
    have "unat b < 256" using unsigned_less [of b] by simp
    then show ?thesis by simp
  qed
  then have inv: "inet_inverse demo_ntop demo_pton"
    by (simp add: inet_inverse_def demo_ntop_def demo_pton_def comp_def)
  show ?thesis
    using reply_address_exact [OF inv, of "\<lparr>family = AF_INET, port_bytes = [0x52, 0x7C], addr_bytes = [10, 0, 0, 7]\<rparr>"
        "\<lparr>family = AF_INET, port_bytes = [0x52, 0x7C], addr_bytes = [10, 0, 0, 7]\<rparr>"]
    by (simp add: sockaddr_ok_def)
qed

text \<open>\<open>send_to\<close> refuses an endpoint exactly when no address can be made from it.\<close>

lemma send_to_refuses:
  "code (send_to (\<lambda>v6 h. pton (if v6 then AF_INET6 else AF_INET) h \<noteq> None) n err to) = InvalidArgument
     \<longleftrightarrow> sockaddr_from_endpoint pton to = None"
  by (auto simp: send_to_def sockaddr_from_endpoint_def error_status_def success_def split: option.splits)

end
