(* ===== verification/Media_Path.thy ===== *)
theory Media_Path
  imports Codec_Proofs Transport_Proofs Capture_Core
begin

text \<open>
  The media path: what the core's parts do when they are joined as their headers describe it. The
  frames of a capturer go to the encoder, each packet's bytes to one end of a loopback pair, and
  what the other end receives to the decoder. Every operation used is that of its component.
\<close>

section \<open>Joining the parts\<close>

text \<open>The packets the encoder hands to its callback for a list of frames.\<close>

fun encode_frames :: "encoder \<Rightarrow> video_frame list \<Rightarrow> encoded_packet list" where
  "encode_frames e [] = []"
| "encode_frames e (f # fs) =
     (let (_, p, e') = enc_encode f e in (case p of None \<Rightarrow> [] | Some p \<Rightarrow> [p]) @ encode_frames e' fs)"

definition send_packets :: "endpoint_name \<Rightarrow> channel \<Rightarrow> encoded_packet list \<Rightarrow> loopback \<Rightarrow> loopback" where
  "send_packets n ch ps t = foldl (\<lambda>t p. snd (send n ch (packet_data p) t)) t ps"

definition decode_payload :: "decoder \<Rightarrow> byte list \<Rightarrow> status \<times> video_frame option" where
  "decode_payload d bs = dec_decode \<lparr>packet_data = bs, packet_timestamp_us = 0, keyframe = False\<rparr> d"

definition captured_frames :: "capturer \<Rightarrow> video_frame list" where
  "captured_frames c = concat (map (\<lambda>e. case e of Frame f \<Rightarrow> [f] | Cursor _ \<Rightarrow> []) (cap_log c))"

section \<open>Facts\<close>

definition encodable :: "video_frame \<Rightarrow> bool" where
  "encodable f \<longleftrightarrow> cpu_pixels f \<noteq> [] \<or> native_handle f = None"

text \<open>Which keyframe flag each packet carries does not matter to the receiver.\<close>

lemma encode_frames_data:
  "enc_packet_cb e \<Longrightarrow> list_all encodable fs \<Longrightarrow>
   \<exists>ks. length ks = length fs
     \<and> map packet_data (encode_frames e fs) = map2 (\<lambda>k f. header_bytes (encode_header k f) @ cpu_pixels f) ks fs"
proof (induction fs arbitrary: e)
  case (Cons f fs)
  let ?k = "enc_force_keyframe e \<or> enc_first_frame e"
  let ?e = "e\<lparr>enc_force_keyframe := False, enc_first_frame := False\<rparr>"
  obtain ks where "length ks = length fs"
    "map packet_data (encode_frames ?e fs) = map2 (\<lambda>k f. header_bytes (encode_header k f) @ cpu_pixels f) ks fs"
    using Cons.IH [of ?e] Cons.prems by auto
  with Cons.prems show ?case
    by (intro exI [of _ "?k # ks"]) (auto simp: enc_encode_def encodable_def)
qed simp

lemma send_packets_received:
  "paired t \<Longrightarrow> tstate (ends t n) = TConnected \<Longrightarrow> receive_cb (ends t (other n)) \<Longrightarrow>
   received (other n) ch (tlog (send_packets n ch ps t))
     = received (other n) ch (tlog t) @ filter (\<lambda>bs. length bs \<le> 65535) (map packet_data ps)"
proof (induction ps arbitrary: t)
  case (Cons p ps)
  let ?t = "snd (send n ch (packet_data p) t)"
  have "paired ?t" using Cons.prems(1) by (simp add: paired_def)
  with Cons.IH [of ?t] Cons.prems show ?case by (simp add: send_packets_def send_log)
qed (simp add: send_packets_def)

lemma decode_payload_frame:
  "length (cpu_pixels f) < 2 ^ 32 \<Longrightarrow> dec_frame_cb d \<Longrightarrow>
   decode_payload d (header_bytes (encode_header k f) @ cpu_pixels f) = (success, Some (carried f))"
  using decode_packet [of f d k "[]" 0 False] by (simp add: decode_payload_def)

lemma filter_packets:
  "length ks = length fs \<Longrightarrow> dec_frame_cb d \<Longrightarrow>
   map (decode_payload d) (filter (\<lambda>bs. length bs \<le> 65535)
       (map2 (\<lambda>k f. header_bytes (encode_header k f) @ cpu_pixels f) ks fs))
     = map (\<lambda>f. (success, Some (carried f))) (filter (\<lambda>f. length (cpu_pixels f) \<le> 65503) fs)"
  by (induction ks fs rule: list_induct2) (simp_all add: decode_payload_frame)

section \<open>Properties\<close>

text \<open>C19: Across encoder, loopback transport and decoder, on any channel, exactly those frames arrive
  whose pixels take at most 65503 bytes, in the order they were encoded, with size, format, time
  stamp and every pixel restored; a larger frame is refused by the transport and the frames after
  it still arrive.\<close>

theorem frames_cross_the_loopback:
  assumes "paired t" and "tstate (ends t n) = TConnected" and "receive_cb (ends t (other n))"
    and "received (other n) ch (tlog t) = []"
    and "enc_packet_cb e" and "list_all encodable fs" and "dec_frame_cb d"
  shows "map (decode_payload d) (received (other n) ch (tlog (send_packets n ch (encode_frames e fs) t)))
    = map (\<lambda>f. (success, Some (carried f))) (filter (\<lambda>f. length (cpu_pixels f) \<le> 65503) fs)"
proof -
  from encode_frames_data [OF assms(5,6)] obtain ks where ks: "length ks = length fs"
    "map packet_data (encode_frames e fs) = map2 (\<lambda>k f. header_bytes (encode_header k f) @ cpu_pixels f) ks fs" by blast
  with send_packets_received [OF assms(1-3)] assms(4) filter_packets [OF ks(1) assms(7)] show ?thesis by simp
qed

definition joined_pair :: loopback where
  "joined_pair = snd (connect EndA (setReceiveCallback EndB True createLoopbackPair))"

lemma joined_pair [simp]:
  "paired joined_pair" "tstate (ends joined_pair EndA) = TConnected" "receive_cb (ends joined_pair EndB)"
  "received EndB ch (tlog joined_pair) = []" "other EndA = EndB"
proof -
  show "paired joined_pair"
    using paired_step [OF paired_step [OF paired_start, of "TReceiveCb EndB True"], of "TConnect EndA"]
    by (simp add: joined_pair_def)
  show "tstate (ends joined_pair EndA) = TConnected" "receive_cb (ends joined_pair EndB)"
    "received EndB ch (tlog joined_pair) = []" "other EndA = EndB"
    by (simp_all add: joined_pair_def connect_def setTransportState_def setReceiveCallback_def createLoopbackPair_def
        bindPeer_def createTransport_def fresh_end_def)
qed

theorem frames_cross_the_loopback_witness:
  "map (decode_payload \<lparr>dec_codec = H264, dec_frame_cb = True\<rparr>)
     (received EndB Video (tlog (send_packets EndA Video (encode_frames demo_encoder [demo_frame, demo_frame]) joined_pair)))
   = [(success, Some (carried demo_frame)), (success, Some (carried demo_frame))]"
  using frames_cross_the_loopback [of joined_pair EndA Video demo_encoder "[demo_frame, demo_frame]" "\<lparr>dec_codec = H264, dec_frame_cb = True\<rparr>"]
  by (simp add: encodable_def demo_frame_def demo_encoder_def enc_setPacketCallback_def default_frame_def)

lemma captured_pumps:
  "captured_frames ((pump orbit ^^ k) (snd (cap_start config (setFrameCallback True createStubCapturer))))
     = map (\<lambda>n. stub_frame (of_nat n)) [0..<k]"
proof -
  let ?c = "snd (cap_start config (setFrameCallback True createStubCapturer))"
  have c: "capturing ?c" "frame_index ?c = 0" "cap_log ?c = []" "frame_cb ?c" "\<not> cursor_cb ?c"
    by (simp_all add: cap_start_def setFrameCallback_def createStubCapturer_def)
  have "cap_log ((pump orbit ^^ k) ?c) = map (\<lambda>n. Frame (stub_frame (of_nat n))) [0..<k]"
    using pumps_capturing [OF c(1), of k orbit] c by (simp add: deliveries_def)
  then show ?thesis by (simp add: captured_frames_def comp_def)
qed

text \<open>The default parts do not fit together without fragmentation: however long the synthetic
  capturer runs, none of its frames crosses the transport, since each packet has 3686432 bytes
  and the transport takes 65535; cut to the wire format's budget it would need 57 fragments.\<close>

theorem synthetic_frames_never_arrive:
  "received EndB ch (tlog (send_packets EndA ch
      (encode_frames (enc_setPacketCallback True (createVideoEncoder c))
        (captured_frames ((pump orbit ^^ k) (snd (cap_start config (setFrameCallback True createStubCapturer)))))) joined_pair)) = []
    \<and> fragmentCount 3686432 (usablePayloadBudget kNoiseMessageMax) = 57"
proof -
  let ?e = "enc_setPacketCallback True (createVideoEncoder c)"
  let ?fs = "captured_frames ((pump orbit ^^ k) (snd (cap_start config (setFrameCallback True createStubCapturer))))"
  have len: "length (cpu_pixels (stub_frame i)) = 3686400" for i
    by (simp add: stub_frame_def length_gradient kStubWidth_def kStubHeight_def)
  have "list_all encodable ?fs"
    by (simp add: captured_pumps list_all_iff encodable_def stub_frame_def)
  then obtain ks where ks: "length ks = length ?fs"
    "map packet_data (encode_frames ?e ?fs) = map2 (\<lambda>k f. header_bytes (encode_header k f) @ cpu_pixels f) ks ?fs"
    using encode_frames_data [of ?e ?fs] by (auto simp: enc_setPacketCallback_def)
  have "filter (\<lambda>bs. length bs \<le> 65535) (map2 (\<lambda>k f. header_bytes (encode_header k f) @ cpu_pixels f) ks ?fs) = []"
    by (auto simp: filter_empty_conv captured_pumps len dest!: set_zip_rightD)
  with ks(2) send_packets_received [of joined_pair EndA ch "encode_frames ?e ?fs"] have
    "received EndB ch (tlog (send_packets EndA ch (encode_frames ?e ?fs) joined_pair)) = []" by simp
  moreover have "fragmentCount 3686432 (usablePayloadBudget kNoiseMessageMax) = 57"
    by (simp add: fragmentCount_def usablePayloadBudget_def kNoiseMessageMax_def kAeadTagBytes_def)
  ultimately show ?thesis by simp
qed

end
