(* ===== verification/Ipc_Server.thy ===== *)
theory Ipc_Server
  imports Common_Types Interfaces
begin

text \<open>
  \<open>service/src/ipc_server.h\<close> and \<open>ipc_server.cpp\<close>: the Unix-domain-socket server of the
  privileged service. A connection's input is the list of chunks successive \<open>read\<close> calls would
  hand over (an empty chunk is end of file or an error; a call that asks for less leaves the
  rest), its output a list of what successive \<open>write\<close> calls accept. Peer credentials and the
  results of the set-up calls are arguments. The Windows branch is left out; the accept thread
  is the list of connections it serves one after the other.
\<close>

record peer_identity =
  authenticated :: bool
  uid :: u32
  peer_pid :: u32
  descriptor :: string

record ipc_config =
  ipc_endpoint :: string
  max_message_bytes :: nat

definition default_ipc_config :: ipc_config where
  "default_ipc_config = \<lparr>ipc_endpoint = '''', max_message_bytes = 2 ^ 20\<rparr>"

type_synonym ipc_handler = "peer_identity \<Rightarrow> byte list \<Rightarrow> byte list"

definition kFrameHeaderBytes :: nat where "kFrameHeaderBytes = 4"

text \<open>\<open>AuthenticatePeer\<close> on Linux: what \<open>SO_PEERCRED\<close> returned, if anything.\<close>

definition AuthenticatePeer :: "(u32 \<times> u32) option \<Rightarrow> peer_identity" where
  "AuthenticatePeer cred =
     (let i = (case cred of Some (u, p) \<Rightarrow> \<lparr>authenticated = True, uid = u, peer_pid = p, descriptor = ''''\<rparr>
               | None \<Rightarrow> \<lparr>authenticated = False, uid = 0, peer_pid = 0, descriptor = ''''\<rparr>)
      in i\<lparr>descriptor := ''uid='' @ to_string (unat (uid i)) @ '' pid='' @ to_string (unat (peer_pid i))\<rparr>)"

section \<open>Exact reads and writes\<close>

text \<open>\<open>ReadExact\<close>: the bytes read so far are dropped on failure, as the caller drops its buffer.\<close>

function ReadExact :: "nat \<Rightarrow> byte list list \<Rightarrow> byte list option \<times> byte list list" where
  "ReadExact n cs =
     (if n = 0 then (Some [], cs)
      else case cs of
        [] \<Rightarrow> (None, [])
      | c # rest \<Rightarrow>
          (if c = [] then (None, rest)
           else if length c > n then (Some (take n c), drop n c # rest)
           else (let (more, left) = ReadExact (n - length c) rest
                 in (map_option ((@) c) more, left))))"
  by pat_completeness auto

termination
  by (relation "measure (\<lambda>(n, cs). length cs)") auto

text \<open>\<open>WriteExact\<close>: each number is what one \<open>write\<close> call returned; the bytes that reached the peer.\<close>

function WriteExact :: "int list \<Rightarrow> byte list \<Rightarrow> byte list \<times> bool \<times> int list" where
  "WriteExact ws bs =
     (if bs = [] then ([], True, ws)
      else case ws of
        [] \<Rightarrow> ([], False, [])
      | w # rest \<Rightarrow>
          (if w \<le> 0 then ([], False, rest)
           else (let k = min (nat w) (length bs); (out, ok, left) = WriteExact rest (drop k bs)
                 in (take k bs @ out, ok, left))))"
  by pat_completeness auto

termination
  by (relation "measure (\<lambda>(ws, bs). length ws)") auto

declare ReadExact.simps [simp del] WriteExact.simps [simp del]

lemma ReadExact_cases [simp]:
  "ReadExact 0 cs = (Some [], cs)"
  "n \<noteq> 0 \<Longrightarrow> ReadExact n [] = (None, [])"
  "n \<noteq> 0 \<Longrightarrow> ReadExact n ([] # rest) = (None, rest)"
  "n \<noteq> 0 \<Longrightarrow> length c > n \<Longrightarrow> ReadExact n (c # rest) = (Some (take n c), drop n c # rest)"
  "n \<noteq> 0 \<Longrightarrow> c \<noteq> [] \<Longrightarrow> length c \<le> n \<Longrightarrow> ReadExact n (c # rest) =
     (map_option ((@) c) (fst (ReadExact (n - length c) rest)), snd (ReadExact (n - length c) rest))"
  by (subst ReadExact.simps; force simp: split_beta)+

lemma WriteExact_cases [simp]:
  "WriteExact ws [] = ([], True, ws)"
  "bs \<noteq> [] \<Longrightarrow> WriteExact [] bs = ([], False, [])"
  "bs \<noteq> [] \<Longrightarrow> w \<le> 0 \<Longrightarrow> WriteExact (w # rest) bs = ([], False, rest)"
  "bs \<noteq> [] \<Longrightarrow> 0 < w \<Longrightarrow> WriteExact (w # rest) bs =
     (let k = min (nat w) (length bs); r = WriteExact rest (drop k bs) in (take k bs @ fst r, fst (snd r), snd (snd r)))"
  by (subst WriteExact.simps; force simp: split_beta)+

section \<open>One connection\<close>

record connection =
  cred :: "(u32 \<times> u32) option"
  input :: "byte list list"
  accepts :: "int list"

text \<open>What serving a connection leads to: the request the handler was called with, if it was, and
  the bytes that reached the peer.\<close>

definition reply_frame :: "byte list \<Rightarrow> byte list \<times> byte list" where
  "reply_frame payload = (le_bytes 4 (of_nat (length payload) :: u32), take (unat (of_nat (length payload) :: u32)) payload)"

definition ServeConnection :: "ipc_config \<Rightarrow> ipc_handler option \<Rightarrow> connection \<Rightarrow> (peer_identity \<times> byte list) option \<times> byte list" where
  "ServeConnection cfg handler conn =
     (let peer = AuthenticatePeer (cred conn) in
      if \<not> authenticated peer then (None, [])
      else case ReadExact kFrameHeaderBytes (input conn) of
        (None, _) \<Rightarrow> (None, [])
      | (Some header, cs) \<Rightarrow>
          (let len = unat (of_le_bytes header :: u32) in
           if len = 0 \<or> len > max_message_bytes cfg then (None, [])
           else case ReadExact len cs of
             (None, _) \<Rightarrow> (None, [])
           | (Some payload, _) \<Rightarrow>
               (let (call, reply) = (case handler of Some h \<Rightarrow> (Some (peer, payload), h peer payload) | None \<Rightarrow> (None, []));
                    (hdr, body) = reply_frame reply;
                    (out, ok, ws) = WriteExact (accepts conn) hdr
                in if \<not> ok then (call, out)
                   else if body \<noteq> [] then (call, out @ fst (WriteExact ws body))
                   else (call, out))))"

section \<open>Starting and stopping\<close>

record ipc_server =
  config :: ipc_config
  handler_set :: bool
  endpoint_path :: string
  listen_fd :: int
  running :: bool
  accept_thread :: bool
  \<comment> \<open>what the process holds of the system: open descriptors and existing socket paths\<close>
  os_fds :: "int list"
  os_paths :: "string list"

definition CreateIpcServer :: ipc_server where
  "CreateIpcServer = \<lparr>config = default_ipc_config, handler_set = False, endpoint_path = '''', listen_fd = -1,
     running = False, accept_thread = False, os_fds = [], os_paths = []\<rparr>"

definition sun_path_size :: nat where "sun_path_size = 108"

definition ipc_stop :: "ipc_server \<Rightarrow> ipc_server" where
  "ipc_stop s =
     (let s = s\<lparr>running := False\<rparr>;
          s = (if listen_fd s \<ge> 0 then s\<lparr>os_fds := removeAll (listen_fd s) (os_fds s), listen_fd := -1\<rparr> else s);
          s = s\<lparr>accept_thread := False\<rparr>
      in if endpoint_path s \<noteq> '''' then s\<lparr>os_paths := removeAll (endpoint_path s) (os_paths s)\<rparr> else s)"

definition ipc_start :: "ipc_config \<Rightarrow> int \<Rightarrow> int \<Rightarrow> int \<Rightarrow> int \<Rightarrow> ipc_server \<Rightarrow> status \<times> ipc_server" where
  "ipc_start cfg sock_ret bind_ret chmod_ret listen_ret s =
     (let s = s\<lparr>config := cfg, handler_set := True, endpoint_path := ipc_endpoint cfg, listen_fd := sock_ret\<rparr> in
      if sock_ret < 0 then (error_status Internal ''socket() failed'', s)
      else
        (let s = s\<lparr>os_fds := sock_ret # os_fds s, os_paths := removeAll (ipc_endpoint cfg) (os_paths s)\<rparr> in
         if length (ipc_endpoint cfg) \<ge> sun_path_size then
           (error_status InvalidArgument (''UDS path too long: '' @ ipc_endpoint cfg), ipc_stop s)
         else if bind_ret \<noteq> 0 then
           (error_status PermissionDenied (''bind() failed on '' @ ipc_endpoint cfg), ipc_stop s)
         else
           (let s = s\<lparr>os_paths := ipc_endpoint cfg # os_paths s\<rparr> in
            if chmod_ret \<noteq> 0 then (error_status PermissionDenied (''chmod 0600 failed on '' @ ipc_endpoint cfg), ipc_stop s)
            else if listen_ret \<noteq> 0 then (error_status Internal ''listen() failed'', ipc_stop s)
            else (success, s\<lparr>running := True, accept_thread := True\<rparr>))))"

text \<open>The accept loop while the server runs: a failed \<open>accept\<close> is skipped, a connection is served
  and closed before the next is accepted.\<close>

fun AcceptLoop :: "ipc_server \<Rightarrow> ipc_handler \<Rightarrow> connection option list \<Rightarrow> byte list list" where
  "AcceptLoop s h [] = []"
| "AcceptLoop s h (c # cs) =
     (if \<not> running s then []
      else case c of None \<Rightarrow> AcceptLoop s h cs
           | Some conn \<Rightarrow> snd (ServeConnection (config s) (if handler_set s then Some h else None) conn) # AcceptLoop s h cs)"

section \<open>Facts\<close>

text \<open>The bytes a connection delivers before its end.\<close>

definition stream :: "byte list list \<Rightarrow> byte list" where
  "stream cs = concat (takeWhile (\<lambda>c. c \<noteq> []) cs)"

lemma ReadExact_stream:
  "(length (stream cs) < n \<longrightarrow> fst (ReadExact n cs) = None)
   \<and> (n \<le> length (stream cs) \<longrightarrow> fst (ReadExact n cs) = Some (take n (stream cs)) \<and> stream (snd (ReadExact n cs)) = drop n (stream cs))"
proof (induction cs arbitrary: n)
  case Nil
  then show ?case by (cases "n = 0") (simp_all add: stream_def)
next
  case (Cons c rest)
  consider "n = 0" | "n \<noteq> 0" "c = []" | "n \<noteq> 0" "length c > n" | "n \<noteq> 0" "c \<noteq> []" "length c \<le> n" by force
  then show ?case
  proof cases
    case 3
    then have "drop n c \<noteq> []" and "c \<noteq> []" by auto
    with 3 show ?thesis by (simp add: stream_def)
  next
    case 4
    with Cons.IH [of "n - length c"] show ?thesis by (auto simp: stream_def)
  qed (simp_all add: stream_def)
qed

lemma ReadExact_Some: "n \<le> length (stream cs) \<Longrightarrow> fst (ReadExact n cs) = Some (take n (stream cs))"
  and ReadExact_rest: "n \<le> length (stream cs) \<Longrightarrow> stream (snd (ReadExact n cs)) = drop n (stream cs)"
  and ReadExact_None: "length (stream cs) < n \<Longrightarrow> fst (ReadExact n cs) = None"
  using ReadExact_stream [of cs n] by simp_all

text \<open>A peer that accepts every byte, in however small pieces.\<close>

definition draining :: "int list \<Rightarrow> nat \<Rightarrow> bool" where
  "draining ws n \<longleftrightarrow> list_all (\<lambda>w. w > 0) ws \<and> n \<le> length ws"

lemma WriteExact_all:
  "list_all (\<lambda>w. w > 0) ws \<Longrightarrow> length bs \<le> length ws \<Longrightarrow>
     fst (WriteExact ws bs) = bs \<and> fst (snd (WriteExact ws bs))
     \<and> list_all (\<lambda>w. w > 0) (snd (snd (WriteExact ws bs)))
     \<and> length ws \<le> length (snd (snd (WriteExact ws bs))) + length bs"
proof (induction ws arbitrary: bs)
  case (Cons w ws)
  show ?case
  proof (cases "bs = []")
    case False
    define k where "k = min (nat w) (length bs)"
    have k: "0 < k" "k \<le> length bs" and w: "0 < w" using Cons.prems False by (simp_all add: k_def)
    have "list_all (\<lambda>w. w > 0) ws" and "length (drop k bs) \<le> length ws" using Cons.prems k by auto
    note IH = Cons.IH [OF this]
    have "WriteExact (w # ws) bs = (take k bs @ fst (WriteExact ws (drop k bs)), fst (snd (WriteExact ws (drop k bs))),
        snd (snd (WriteExact ws (drop k bs))))"
      using w False by (simp add: k_def)
    moreover have "length (w # ws) \<le> length (snd (snd (WriteExact ws (drop k bs)))) + length bs"
      using IH k by simp linarith
    ultimately show ?thesis using IH by simp
  qed (use Cons.prems in simp)
qed simp

lemma WriteExact_prefix: "\<exists>r. bs = fst (WriteExact ws bs) @ r \<and> (fst (snd (WriteExact ws bs)) \<longrightarrow> r = [])"
proof (induction ws bs rule: WriteExact.induct)
  case (1 ws bs)
  show ?case
  proof (cases "bs = [] \<or> ws = [] \<or> hd ws \<le> 0")
    case True
    then show ?thesis by (cases "bs = []"; cases ws) auto
  next
    case False
    then obtain w rest where w: "ws = w # rest" "0 < w" "bs \<noteq> []" by (cases ws) auto
    with 1 obtain r where "drop (min (nat w) (length bs)) bs = fst (WriteExact rest (drop (min (nat w) (length bs)) bs)) @ r"
      "fst (snd (WriteExact rest (drop (min (nat w) (length bs)) bs))) \<longrightarrow> r = []" by auto
    moreover have "WriteExact ws bs = (let k = min (nat w) (length bs); r = WriteExact rest (drop k bs) in (take k bs @ fst r, fst (snd r), snd (snd r)))"
      using w by simp
    ultimately show ?thesis
      by (intro exI [of _ r]) (simp only: Let_def fst_conv snd_conv append_assoc, metis append_take_drop_id)
  qed
qed

section \<open>What a connection can do\<close>

text \<open>The request a byte stream carries, if it is complete and within the limit.\<close>

definition request_of :: "nat \<Rightarrow> byte list \<Rightarrow> byte list option" where
  "request_of cap bs =
     (if length bs < 4 then None
      else (let len = unat (of_le_bytes (take 4 bs) :: u32)
            in if len = 0 \<or> len > cap \<or> length bs < 4 + len then None else Some (take len (drop 4 bs))))"

lemma ServeConnection_call:
  "fst (ServeConnection cfg (Some h) conn) =
     (if cred conn = None then None
      else map_option (Pair (AuthenticatePeer (cred conn))) (request_of (max_message_bytes cfg) (stream (input conn))))"
proof (cases "cred conn")
  case None
  then show ?thesis by (simp add: ServeConnection_def AuthenticatePeer_def)
next
  case (Some up)
  then have auth: "authenticated (AuthenticatePeer (cred conn))"
    by (cases up) (simp add: AuthenticatePeer_def)
  let ?s = "stream (input conn)"
  show ?thesis
  proof (cases "length ?s < 4")
    case True
    then show ?thesis
      using Some auth ReadExact_None [OF True]
      by (cases "ReadExact 4 (input conn)") (simp add: ServeConnection_def kFrameHeaderBytes_def request_of_def)
  next
    case False
    obtain cs where rd: "ReadExact 4 (input conn) = (Some (take 4 ?s), cs)" and cs: "stream cs = drop 4 ?s"
      using ReadExact_Some [of 4 "input conn"] ReadExact_rest [of 4 "input conn"] False
      by (cases "ReadExact 4 (input conn)") auto
    let ?len = "unat (of_le_bytes (take 4 ?s) :: u32)"
    show ?thesis
    proof (cases "?len \<le> length (stream cs)")
      case True
      obtain cs' where "ReadExact ?len cs = (Some (take ?len (drop 4 ?s)), cs')"
        using ReadExact_Some [OF True] cs by (cases "ReadExact ?len cs") auto
      then show ?thesis
        using Some auth rd cs False True
        by (auto simp: ServeConnection_def kFrameHeaderBytes_def request_of_def split_beta)
    next
      case f: False
      then obtain cs' where "ReadExact ?len cs = (None, cs')"
        using ReadExact_None [of cs ?len] by (cases "ReadExact ?len cs") auto
      then show ?thesis
        using Some auth rd cs False f
        by (auto simp: ServeConnection_def kFrameHeaderBytes_def request_of_def split_beta)
    qed
  qed
qed

text \<open>C8: The service hands a request to its handler only from a peer whose credentials the system
  confirmed, only if the announced length is between 1 and the limit, and only once all of its
  bytes have arrived; the request is then exactly the bytes after the length field, however
  the reads were cut up, and nothing beyond them.\<close>

theorem requests_are_checked:
  "fst (ServeConnection cfg (Some h) conn) =
     (if cred conn = None then None
      else map_option (Pair (AuthenticatePeer (cred conn))) (request_of (max_message_bytes cfg) (stream (input conn))))
   \<and> list_all (\<lambda>p. authenticated (fst p) \<and> 0 < length (snd p) \<and> length (snd p) \<le> max_message_bytes cfg)
       (case fst (ServeConnection cfg (Some h) conn) of None \<Rightarrow> [] | Some p \<Rightarrow> [p])"
proof -
  have "authenticated (AuthenticatePeer (Some up))" for up
    by (cases up) (simp add: AuthenticatePeer_def)
  then show ?thesis
    by (auto simp: ServeConnection_call request_of_def split: option.split)
qed

definition service_frame :: "byte list \<Rightarrow> byte list" where
  "service_frame p = le_bytes 4 (of_nat (length p) :: u32) @ p"

lemma unat_u32: "n < 2 ^ 32 \<Longrightarrow> unat (of_nat n :: u32) = n"
  by (simp add: unsigned_of_nat take_bit_nat_eq_self)

lemma request_of_frame:
  "0 < length p \<Longrightarrow> length p \<le> cap \<Longrightarrow> length p < 2 ^ 32 \<Longrightarrow> request_of cap (service_frame p @ rest) = Some p"
  by (simp add: request_of_def service_frame_def of_le_le_bytes unat_u32)

interpretation service_requests: prefix_codec service_frame
  "\<lambda>bs. map_option (\<lambda>p. (p, drop (4 + length p) bs)) (request_of (2 ^ 20) bs)" "\<lambda>p. 0 < length p \<and> length p \<le> 2 ^ 20"
proof
  fix p rest :: "byte list"
  assume "0 < length p \<and> length p \<le> 2 ^ 20"
  then have "request_of (2 ^ 20) (service_frame p @ rest) = Some p"
    by (intro request_of_frame) simp_all
  then show "map_option (\<lambda>q. (q, drop (4 + length q) (service_frame p @ rest))) (request_of (2 ^ 20) (service_frame p @ rest)) = Some (p, rest)"
    by (simp add: service_frame_def)
qed

lemma serve_answers:
  assumes "cred conn = Some up" and "stream (input conn) = service_frame p @ rest"
    and "0 < length p" and "length p \<le> max_message_bytes cfg" and "length p < 2 ^ 32"
    and "list_all (\<lambda>w. w > 0) (accepts conn)"
    and "length (h (AuthenticatePeer (Some up)) p) < 2 ^ 32"
    and "4 + length (h (AuthenticatePeer (Some up)) p) \<le> length (accepts conn)"
  shows "ServeConnection cfg (Some h) conn = (Some (AuthenticatePeer (Some up), p), service_frame (h (AuthenticatePeer (Some up)) p))"
proof -
  let ?s = "stream (input conn)" and ?r = "h (AuthenticatePeer (Some up)) p"
  have auth: "authenticated (AuthenticatePeer (cred conn))"
    by (cases up) (simp add: AuthenticatePeer_def assms(1))
  have s: "4 \<le> length ?s" "take 4 ?s = le_bytes 4 (of_nat (length p) :: u32)" "drop 4 ?s = p @ rest"
    by (simp_all add: assms(2) service_frame_def)
  obtain cs where rd: "ReadExact 4 (input conn) = (Some (le_bytes 4 (of_nat (length p) :: u32)), cs)" and cs: "stream cs = p @ rest"
    using ReadExact_Some [OF s(1)] ReadExact_rest [OF s(1)] s(2,3) by (cases "ReadExact 4 (input conn)") auto
  have "length p \<le> length (stream cs)" by (simp add: cs)
  from ReadExact_Some [OF this] obtain cs' where rp: "ReadExact (length p) cs = (Some p, cs')"
    by (cases "ReadExact (length p) cs") (auto simp: cs)
  have len: "unat (of_le_bytes (le_bytes 4 (of_nat (length p) :: u32)) :: u32) = length p"
    using assms(5) by (simp add: of_le_le_bytes unat_u32)
  have fr: "reply_frame ?r = (le_bytes 4 (of_nat (length ?r) :: u32), ?r)"
    using assms(7) by (simp add: reply_frame_def unat_u32)
  let ?hdr = "le_bytes 4 (of_nat (length ?r) :: u32)"
  obtain ws where w1: "WriteExact (accepts conn) ?hdr = (?hdr, True, ws)" "list_all (\<lambda>w. w > 0) ws" "length (accepts conn) \<le> length ws + 4"
    using WriteExact_all [OF assms(6), of ?hdr] assms(8) by (cases "WriteExact (accepts conn) ?hdr") auto
  have w2: "fst (WriteExact ws ?r) = ?r"
    using WriteExact_all [OF w1(2), of ?r] w1(3) assms(8) by simp
  show ?thesis
    using auth rd rp len fr w1(1) w2 assms(1,3,4)
    by (simp add: ServeConnection_def kFrameHeaderBytes_def service_frame_def)
qed

text \<open>C32: A request that fits is always answered: whatever pieces its bytes arrive in and whatever pieces
  the reply is accepted in, the peer receives the length of the handler's reply and then the
  reply, and the connection is done after this one exchange.\<close>

theorem request_is_answered:
  assumes "cred conn = Some up" and "stream (input conn) = service_frame p @ rest"
    and "0 < length p" and "length p \<le> max_message_bytes cfg" and "length p < 2 ^ 32"
    and "list_all (\<lambda>w. w > 0) (accepts conn)"
    and "length (h (AuthenticatePeer (Some up)) p) < 2 ^ 32"
    and "4 + length (h (AuthenticatePeer (Some up)) p) \<le> length (accepts conn)"
  shows "ServeConnection cfg (Some h) conn = (Some (AuthenticatePeer (Some up), p), service_frame (h (AuthenticatePeer (Some up)) p))"
  using assms by (rule serve_answers)

definition demo_conn :: connection where
  "demo_conn = \<lparr>cred = Some (1000, 42), input = [[2, 0], [0, 0, 7], [8, 9]], accepts = replicate 6 1\<rparr>"

lemma demo_conn_answered:
  assumes "3 \<le> max_message_bytes cfg" and "\<And>p. length (h p [7, 8]) < 2 ^ 32" and "4 + length (h (AuthenticatePeer (Some (1000, 42))) [7, 8]) \<le> n"
  shows "ServeConnection cfg (Some h) (demo_conn\<lparr>accepts := replicate n 1\<rparr>)
    = (Some (AuthenticatePeer (Some (1000, 42)), [7, 8]), service_frame (h (AuthenticatePeer (Some (1000, 42))) [7, 8]))"
proof -
  have "le_bytes 4 (2 :: u32) = [2, 0, 0, 0]" by code_simp
  then have f: "service_frame p = [2, 0, 0, 0] @ p" if "length p = 2" for p
    using that by (simp add: service_frame_def)
  show ?thesis
    using assms by (intro serve_answers [where rest = "[9]"]) (simp_all add: demo_conn_def stream_def f list_all_iff)
qed

theorem request_is_answered_witness:
  "snd (ServeConnection default_ipc_config (Some (\<lambda>_ m. rev m)) demo_conn) = [2, 0, 0, 0, 8, 7]"
proof -
  have le: "le_bytes 4 (2 :: u32) = [2, 0, 0, 0]" by code_simp
  then have f: "service_frame p = [2, 0, 0, 0] @ p" if "length p = 2" for p
    using that by (simp add: service_frame_def)
  have "ServeConnection default_ipc_config (Some (\<lambda>_ m. rev m)) demo_conn =
      (Some (AuthenticatePeer (Some (1000, 42)), [7, 8]), service_frame (rev [7, 8]))"
    by (rule request_is_answered [where rest = "[9]"])
      (simp_all add: demo_conn_def default_ipc_config_def stream_def f list_all_iff)
  then show ?thesis by (simp add: f)
qed

text \<open>Any local process the system can name is authenticated: the check never compares the user id with
  anything, so every user who can open the socket is served.\<close>

theorem any_user_is_authenticated:
  "authenticated (AuthenticatePeer (Some (u, p))) \<and> uid (AuthenticatePeer (Some (u, p))) = u"
  by (simp add: AuthenticatePeer_def)

section \<open>Start and stop\<close>

text \<open>Starting a fresh server either succeeds, with the listener open, the socket path in place and
  the accept thread running, or fails and leaves nothing behind: no descriptor, no path, no
  thread; stopping a started server releases all three again.\<close>

theorem start_all_or_nothing:
  assumes "ipc_endpoint cfg \<noteq> ''''" and "0 < fd"
  shows "(let (st, s) = ipc_start cfg fd b c l CreateIpcServer
    in status_ok st = running s
     \<and> running s = (b = 0 \<and> c = 0 \<and> l = 0 \<and> length (ipc_endpoint cfg) < 108)
     \<and> (if running s then os_fds s = [fd] \<and> os_paths s = [ipc_endpoint cfg] \<and> accept_thread s
        else os_fds s = [] \<and> os_paths s = [] \<and> \<not> accept_thread s \<and> listen_fd s = -1)
     \<and> os_fds (ipc_stop s) = [] \<and> os_paths (ipc_stop s) = [] \<and> \<not> running (ipc_stop s) \<and> \<not> accept_thread (ipc_stop s))"
  using assms by (simp add: ipc_start_def ipc_stop_def CreateIpcServer_def sun_path_size_def)

theorem start_all_or_nothing_witness:
  "os_fds (snd (ipc_start (default_ipc_config\<lparr>ipc_endpoint := ''/tmp/x''\<rparr>) 3 0 (-1) 0 CreateIpcServer)) = []"
  using start_all_or_nothing [of "default_ipc_config\<lparr>ipc_endpoint := ''/tmp/x''\<rparr>" 3 0 "-1" 0]
  by (simp add: default_ipc_config_def split_beta)

end
