(* ===== verification/Service_Daemon.thy ===== *)
theory Service_Daemon
  imports Ipc_Server
begin

text \<open>
  \<open>service/src/engine_contracts.h\<close>, \<open>engine_stubs.cpp\<close>, \<open>main.cpp\<close> and
  \<open>service_lifecycle.h/.cpp\<close>: the engine objects of the default build, the daemon that owns
  them, its bring-up, its pipeline and the command line; the daemon body, which runs beside the IPC
  server's accept thread, is in Daemon_Process. Sleeping and log output are left out. Reading past the
  end of a vector is undefined behaviour and is the result \<open>None\<close> of the encoder.
\<close>

section \<open>Engine objects\<close>

record svc_capturer =
  sc_display :: u32
  sc_seq :: u64
  sc_running :: bool

definition CreateCapturer :: svc_capturer where
  "CreateCapturer = \<lparr>sc_display = 0, sc_seq = 0, sc_running = False\<rparr>"

definition capturer_start :: "u32 \<Rightarrow> svc_capturer \<Rightarrow> status \<times> svc_capturer" where
  "capturer_start d c = (success, c\<lparr>sc_display := d, sc_running := True\<rparr>)"

definition capturer_stop :: "svc_capturer \<Rightarrow> svc_capturer" where
  "capturer_stop c = c\<lparr>sc_running := False\<rparr>"

definition next_frame :: "svc_capturer \<Rightarrow> video_frame result \<times> svc_capturer" where
  "next_frame c =
     (if \<not> sc_running c then (fail Again ''capturer stopped'', c)
      else
        (let seq = sc_seq c + 1
         in (good (default_frame\<lparr>frame_size := \<lparr>width = 64, height = 64\<rparr>, format := pixel_format_code BGRA8,
                    timestamp_us := seq * 16666, cpu_pixels := replicate (64 * 64 * 4) (ucast (seq AND 0xFF)),
                    is_idle := False\<rparr>),
             c\<lparr>sc_seq := seq\<rparr>)))"

record svc_encoder_config =
  sec_resolution :: Size
  sec_target_bitrate_bps :: u32
  sec_framerate :: u32

definition default_svc_encoder_config :: svc_encoder_config where
  "default_svc_encoder_config = \<lparr>sec_resolution = \<lparr>width = 0, height = 0\<rparr>, sec_target_bitrate_bps = 8000000, sec_framerate = 60\<rparr>"

record svc_encoder =
  se_cfg :: svc_encoder_config
  se_frame_count :: u64

definition CreateSvcEncoder :: svc_encoder where
  "CreateSvcEncoder = \<lparr>se_cfg = default_svc_encoder_config, se_frame_count = 0\<rparr>"

definition svc_configure :: "svc_encoder_config \<Rightarrow> svc_encoder \<Rightarrow> status \<times> svc_encoder" where
  "svc_configure cfg e = (success, e\<lparr>se_cfg := cfg\<rparr>)"

definition svc_encode :: "video_frame \<Rightarrow> svc_encoder \<Rightarrow> (encoded_packet result \<times> svc_encoder) option" where
  "svc_encode f e =
     (let key = se_frame_count e mod 60 = 0;
          n = length (cpu_pixels f) div 4 + 1
      in if n > length (cpu_pixels f) then None
         else Some (good \<lparr>packet_data = (if key then 0xFF else 0xAA) # take n (cpu_pixels f),
                           packet_timestamp_us = timestamp_us f, keyframe = key\<rparr>,
                    e\<lparr>se_frame_count := se_frame_count e + 1\<rparr>))"

definition svc_codec_name :: string where "svc_codec_name = ''stub-h264-floor''"

record key_event =
  ke_scancode :: u32
  ke_down :: bool

record pointer_event =
  pe_x :: u32
  pe_y :: u32
  pe_absolute :: bool

definition inject_pointer :: "pointer_event \<Rightarrow> status" where "inject_pointer ev = success"
definition inject_key :: "key_event \<Rightarrow> status" where "inject_key ev = success"

definition device_fingerprint :: "string result" where
  "device_fingerprint = good ''STUB-FINGERPRINT-0000-0000-0000-0000''"

record svc_transport =
  st_bytes :: u64
  st_running :: bool

definition CreateSvcTransport :: svc_transport where
  "CreateSvcTransport = \<lparr>st_bytes = 0, st_running = False\<rparr>"

definition svc_transport_start :: "svc_transport \<Rightarrow> status \<times> svc_transport" where
  "svc_transport_start t = (success, t\<lparr>st_running := True\<rparr>)"

definition svc_transport_stop :: "svc_transport \<Rightarrow> svc_transport" where
  "svc_transport_stop t = t\<lparr>st_running := False\<rparr>"

definition send_video :: "encoded_packet \<Rightarrow> svc_transport \<Rightarrow> status \<times> svc_transport" where
  "send_video p t =
     (if \<not> st_running t then (error_status ConnectionLost ''transport stopped'', t)
      else (success, t\<lparr>st_bytes := st_bytes t + of_nat (length (packet_data p))\<rparr>))"

record svc_sessions =
  next_id :: u64
  active :: u64
  last_peer :: string

definition new_svc_sessions :: svc_sessions where
  "new_svc_sessions = \<lparr>next_id = 0, active = 0, last_peer = ''''\<rparr>"

definition open_session :: "string \<Rightarrow> svc_sessions \<Rightarrow> u64 result \<times> svc_sessions" where
  "open_session p s =
     (let i = next_id s + 1 in (good i, s\<lparr>next_id := i, active := active s + 1, last_peer := p\<rparr>))"

definition close_session :: "u64 \<Rightarrow> svc_sessions \<Rightarrow> svc_sessions" where
  "close_session i s = (if active s > 0 then s\<lparr>active := active s - 1\<rparr> else s)"

section \<open>The daemon\<close>

record daemon =
  d_capturer :: svc_capturer
  d_encoder :: svc_encoder
  d_transport :: svc_transport
  d_ipc :: ipc_server
  d_sessions :: svc_sessions

definition HandleIpc :: ipc_handler where
  "HandleIpc peer msg = map of_char ''REDESK-ACK''"

definition service_socket :: string where "service_socket = ''/tmp/redesk-service.sock''"

text \<open>\<open>BuildDaemon\<close>, with the results of the four system calls of the IPC server's start; \<open>None\<close> is a
  fatal bring-up error. A failed IPC server is not fatal.\<close>

definition BuildDaemon :: "int \<Rightarrow> int \<Rightarrow> int \<Rightarrow> int \<Rightarrow> daemon option" where
  "BuildDaemon sock_ret bind_ret chmod_ret listen_ret =
     (let (s1, t) = svc_transport_start CreateSvcTransport in
      if \<not> status_ok s1 then None
      else
        (let (s2, c) = capturer_start 0 CreateCapturer in
         if \<not> status_ok s2 then None
         else
           (let (s3, e) = svc_configure \<lparr>sec_resolution = \<lparr>width = 64, height = 64\<rparr>, sec_target_bitrate_bps = 8000000, sec_framerate = 60\<rparr> CreateSvcEncoder in
            if \<not> status_ok s3 then None
            else
              (let (_, ipc) = ipc_start (default_ipc_config\<lparr>ipc_endpoint := service_socket\<rparr>) sock_ret bind_ret chmod_ret listen_ret CreateIpcServer
               in Some \<lparr>d_capturer = c, d_encoder = e, d_transport = t, d_ipc = ipc, d_sessions = new_svc_sessions\<rparr>))))"

text \<open>One turn of the pipeline; \<open>None\<close> is undefined behaviour in the encoder.\<close>

definition PumpPipeline :: "daemon \<Rightarrow> (bool \<times> daemon) option" where
  "PumpPipeline d =
     (case next_frame (d_capturer d) of
        (Inl s, c) \<Rightarrow> Some (code s = Again, d\<lparr>d_capturer := c\<rparr>)
      | (Inr f, c) \<Rightarrow>
          (case svc_encode f (d_encoder d) of
             None \<Rightarrow> None
           | Some (Inl _, e) \<Rightarrow> Some (False, d\<lparr>d_capturer := c, d_encoder := e\<rparr>)
           | Some (Inr pkt, e) \<Rightarrow>
               (let (s, t) = send_video pkt (d_transport d)
                in Some (status_ok s, d\<lparr>d_capturer := c, d_encoder := e, d_transport := t\<rparr>))))"

text \<open>The cap of the run loop.\<close>

definition kMaxStubTicks :: nat where "kMaxStubTicks = 180"

section \<open>Life cycle and command line\<close>

record install_spec =
  service_id :: string
  spec_display_name :: string
  spec_description :: string
  executable_path :: string
  start_on_boot :: bool

definition default_install_spec :: install_spec where
  "default_install_spec = \<lparr>service_id = ''com.redesk.service'', spec_display_name = ''REDesk Remote Desktop Service'',
     spec_description = ''Headless privileged REDesk capture/input/transport engine'', executable_path = '''',
     start_on_boot = True\<rparr>"

definition lifecycle_install :: "install_spec \<Rightarrow> status" where "lifecycle_install spec = success"
definition lifecycle_uninstall :: "install_spec \<Rightarrow> status" where "lifecycle_uninstall spec = success"

definition run_as_service :: "install_spec \<Rightarrow> int option option \<Rightarrow> int option" where
  "run_as_service spec body = (case body of Some b \<Rightarrow> b | None \<Rightarrow> Some 0)"

definition backend_name :: string where "backend_name = ''stub-foreground''"

definition AbsoluteSelfPath :: "string option \<Rightarrow> string" where
  "AbsoluteSelfPath argv0 = (case argv0 of Some a \<Rightarrow> a | None \<Rightarrow> ''redesk-service'')"

text \<open>The exit code of the process; \<open>body\<close> is what the daemon body returned, \<open>None\<close> if it never did.\<close>

definition service_main :: "string list \<Rightarrow> int option \<Rightarrow> int option" where
  "service_main argv body =
     (let mode = (case argv of _ # m # _ \<Rightarrow> m | _ \<Rightarrow> ''--foreground'');
          spec = default_install_spec\<lparr>executable_path := AbsoluteSelfPath (case argv of a # _ \<Rightarrow> Some a | [] \<Rightarrow> None)\<rparr>
      in if mode = ''--install'' then Some (if status_ok (lifecycle_install spec) then 0 else 1)
         else if mode = ''--uninstall'' then Some (if status_ok (lifecycle_uninstall spec) then 0 else 1)
         else if mode = ''--run'' then run_as_service spec (Some body)
         else if mode = ''--foreground'' then body
         else Some 2)"

section \<open>Facts\<close>

text \<open>The service's encoder copies a quarter of the pixels and one more byte: for a frame without
  pixels that reads past the end of an empty vector; for every other frame it stays inside and the
  packet carries the marker byte and those pixels, a keyframe on every sixtieth call.\<close>

theorem encoder_reads_past_empty_frame:
  "svc_encode f e =
     (if cpu_pixels f = [] then None
      else Some (good \<lparr>packet_data = (if se_frame_count e mod 60 = 0 then 0xFF else 0xAA)
                          # take (length (cpu_pixels f) div 4 + 1) (cpu_pixels f),
                        packet_timestamp_us = timestamp_us f, keyframe = (se_frame_count e mod 60 = 0)\<rparr>,
                 e\<lparr>se_frame_count := se_frame_count e + 1\<rparr>))"
proof (cases "cpu_pixels f")
  case Nil
  then show ?thesis by (simp add: svc_encode_def)
next
  case (Cons b bs)
  then have "length (cpu_pixels f) div 4 + 1 \<le> length (cpu_pixels f)" by simp
  with Cons show ?thesis by (auto simp: svc_encode_def Let_def)
qed

lemma pump_running:
  assumes "sc_running (d_capturer d)" and "st_running (d_transport d)"
  shows "\<exists>d'. PumpPipeline d = Some (True, d') \<and> sc_running (d_capturer d') \<and> st_running (d_transport d')
    \<and> st_bytes (d_transport d') = st_bytes (d_transport d) + 4098
    \<and> sc_seq (d_capturer d') = sc_seq (d_capturer d) + 1
    \<and> d_sessions d' = d_sessions d \<and> d_ipc d' = d_ipc d"
  using assms by (simp add: PumpPipeline_def next_frame_def svc_encode_def send_video_def good_def default_frame_def)

lemma build_daemon:
  "\<exists>ipc. BuildDaemon a b c l = Some \<lparr>d_capturer = \<lparr>sc_display = 0, sc_seq = 0, sc_running = True\<rparr>,
     d_encoder = \<lparr>se_cfg = \<lparr>sec_resolution = \<lparr>width = 64, height = 64\<rparr>, sec_target_bitrate_bps = 8000000, sec_framerate = 60\<rparr>, se_frame_count = 0\<rparr>,
     d_transport = \<lparr>st_bytes = 0, st_running = True\<rparr>, d_ipc = ipc, d_sessions = new_svc_sessions\<rparr>"
  by (simp add: BuildDaemon_def svc_transport_start_def capturer_start_def svc_configure_def CreateSvcTransport_def
      CreateCapturer_def CreateSvcEncoder_def split: prod.splits)

text \<open>Closing any session identifier ends a session: the bookkeeping does not look at the
  identifier, so a close with an unknown one drops the count of open sessions as well.\<close>

theorem close_session_ignores_id: "close_session i s = close_session j s"
  by (simp add: close_session_def)

lemma service_exit_codes:
  "service_main [a, ''--install''] body = Some 0"
  "service_main [a, ''--uninstall''] body = Some 0"
  "service_main [a] body = body"
  "service_main [a, ''--run''] body = body"
  "service_main [a, ''--help''] body = Some 2"
  by (simp_all add: service_main_def run_as_service_def lifecycle_install_def lifecycle_uninstall_def)

end
