(* ===== verification/Ui_Client.thy ===== *)
theory Ui_Client
  imports Interfaces
begin

text \<open>
  \<open>ui/src/ServiceClient.h/.cpp\<close>: the UI's side of the local IPC channel. The client is a record
  whose last field collects, in order, the signals it emits and the calls it makes on its
  \<open>QLocalSocket\<close>. What the socket answers (whether it is connected, what it read, how many bytes
  it wrote, its error text) is an argument. A \<open>QString\<close> is the list of its UTF-16 code units.
\<close>

section \<open>State\<close>

type_synonym qstring = "u16 list"

definition q :: "string \<Rightarrow> qstring" where "q s = map of_char s"

datatype client_state = Disconnected | Connecting | Authenticating | Ready | ClientError

datatype client_event =
    ClientStateChanged client_state
  | MessageReceived u16 "byte list"
  | ErrorOccurred qstring
  | ConnectToServer qstring
  | DisconnectFromServer
  | Written "byte list"

record service_client =
  rx_buffer :: "byte list"
  auth_token :: "byte list"
  client_state :: client_state
  client_log :: "client_event list"

definition new_service_client :: service_client where
  "new_service_client = \<lparr>rx_buffer = [], auth_token = [], client_state = Disconnected, client_log = []\<rparr>"

definition kMaxFrameBytes :: u32 where "kMaxFrameBytes = push_bit 20 1"

definition defaultServerName :: qstring where "defaultServerName = q ''redesk.service.ipc''"

definition client_emit :: "client_event \<Rightarrow> service_client \<Rightarrow> service_client" where
  "client_emit e c = c\<lparr>client_log := client_log c @ [e]\<rparr>"

section \<open>Operations\<close>

definition setClientState :: "client_state \<Rightarrow> service_client \<Rightarrow> service_client" where
  "setClientState s c =
     (if client_state c = s then c else client_emit (ClientStateChanged s) (c\<lparr>client_state := s\<rparr>))"

definition connectToService :: "qstring \<Rightarrow> byte list \<Rightarrow> service_client \<Rightarrow> service_client" where
  "connectToService serverName authToken c =
     (if client_state c = Connecting \<or> client_state c = Authenticating \<or> client_state c = Ready then c
      else
        (let c = c\<lparr>auth_token := authToken\<rparr>;
             c = c\<lparr>rx_buffer := []\<rparr>;
             c = setClientState Connecting c;
             name = (if serverName = [] then defaultServerName else serverName)
         in client_emit (ConnectToServer name) c))"

definition disconnectFromService :: "bool \<Rightarrow> service_client \<Rightarrow> service_client" where
  "disconnectFromService socket_up c =
     setClientState Disconnected (if socket_up then client_emit DisconnectFromServer c else c)"

definition beginAuth :: "service_client \<Rightarrow> service_client" where
  "beginAuth c = (if auth_token c = [] then c else setClientState Ready c)"

definition onConnected :: "service_client \<Rightarrow> service_client" where
  "onConnected c = beginAuth (setClientState Authenticating c)"

definition onDisconnected :: "service_client \<Rightarrow> service_client" where
  "onDisconnected c = setClientState Disconnected c"

definition onSocketError :: "qstring \<Rightarrow> service_client \<Rightarrow> service_client" where
  "onSocketError reason c = setClientState ClientError (client_emit (ErrorOccurred reason) c)"

text \<open>\<open>written\<close> is what the socket's \<open>write\<close> returns; the size is truncated to 32 bits before it is
  compared.\<close>

definition sendCommand :: "int \<Rightarrow> byte list \<Rightarrow> service_client \<Rightarrow> bool \<times> service_client" where
  "sendCommand written framedCommand c =
     (if client_state c \<noteq> Ready then (False, c)
      else if (of_nat (length framedCommand) :: u32) > kMaxFrameBytes then (False, c)
      else (written = int (length framedCommand), client_emit (Written framedCommand) c))"

definition qFromBigEndian :: "byte list \<Rightarrow> 'a::len word" where
  "qFromBigEndian bs = of_le_bytes (rev bs)"

definition kLenBytes :: nat where "kLenBytes = 4"
definition kOpBytes :: nat where "kOpBytes = 2"

function drainFrames :: "bool \<Rightarrow> service_client \<Rightarrow> service_client" where
  "drainFrames socket_up c =
     (if length (rx_buffer c) < kLenBytes then c
      else
        (let frameLen = (qFromBigEndian (take kLenBytes (rx_buffer c)) :: u32) in
         if frameLen < of_nat kOpBytes \<or> frameLen > kMaxFrameBytes then
           (let c = client_emit (ErrorOccurred (q ''IPC frame size out of bounds'')) c;
                c = disconnectFromService socket_up c
            in c\<lparr>rx_buffer := []\<rparr>)
         else
           (let tot = kLenBytes + unat frameLen in
            if length (rx_buffer c) < tot then c
            else
              (let opcode = qFromBigEndian (take kOpBytes (drop kLenBytes (rx_buffer c)));
                   payload = take (unat frameLen - kOpBytes) (drop (kLenBytes + kOpBytes) (rx_buffer c));
                   c = c\<lparr>rx_buffer := drop tot (rx_buffer c)\<rparr>
               in drainFrames socket_up (client_emit (MessageReceived opcode payload) c)))))"
  by pat_completeness auto

termination
  by (relation "measure (\<lambda>(up, c). length (rx_buffer c))") (auto simp: client_emit_def kLenBytes_def)

declare drainFrames.simps [simp del]

definition onReadyRead :: "bool \<Rightarrow> byte list \<Rightarrow> service_client \<Rightarrow> service_client" where
  "onReadyRead socket_up bytes c = drainFrames socket_up (c\<lparr>rx_buffer := rx_buffer c @ bytes\<rparr>)"

section \<open>Framing as a codec\<close>

text \<open>The frame the comment of \<open>drainFrames\<close> describes, and one frame read off a buffer.\<close>

definition ui_frame :: "u16 \<times> byte list \<Rightarrow> byte list" where
  "ui_frame m = rev (le_bytes 4 (of_nat (kOpBytes + length (snd m)) :: u32)) @ rev (le_bytes 2 (fst m)) @ snd m"

definition ui_frame_ok :: "u16 \<times> byte list \<Rightarrow> bool" where
  "ui_frame_ok m \<longleftrightarrow> kOpBytes + length (snd m) \<le> unat kMaxFrameBytes"

definition bad_prefix :: "byte list \<Rightarrow> bool" where
  "bad_prefix bs \<longleftrightarrow> kLenBytes \<le> length bs \<and>
     (let n = (qFromBigEndian (take kLenBytes bs) :: u32) in n < of_nat kOpBytes \<or> n > kMaxFrameBytes)"

definition ui_unframe :: "byte list \<Rightarrow> ((u16 \<times> byte list) \<times> byte list) option" where
  "ui_unframe bs =
     (if length bs < kLenBytes \<or> bad_prefix bs then None
      else
        (let n = unat (qFromBigEndian (take kLenBytes bs) :: u32) in
         if length bs < kLenBytes + n then None
         else Some ((qFromBigEndian (take kOpBytes (drop kLenBytes bs)),
                     take (n - kOpBytes) (drop (kLenBytes + kOpBytes) bs)), drop (kLenBytes + n) bs)))"

lemma unat_kMaxFrameBytes: "unat kMaxFrameBytes = 1048576"
  by (simp add: kMaxFrameBytes_def push_bit_eq_mult)

lemma length_ui_frame [simp]: "length (ui_frame m) = 6 + length (snd m)"
  by (simp add: ui_frame_def)

lemma ui_frame_header:
  assumes "ui_frame_ok m"
  shows "unat (qFromBigEndian (take kLenBytes (ui_frame m @ r)) :: u32) = 2 + length (snd m)"
proof -
  have "2 + length (snd m) < 2 ^ 32"
    using assms by (simp add: ui_frame_ok_def unat_kMaxFrameBytes kOpBytes_def)
  then have "unat (of_nat (2 + length (snd m)) :: u32) = 2 + length (snd m)"
    by (simp only: unsigned_of_nat take_bit_nat_eq_self word_size len_of_numeral_defs) (simp add: take_bit_nat_eq_self)
  moreover have "qFromBigEndian (take kLenBytes (ui_frame m @ r)) = (of_nat (2 + length (snd m)) :: u32)"
    by (simp add: qFromBigEndian_def ui_frame_def kLenBytes_def kOpBytes_def of_le_le_bytes)
  ultimately show ?thesis by simp
qed

lemma bad_prefix_iff:
  "bad_prefix bs \<longleftrightarrow> kLenBytes \<le> length bs \<and>
     (let n = unat (qFromBigEndian (take kLenBytes bs) :: u32) in n < 2 \<or> 1048576 < n)"
  by (simp add: bad_prefix_def word_less_nat_alt unat_kMaxFrameBytes kOpBytes_def)

interpretation ui_frames: prefix_codec ui_frame ui_unframe ui_frame_ok
proof
  fix m rest
  assume ok: "ui_frame_ok m"
  then have "2 + length (snd m) \<le> 1048576"
    by (simp add: ui_frame_ok_def unat_kMaxFrameBytes kOpBytes_def)
  with ui_frame_header [OF ok, of rest] have "\<not> bad_prefix (ui_frame m @ rest)"
    by (simp add: bad_prefix_iff)
  moreover have "qFromBigEndian (take kOpBytes (drop kLenBytes (ui_frame m @ rest))) = fst m"
    by (simp add: ui_frame_def kLenBytes_def kOpBytes_def qFromBigEndian_def of_le_le_bytes)
  moreover have "take (length (snd m)) (drop (kLenBytes + kOpBytes) (ui_frame m @ rest)) = snd m"
    by (simp add: ui_frame_def kLenBytes_def kOpBytes_def)
  ultimately show "ui_unframe (ui_frame m @ rest) = Some (m, rest)"
    using ui_frame_header [OF ok, of rest]
    by (simp add: ui_unframe_def kLenBytes_def kOpBytes_def)
qed

section \<open>Draining the buffer\<close>

lemma drain_frame:
  assumes "ui_unframe (rx_buffer c) = Some ((op, p), rest)"
  shows "drainFrames up c = drainFrames up (client_emit (MessageReceived op p) (c\<lparr>rx_buffer := rest\<rparr>))"
  using assms
  by (subst drainFrames.simps) (auto simp: ui_unframe_def bad_prefix_def split: if_splits)

lemma drain_wait: "ui_unframe (rx_buffer c) = None \<Longrightarrow> \<not> bad_prefix (rx_buffer c) \<Longrightarrow> drainFrames up c = c"
  by (subst drainFrames.simps) (auto simp: ui_unframe_def bad_prefix_def split: if_splits)

lemma drain_bad:
  "bad_prefix (rx_buffer c) \<Longrightarrow> drainFrames up c =
     (disconnectFromService up (client_emit (ErrorOccurred (q ''IPC frame size out of bounds'')) c))\<lparr>rx_buffer := []\<rparr>"
  by (subst drainFrames.simps) (auto simp: bad_prefix_def)

lemma ui_unframe_length: "ui_unframe bs = Some (m, rest) \<Longrightarrow> length rest < length bs \<and> length (snd m) \<le> 1048574"
  by (auto simp: ui_unframe_def bad_prefix_iff kLenBytes_def kOpBytes_def split: if_splits)

lemma ui_unframe_bad: "bad_prefix bs \<Longrightarrow> ui_unframe bs = None"
  by (simp add: ui_unframe_def)

text \<open>Induction over the messages in the buffer.\<close>

lemma drain_induct [case_names frame bad wait]:
  assumes "\<And>c op p rest. ui_unframe (rx_buffer c) = Some ((op, p), rest) \<Longrightarrow>
      P (client_emit (MessageReceived op p) (c\<lparr>rx_buffer := rest\<rparr>)) \<Longrightarrow> P c"
    and "\<And>c. bad_prefix (rx_buffer c) \<Longrightarrow> P c"
    and "\<And>c. ui_unframe (rx_buffer c) = None \<Longrightarrow> \<not> bad_prefix (rx_buffer c) \<Longrightarrow> P c"
  shows "P (c :: service_client)"
proof (induction "length (rx_buffer c)" arbitrary: c rule: less_induct)
  case less
  show ?case
  proof (cases "ui_unframe (rx_buffer c)")
    case None
    then show ?thesis using assms(2,3) by blast
  next
    case (Some x)
    then obtain op p rest where x: "ui_unframe (rx_buffer c) = Some ((op, p), rest)" by (cases x) auto
    from ui_unframe_length [OF x] have "P (client_emit (MessageReceived op p) (c\<lparr>rx_buffer := rest\<rparr>))"
      by (intro less) (simp add: client_emit_def)
    with x show ?thesis by (rule assms(1))
  qed
qed

lemma prefix_waits:
  assumes ok: "ui_frame_ok m" and split: "ui_frame m = bs @ r" and r: "r \<noteq> []"
  shows "ui_unframe bs = None \<and> \<not> bad_prefix bs"
proof (cases "kLenBytes \<le> length bs")
  case False
  then show ?thesis by (simp add: ui_unframe_def bad_prefix_def)
next
  case True
  have "take kLenBytes (ui_frame m) = take kLenBytes bs" using split True by simp
  then have n: "unat (qFromBigEndian (take kLenBytes bs) :: u32) = 2 + length (snd m)"
    using ui_frame_header [OF ok, of "[]"] by simp
  have "length bs + length r = 6 + length (snd m)"
    using arg_cong [OF split, of length] by simp
  moreover have "0 < length r" using r by simp
  ultimately have "length bs < kLenBytes + (2 + length (snd m))" unfolding kLenBytes_def by linarith
  moreover have "\<not> bad_prefix bs"
    using n ok by (simp add: bad_prefix_iff ui_frame_ok_def unat_kMaxFrameBytes kOpBytes_def)
  ultimately show ?thesis using n by (simp add: ui_unframe_def)
qed

lemma drain_stream:
  assumes "list_all ui_frame_ok msgs" and "rx_buffer c @ rest = concat (map ui_frame msgs)"
  shows "\<exists>k buf. drainFrames up c = c\<lparr>rx_buffer := buf, client_log := client_log c @ map (case_prod MessageReceived) (take k msgs)\<rparr>
    \<and> buf @ rest = concat (map ui_frame (drop k msgs)) \<and> ui_unframe buf = None"
  using assms
proof (induction msgs arbitrary: c)
  case Nil
  then have "rx_buffer c = []" by simp
  then have "ui_unframe (rx_buffer c) = None" "\<not> bad_prefix (rx_buffer c)"
    by (simp_all add: ui_unframe_def bad_prefix_def kLenBytes_def)
  with drain_wait [of c up] Nil show ?case by (intro exI [of _ 0] exI [of _ "rx_buffer c"]) simp
next
  case (Cons m msgs)
  then have ok: "ui_frame_ok m" by simp
  from Cons.prems(2) have e: "rx_buffer c @ rest = ui_frame m @ concat (map ui_frame msgs)" by simp
  show ?case
  proof (cases "length (ui_frame m) \<le> length (rx_buffer c)")
    case True
    with e obtain buf where buf: "rx_buffer c = ui_frame m @ buf" "buf @ rest = concat (map ui_frame msgs)"
      by (metis append_eq_append_conv_if append_take_drop_id append_eq_conv_conj)
    obtain op p where m: "m = (op, p)" by (cases m)
    let ?c = "client_emit (MessageReceived op p) (c\<lparr>rx_buffer := buf\<rparr>)"
    have "rx_buffer ?c @ rest = concat (map ui_frame msgs)" using buf(2) by (simp add: client_emit_def)
    from Cons.IH [OF _ this] Cons.prems(1) obtain k b where
      k: "drainFrames up ?c = ?c\<lparr>rx_buffer := b, client_log := client_log ?c @ map (case_prod MessageReceived) (take k msgs)\<rparr>"
        "b @ rest = concat (map ui_frame (drop k msgs))" "ui_unframe b = None" by auto
    have "drainFrames up c = drainFrames up ?c"
      using ui_frames.dec_enc [OF ok, of buf] buf(1) m by (intro drain_frame) simp
    with k show ?thesis
      by (intro exI [of _ "Suc k"] exI [of _ b]) (simp add: client_emit_def m)
  next
    case False
    with e obtain r where r: "ui_frame m = rx_buffer c @ r" "r \<noteq> []"
      by (metis append_eq_append_conv_if append_take_drop_id append_Nil2 append_eq_conv_conj order_refl nat_le_linear)
    from prefix_waits [OF ok r] drain_wait [of c up] Cons.prems(2) show ?thesis
      by (intro exI [of _ 0] exI [of _ "rx_buffer c"]) simp
  qed
qed

lemma read_chunks:
  assumes "list_all ui_frame_ok msgs" and "rx_buffer c @ concat chunks = concat (map ui_frame msgs)"
    and "ui_unframe (rx_buffer c) = None"
  shows "foldl (\<lambda>c bs. onReadyRead up bs c) c chunks
    = c\<lparr>rx_buffer := [], client_log := client_log c @ map (case_prod MessageReceived) msgs\<rparr>"
  using assms
proof (induction chunks arbitrary: c msgs)
  case Nil
  have "msgs = []"
  proof (rule ccontr)
    assume "msgs \<noteq> []"
    then obtain m ms where "msgs = m # ms" by (cases msgs) auto
    with Nil ui_frames.dec_enc [of m "concat (map ui_frame ms)"] show False by simp
  qed
  with Nil show ?case by simp
next
  case (Cons bs chunks)
  let ?c = "c\<lparr>rx_buffer := rx_buffer c @ bs\<rparr>"
  have "rx_buffer ?c @ concat chunks = concat (map ui_frame msgs)" using Cons.prems(2) by simp
  from drain_stream [OF Cons.prems(1) this, of up] obtain k buf where
    k: "drainFrames up ?c = ?c\<lparr>rx_buffer := buf, client_log := client_log ?c @ map (case_prod MessageReceived) (take k msgs)\<rparr>"
      "buf @ concat chunks = concat (map ui_frame (drop k msgs))" "ui_unframe buf = None" by blast
  let ?d = "drainFrames up ?c"
  have "foldl (\<lambda>c bs. onReadyRead up bs c) ?d chunks
    = ?d\<lparr>rx_buffer := [], client_log := client_log ?d @ map (case_prod MessageReceived) (drop k msgs)\<rparr>"
    using Cons.prems(1) k by (intro Cons.IH) (auto simp: list_all_iff dest: in_set_dropD)
  moreover have "map (case_prod MessageReceived) (take k msgs) @ map (case_prod MessageReceived) (drop k msgs)
    = map (case_prod MessageReceived) msgs"
    by (simp flip: map_append)
  ultimately show ?case by (simp add: onReadyRead_def k(1))
qed

section \<open>Properties\<close>

text \<open>C23: However the socket cuts a sequence of well-formed frames into reads, the client signals
  exactly those messages, in order, and keeps nothing in its buffer.\<close>

theorem ui_frames_delivered:
  assumes "list_all ui_frame_ok msgs" and "concat chunks = concat (map ui_frame msgs)" and "rx_buffer c = []"
  shows "foldl (\<lambda>c bs. onReadyRead up bs c) c chunks
    = c\<lparr>client_log := client_log c @ map (\<lambda>(op, p). MessageReceived op p) msgs\<rparr>"
  using read_chunks [of msgs c chunks up] assms
  by (simp add: ui_unframe_def kLenBytes_def)

theorem ui_frames_delivered_witness:
  "client_log (foldl (\<lambda>c bs. onReadyRead True bs c) new_service_client [[0, 0, 0], [3, 0, 7, 9, 0, 0, 0], [2, 1, 2]])
    = [MessageReceived 7 [9], MessageReceived 0x102 []]"
proof -
  have "list_all ui_frame_ok [(7, [9]), (0x102, [])]"
    by (simp add: ui_frame_ok_def unat_kMaxFrameBytes kOpBytes_def)
  moreover have "concat [[0, 0, 0], [3, 0, 7, 9, 0, 0, 0], [2, 1, 2]] = concat (map ui_frame [(7, [9]), (0x102, [])])"
    by code_simp
  ultimately show ?thesis
    using ui_frames_delivered [of "[(7, [9]), (0x102, [])]" "[[0, 0, 0], [3, 0, 7, 9, 0, 0, 0], [2, 1, 2]]" new_service_client True]
    by (simp add: new_service_client_def)
qed

definition message_bounded :: "client_event \<Rightarrow> bool" where
  "message_bounded e = (case e of MessageReceived op p \<Rightarrow> length p \<le> 1048574 | _ \<Rightarrow> True)"

lemma drain_bounded:
  "length (rx_buffer (drainFrames up c)) < 1048580
    \<and> (\<exists>new. client_log (drainFrames up c) = client_log c @ new \<and> list_all message_bounded new)"
proof (induction c rule: drain_induct)
  case (frame c op p rest)
  then obtain new where "client_log (drainFrames up c) = client_log c @ MessageReceived op p # new"
    "list_all message_bounded new"
    by (auto simp: drain_frame [OF frame(1), of up]) (auto simp: client_emit_def)
  moreover have "message_bounded (MessageReceived op p)"
    using ui_unframe_length [OF frame(1)] by (simp add: message_bounded_def)
  ultimately show ?case
    using frame by (auto simp: drain_frame [OF frame(1), of up])
next
  case (bad c)
  then show ?case
    by (simp add: drain_bad disconnectFromService_def setClientState_def client_emit_def message_bounded_def)
next
  case (wait c)
  then have "length (rx_buffer c) < 1048580"
    by (auto simp: ui_unframe_def bad_prefix_iff kLenBytes_def split: if_splits)
  with wait show ?case by (simp add: drain_wait)
qed

text \<open>C33: Whatever bytes a peer sends, after each read the client buffers less than four bytes more
  than one maximal frame, and no message it signals is longer than a frame may be.\<close>

theorem ui_untrusted_input_bounded:
  "length (rx_buffer (onReadyRead up bytes c)) < 4 + unat kMaxFrameBytes
    \<and> (\<exists>new. client_log (onReadyRead up bytes c) = client_log c @ new
        \<and> list_all (\<lambda>e. case e of MessageReceived op p \<Rightarrow> kOpBytes + length p \<le> unat kMaxFrameBytes | _ \<Rightarrow> True) new)"
proof -
  let ?c = "c\<lparr>rx_buffer := rx_buffer c @ bytes\<rparr>"
  from drain_bounded [of up ?c] obtain new where
    "client_log (drainFrames up ?c) = client_log c @ new" "list_all message_bounded new" by auto
  moreover have "message_bounded e \<Longrightarrow> (case e of MessageReceived op p \<Rightarrow> kOpBytes + length p \<le> unat kMaxFrameBytes | _ \<Rightarrow> True)" for e
    by (cases e) (simp_all add: message_bounded_def unat_kMaxFrameBytes kOpBytes_def)
  ultimately show ?thesis
    using drain_bounded [of up ?c]
    by (auto simp: onReadyRead_def unat_kMaxFrameBytes list_all_iff)
qed

text \<open>A length prefix below two or above 1 MiB closes the connection: the client signals the
  error, hangs up, ends disconnected with an empty buffer and delivers nothing from those bytes.\<close>

theorem ui_bad_length_closes:
  assumes "length hdr = 4" and "unat (qFromBigEndian hdr :: u32) < 2 \<or> 1048576 < unat (qFromBigEndian hdr :: u32)"
    and "rx_buffer c = []" and "client_state c \<noteq> Disconnected"
  shows "onReadyRead True (hdr @ body) c
    = c\<lparr>client_state := Disconnected,
        client_log := client_log c @ [ErrorOccurred (q ''IPC frame size out of bounds''), DisconnectFromServer,
          ClientStateChanged Disconnected]\<rparr>"
proof -
  have "bad_prefix (hdr @ body)" using assms(1,2) by (auto simp: bad_prefix_iff kLenBytes_def)
  then show ?thesis
    using assms(3,4) by (simp add: onReadyRead_def drain_bad disconnectFromService_def setClientState_def client_emit_def)
qed

theorem ui_bad_length_closes_witness:
  "client_state (onReadyRead True [0, 0, 0, 1, 5] (new_service_client\<lparr>client_state := Ready\<rparr>)) = Disconnected"
proof -
  have "unat (qFromBigEndian [0, 0, 0, 1] :: u32) < 2" by code_simp
  then show ?thesis
    using ui_bad_length_closes [of "[0, 0, 0, 1]" "new_service_client\<lparr>client_state := Ready\<rparr>" "[5]"]
    by (simp add: new_service_client_def)
qed

section \<open>Histories\<close>

datatype client_op = COpConnect qstring "byte list" | COpDisconnect bool | COpConnected | COpDisconnected
  | COpRead bool "byte list" | COpError qstring | COpSend int "byte list"

fun client_step :: "service_client \<Rightarrow> client_op \<Rightarrow> service_client" where
  "client_step c (COpConnect name token) = connectToService name token c"
| "client_step c (COpDisconnect up) = disconnectFromService up c"
| "client_step c COpConnected = onConnected c"
| "client_step c COpDisconnected = onDisconnected c"
| "client_step c (COpRead up bytes) = onReadyRead up bytes c"
| "client_step c (COpError reason) = onSocketError reason c"
| "client_step c (COpSend written cmd) = snd (sendCommand written cmd c)"

lemma drain_state:
  "client_state (drainFrames up c) \<in> {client_state c, Disconnected} \<and> auth_token (drainFrames up c) = auth_token c
    \<and> (\<exists>new. client_log (drainFrames up c) = client_log c @ new \<and> (\<forall>b. Written b \<notin> set new))"
proof (induction c rule: drain_induct)
  case (frame c op p rest)
  then show ?case by (simp add: drain_frame [OF frame(1), of up]) (auto simp: client_emit_def)
next
  case (bad c)
  then show ?case by (simp add: drain_bad disconnectFromService_def setClientState_def client_emit_def)
qed (simp add: drain_wait)

definition ready_has_token :: "service_client \<Rightarrow> bool" where
  "ready_has_token c \<longleftrightarrow> (client_state c = Ready \<longrightarrow> auth_token c \<noteq> [])"

interpretation client_run: run_invariant client_step ready_has_token
proof
  fix c e
  assume "ready_has_token c"
  then show "ready_has_token (client_step c e)"
  proof (cases e)
    case (COpRead up bytes)
    then show ?thesis
      using drain_state [of up "c\<lparr>rx_buffer := rx_buffer c @ bytes\<rparr>"] \<open>ready_has_token c\<close>
      by (auto simp: ready_has_token_def onReadyRead_def)
  qed (auto simp: ready_has_token_def connectToService_def disconnectFromService_def onConnected_def
      onDisconnected_def onSocketError_def beginAuth_def sendCommand_def setClientState_def client_emit_def)
qed

text \<open>The client is ready to send only with an authentication token: in every history of calls
  and socket events, a command is accepted only while a non-empty token is stored, and is never
  longer than 1 MiB modulo the 32-bit truncation of its size.\<close>

theorem ui_commands_need_token:
  assumes "fst (sendCommand w cmd (foldl client_step new_service_client ops))"
  shows "auth_token (foldl client_step new_service_client ops) \<noteq> []
    \<and> length cmd mod 2 ^ 32 \<le> unat kMaxFrameBytes \<and> w = int (length cmd)"
proof -
  have "ready_has_token (foldl client_step new_service_client ops)"
    by (rule client_run.run_inv) (simp add: ready_has_token_def new_service_client_def)
  with assms show ?thesis
    by (auto simp: ready_has_token_def sendCommand_def word_less_nat_alt unsigned_of_nat take_bit_eq_mod split: if_splits)
qed

theorem ui_commands_need_token_witness:
  "auth_token (foldl client_step new_service_client [COpConnect [] [1], COpConnected]) \<noteq> []"
proof -
  have "fst (sendCommand 1 [9] (foldl client_step new_service_client [COpConnect [] [1], COpConnected]))"
    by code_simp
  then show ?thesis using ui_commands_need_token by blast
qed

text \<open>The messages the client signals do not depend on authentication: with no token it stays in
  \<open>Authenticating\<close>, and there it delivers every well-formed frame to the layers above.\<close>

theorem ui_delivers_before_authentication:
  assumes "ui_frame_ok (op, p)"
  shows "let c = onReadyRead True (ui_frame (op, p)) (onConnected (connectToService [] [] new_service_client))
    in client_state c = Authenticating \<and> last (client_log c) = MessageReceived op p"
proof -
  let ?c = "onConnected (connectToService [] [] new_service_client)"
  have c: "rx_buffer ?c = []" "client_state ?c = Authenticating"
    by (simp_all add: onConnected_def beginAuth_def connectToService_def setClientState_def client_emit_def new_service_client_def)
  have "foldl (\<lambda>c bs. onReadyRead True bs c) ?c [ui_frame (op, p)]
    = ?c\<lparr>rx_buffer := [], client_log := client_log ?c @ [MessageReceived op p]\<rparr>"
    using read_chunks [of "[(op, p)]" ?c "[ui_frame (op, p)]" True] assms c(1)
    by (simp add: ui_unframe_def kLenBytes_def)
  with c show ?thesis by simp
qed

theorem ui_delivers_before_authentication_witness:
  "client_state (onReadyRead True (ui_frame (7, [9])) (onConnected (connectToService [] [] new_service_client))) = Authenticating"
  using ui_delivers_before_authentication [of 7 "[9]"]
  by (simp add: ui_frame_ok_def unat_kMaxFrameBytes kOpBytes_def)

end
