(* ===== verification/Local_Channel.thy ===== *)
theory Local_Channel
  imports Service_Daemon Ui_Client
begin

text \<open>
  Facts about the two framings of the local channel: the service writes the length of a message least
  significant byte first and no opcode, the UI reads a length with the most significant byte first,
  and an opcode.
\<close>

lemma bit_imp_ge: "bit (w :: u32) n \<Longrightarrow> 2 ^ n \<le> unat w"
proof (rule ccontr)
  assume b: "bit w n" and "\<not> 2 ^ n \<le> unat w"
  then have "take_bit n (unat w) = unat w" by (simp add: take_bit_nat_eq_self)
  then have "\<not> bit (unat w) n" by (metis bit_take_bit_iff less_irrefl)
  with b show False by (simp add: bit_unsigned_iff)
qed

lemma top_byte_large:
  assumes "length bs = 4" and "bs ! 3 \<noteq> 0"
  shows "1048576 < unat (of_le_bytes bs :: u32)"
proof -
  from assms(2) obtain k where k: "bit (bs ! 3) k" by (metis bit_0_eq bot_apply bit_eqI bot_bool_def)
  then have "k < 8" by (auto dest: bit_imp_le_length)
  then have "(24 + k) div 8 = 3" "(24 + k) mod 8 = k" using mod_add_self2 [of k 8] by (simp_all add: mod_add_left_eq [of 24 8 k, symmetric])
  with k \<open>k < 8\<close> assms(1) have "bit (of_le_bytes bs :: u32) (24 + k)" by (simp add: bit_of_le_bytes)
  from bit_imp_ge [OF this] have "2 ^ 24 * 2 ^ k \<le> unat (of_le_bytes bs :: u32)" by (simp add: power_add)
  then have "16777216 * 2 ^ k \<le> unat (of_le_bytes bs :: u32)" by simp
  moreover have "1 \<le> (2 ^ k :: nat)" by simp
  ultimately show ?thesis by linarith
qed

lemma low_byte_le_bytes: "le_bytes 4 (of_nat n :: u32) ! 0 = 0 \<longleftrightarrow> n mod 256 = 0"
proof -
  have "le_bytes 4 (of_nat n :: u32) ! 0 = (of_nat n :: byte)"
    by (rule bit_eqI) (auto simp: bit_le_bytes bit_of_nat_iff)
  then show ?thesis by (simp add: word_of_nat_eq_0_iff dvd_eq_mod_eq_0)
qed

lemma swapped_length_large:
  "n mod 256 \<noteq> 0 \<Longrightarrow> 1048576 < unat (of_le_bytes (rev (le_bytes 4 (of_nat n :: u32))) :: u32)"
  by (rule top_byte_large) (simp_all add: rev_nth low_byte_le_bytes)

lemma service_frame_bad_prefix:
  "length r mod 256 \<noteq> 0 \<Longrightarrow> bad_prefix (service_frame r @ t)"
  using swapped_length_large [of "length r"]
  by (simp add: bad_prefix_iff kLenBytes_def service_frame_def qFromBigEndian_def)

lemma prefix_bad: "bad_prefix (bs @ t) \<Longrightarrow> kLenBytes \<le> length bs \<Longrightarrow> bad_prefix bs"
  by (simp add: bad_prefix_iff)

text \<open>What the service writes is a prefix of the frame of its reply.\<close>

definition reply_out :: "int list \<Rightarrow> byte list \<Rightarrow> byte list" where
  "reply_out ws r =
     (let hdr = fst (reply_frame r); body = snd (reply_frame r); w = WriteExact ws hdr in
      if \<not> fst (snd w) then fst w
      else if body \<noteq> [] then fst w @ fst (WriteExact (snd (snd w)) body)
      else fst w)"

lemma reply_out_prefix:
  assumes "length r < 2 ^ 32"
  shows "\<exists>t. service_frame r = reply_out ws r @ t"
proof -
  let ?hdr = "le_bytes 4 (of_nat (length r) :: u32)"
  have fr: "reply_frame r = (?hdr, r)" using assms by (simp add: reply_frame_def unat_u32)
  obtain a where a: "?hdr = fst (WriteExact ws ?hdr) @ a" "fst (snd (WriteExact ws ?hdr)) \<longrightarrow> a = []"
    using WriteExact_prefix by blast
  obtain b where b: "r = fst (WriteExact (snd (snd (WriteExact ws ?hdr))) r) @ b" using WriteExact_prefix by blast
  show ?thesis
  proof (cases "fst (snd (WriteExact ws ?hdr))")
    case True
    with a have "fst (WriteExact ws ?hdr) = ?hdr" by simp
    with True b show ?thesis by (intro exI [of _ b]) (auto simp: service_frame_def reply_out_def fr)
  next
    case False
    with a(1) show ?thesis
      by (intro exI [of _ "a @ r"]) (simp add: service_frame_def reply_out_def fr flip: append_assoc)
  qed
qed

lemma ServeConnection_snd:
  "snd (ServeConnection cfg (Some h) conn) = [] \<or>
    (\<exists>m. snd (ServeConnection cfg (Some h) conn) = reply_out (accepts conn) (h (AuthenticatePeer (cred conn)) m))"
  by (simp add: ServeConnection_def reply_out_def split_beta split: option.splits) blast

lemma ServeConnection_silent:
  "fst (ServeConnection cfg (Some h) conn) = None \<Longrightarrow> snd (ServeConnection cfg (Some h) conn) = []"
  by (auto simp: ServeConnection_def split_beta split: option.splits if_splits)

end
