(* ===== verification/Ui_Session.thy ===== *)
theory Ui_Session
  imports Ui_Client
begin

text \<open>
  \<open>ui/src/SessionController.h/.cpp\<close>: the session state machine the QML talks to. The single-shot
  timers it starts are kept in the state with the time at which they are due; the event loop runs
  the one due first. Slots, timers and the passing of time are the steps of an inductive relation.
  The signals it emits are collected in order in the last field.
\<close>

section \<open>State\<close>

datatype ui_state = Idle | Resolving | UiAuthenticating | UiConnecting | Connected | Failed

datatype ui_timer = ResolveTimer | VerifyTimer | ConnectTimer

datatype ui_signal = StateChanged | RemoteIdChanged | StatusTextChanged | PinRequiredChanged | BeingControlledChanged
  | CapabilitiesChanged | UnattendedConfiguredChanged | SessionStarted | SessionEnded | FullscreenRequested bool

record ui_session =
  ui_state :: ui_state
  remote_id :: qstring
  status_text :: qstring
  pin_required :: bool
  being_controlled :: bool
  controller_name :: qstring
  control_allowed :: bool
  clipboard_allowed :: bool
  file_transfer_allowed :: bool
  audio_allowed :: bool
  privacy_screen :: bool
  unattended_configured :: bool
  now_ms :: nat
  timers :: "(nat \<times> ui_timer) list"
  signals :: "ui_signal list"

definition new_ui_session :: ui_session where
  "new_ui_session = \<lparr>ui_state = Idle, remote_id = [], status_text = q ''Ready'', pin_required = False,
     being_controlled = False, controller_name = [], control_allowed = True, clipboard_allowed = True,
     file_transfer_allowed = False, audio_allowed = False, privacy_screen = False, unattended_configured = False,
     now_ms = 0, timers = [], signals = []\<rparr>"

definition emit :: "ui_signal \<Rightarrow> ui_session \<Rightarrow> ui_session" where
  "emit x s = s\<lparr>signals := signals s @ [x]\<rparr>"

text \<open>\<open>QTimer::singleShot\<close> and the timer the event loop runs next.\<close>

definition singleShot :: "nat \<Rightarrow> ui_timer \<Rightarrow> ui_session \<Rightarrow> ui_session" where
  "singleShot ms t s = s\<lparr>timers := timers s @ [(now_ms s + ms, t)]\<rparr>"

fun earliest :: "(nat \<times> ui_timer) list \<Rightarrow> (nat \<times> ui_timer) option" where
  "earliest [] = None"
| "earliest ((d, t) # ts) =
     (case earliest ts of None \<Rightarrow> Some (d, t) | Some (d', t') \<Rightarrow> if d \<le> d' then Some (d, t) else Some (d', t'))"

text \<open>\<open>QString::trimmed\<close> and \<open>QChar::isSpace\<close>.\<close>

definition isSpace :: "u16 \<Rightarrow> bool" where
  "isSpace c \<longleftrightarrow> c = 0x20 \<or> (0x09 \<le> c \<and> c \<le> 0x0D) \<or> c = 0x85 \<or> c = 0xA0 \<or> c = 0x1680 \<or> (0x2000 \<le> c \<and> c \<le> 0x200A)
     \<or> c = 0x2028 \<or> c = 0x2029 \<or> c = 0x202F \<or> c = 0x205F \<or> c = 0x3000"

definition trimmed :: "qstring \<Rightarrow> qstring" where
  "trimmed s = rev (dropWhile isSpace (rev (dropWhile isSpace s)))"

definition ellipsis :: qstring where "ellipsis = [0x2026]"

section \<open>Slots\<close>

definition setUiState :: "ui_state \<Rightarrow> ui_session \<Rightarrow> ui_session" where
  "setUiState x s = (if ui_state s = x then s else emit StateChanged (s\<lparr>ui_state := x\<rparr>))"

definition setStatusText :: "qstring \<Rightarrow> ui_session \<Rightarrow> ui_session" where
  "setStatusText t s = (if status_text s = t then s else emit StatusTextChanged (s\<lparr>status_text := t\<rparr>))"

definition service_error :: "qstring \<Rightarrow> ui_session \<Rightarrow> ui_session" where
  "service_error reason s = setStatusText (q ''Service unavailable: '' @ reason) s"

definition connectToId :: "qstring \<Rightarrow> ui_session \<Rightarrow> ui_session" where
  "connectToId i s =
     (let t = trimmed i in
      if t = [] then setStatusText (q ''Enter a REDesk ID'') s
      else if ui_state s \<noteq> Idle \<and> ui_state s \<noteq> Failed then s
      else
        (let s = emit RemoteIdChanged (s\<lparr>remote_id := t\<rparr>);
             s = setUiState Resolving s;
             s = setStatusText (q ''Resolving '' @ t @ ellipsis) s
         in singleShot 450 ResolveTimer s))"

definition enterPin :: "qstring \<Rightarrow> ui_session \<Rightarrow> ui_session" where
  "enterPin pin s =
     (if ui_state s \<noteq> UiAuthenticating then s
      else if trimmed pin = [] then setStatusText (q ''PIN required'') s
      else singleShot 350 VerifyTimer (setStatusText (q ''Verifying'' @ ellipsis) s))"

fun run_timer :: "ui_timer \<Rightarrow> ui_session \<Rightarrow> ui_session" where
  "run_timer ResolveTimer s =
     (if ui_state s \<noteq> Resolving then s
      else
        (let s = emit PinRequiredChanged (s\<lparr>pin_required := True\<rparr>);
             s = setUiState UiAuthenticating s
         in setStatusText (q ''Enter the session PIN shown on the remote machine'') s))"
| "run_timer VerifyTimer s =
     (let s = emit PinRequiredChanged (s\<lparr>pin_required := False\<rparr>);
          s = setUiState UiConnecting s;
          s = setStatusText (q ''Connecting'' @ ellipsis) s
      in singleShot 500 ConnectTimer s)"
| "run_timer ConnectTimer s =
     (let s = setUiState Connected s;
          s = setStatusText (q ''Connected to '' @ remote_id s) s
      in emit SessionStarted s)"

definition disconnect :: "ui_session \<Rightarrow> ui_session" where
  "disconnect s =
     (if ui_state s = Idle then s
      else
        (let s = emit PinRequiredChanged (s\<lparr>pin_required := False\<rparr>);
             s = setUiState Idle s;
             s = setStatusText (q ''Ready'') s
         in emit SessionEnded s))"

definition setUnattendedPassword :: "qstring \<Rightarrow> ui_session \<Rightarrow> ui_session" where
  "setUnattendedPassword password s =
     (let nowSet = (trimmed password \<noteq> []) in
      if unattended_configured s \<noteq> nowSet then emit UnattendedConfiguredChanged (s\<lparr>unattended_configured := nowSet\<rparr>) else s)"

definition clearUnattendedPassword :: "ui_session \<Rightarrow> ui_session" where
  "clearUnattendedPassword s =
     (if \<not> unattended_configured s then s else emit UnattendedConfiguredChanged (s\<lparr>unattended_configured := False\<rparr>))"

definition acceptIncoming :: "ui_session \<Rightarrow> ui_session" where
  "acceptIncoming s =
     (let s = s\<lparr>being_controlled := True\<rparr>;
          s = (if controller_name s = [] then s\<lparr>controller_name := q ''Remote operator''\<rparr> else s)
      in emit BeingControlledChanged s)"

definition rejectIncoming :: "ui_session \<Rightarrow> ui_session" where
  "rejectIncoming s = emit BeingControlledChanged (s\<lparr>being_controlled := False, controller_name := []\<rparr>)"

datatype ui_capability = CapControl | CapClipboard | CapFileTransfer | CapAudio | CapPrivacyScreen

definition allowed :: "ui_capability \<Rightarrow> ui_session \<Rightarrow> bool" where
  "allowed cap s = (case cap of CapControl \<Rightarrow> control_allowed s | CapClipboard \<Rightarrow> clipboard_allowed s
     | CapFileTransfer \<Rightarrow> file_transfer_allowed s | CapAudio \<Rightarrow> audio_allowed s | CapPrivacyScreen \<Rightarrow> privacy_screen s)"

definition setCapability :: "ui_capability \<Rightarrow> bool \<Rightarrow> ui_session \<Rightarrow> ui_session" where
  "setCapability cap v s =
     (if allowed cap s = v then s
      else emit CapabilitiesChanged
        (case cap of CapControl \<Rightarrow> s\<lparr>control_allowed := v\<rparr> | CapClipboard \<Rightarrow> s\<lparr>clipboard_allowed := v\<rparr>
         | CapFileTransfer \<Rightarrow> s\<lparr>file_transfer_allowed := v\<rparr> | CapAudio \<Rightarrow> s\<lparr>audio_allowed := v\<rparr>
         | CapPrivacyScreen \<Rightarrow> s\<lparr>privacy_screen := v\<rparr>))"

definition switchMonitor :: "int \<Rightarrow> ui_session \<Rightarrow> ui_session" where "switchMonitor i s = s"

definition requestFullscreen :: "bool \<Rightarrow> ui_session \<Rightarrow> ui_session" where
  "requestFullscreen v s = emit (FullscreenRequested v) s"

section \<open>Steps of the event loop\<close>

definition elapse :: "nat \<Rightarrow> ui_session \<Rightarrow> ui_session" where
  "elapse ms s = s\<lparr>now_ms := now_ms s + ms\<rparr>"

definition fire :: "ui_session \<Rightarrow> ui_session" where
  "fire s =
     (case earliest (timers s) of
        None \<Rightarrow> s
      | Some (d, t) \<Rightarrow> run_timer t (s\<lparr>timers := remove1 (d, t) (timers s), now_ms := max (now_ms s) d\<rparr>))"

datatype ui_event = Wait nat | Fire | ConnectTo qstring | EnterPin qstring | Disconnect | SetPassword qstring
  | ClearPassword | Accept | Reject | SetCapability ui_capability bool | ServiceError qstring | SwitchMonitor int | Fullscreen bool

inductive ui_step :: "ui_session \<Rightarrow> ui_event \<Rightarrow> ui_session \<Rightarrow> bool" where
  step_wait: "ui_step s (Wait ms) (elapse ms s)"
| step_fire: "earliest (timers s) \<noteq> None \<Longrightarrow> ui_step s Fire (fire s)"
| step_connect: "ui_step s (ConnectTo i) (connectToId i s)"
| step_pin: "ui_step s (EnterPin p) (enterPin p s)"
| step_disconnect: "ui_step s Disconnect (disconnect s)"
| step_password: "ui_step s (SetPassword p) (setUnattendedPassword p s)"
| step_clear: "ui_step s ClearPassword (clearUnattendedPassword s)"
| step_accept: "ui_step s Accept (acceptIncoming s)"
| step_reject: "ui_step s Reject (rejectIncoming s)"
| step_capability: "ui_step s (SetCapability cap v) (setCapability cap v s)"
| step_error: "ui_step s (ServiceError r) (service_error r s)"
| step_monitor: "ui_step s (SwitchMonitor i) (switchMonitor i s)"
| step_fullscreen: "ui_step s (Fullscreen v) (requestFullscreen v s)"

inductive ui_run :: "ui_event list \<Rightarrow> ui_session \<Rightarrow> bool" where
  run_start: "ui_run [] new_ui_session"
| run_step: "ui_run es s \<Longrightarrow> ui_step s e t \<Longrightarrow> ui_run (es @ [e]) t"

text \<open>Further steps from any state.\<close>

inductive ui_path :: "ui_session \<Rightarrow> ui_event list \<Rightarrow> ui_session \<Rightarrow> bool" for s0 where
  path_start: "ui_path s0 [] s0"
| path_step: "ui_path s0 es s \<Longrightarrow> ui_step s e t \<Longrightarrow> ui_path s0 (es @ [e]) t"

inductive_cases ui_stepE [elim]: "ui_step s e t"
inductive_simps ui_step_simps [simp]:
  "ui_step s (Wait ms) t" "ui_step s Fire t" "ui_step s (ConnectTo i) t" "ui_step s (EnterPin p) t" "ui_step s Disconnect t"
inductive_cases ui_runE: "ui_run es s"

fun_cases earliest_NoneE: "earliest ts = None"

lemmas ui_op_defs = setUiState_def setStatusText_def service_error_def connectToId_def enterPin_def disconnect_def
  setUnattendedPassword_def clearUnattendedPassword_def acceptIncoming_def rejectIncoming_def setCapability_def
  switchMonitor_def requestFullscreen_def elapse_def emit_def singleShot_def

section \<open>Timers\<close>

lemma earliest_None [simp]: "earliest ts = None \<longleftrightarrow> ts = []"
  by (auto elim!: earliest_NoneE split: option.splits if_splits)

lemma earliest_Some: "earliest ts = Some (d, t) \<Longrightarrow> (d, t) \<in> set ts \<and> (\<forall>(d', t') \<in> set ts. d \<le> d')"
  by (induction ts arbitrary: d t rule: earliest.induct) (fastforce split: option.splits if_splits)+

lemma earliest_ex: "ts \<noteq> [] \<Longrightarrow> \<exists>d t. earliest ts = Some (d, t)"
  by (metis earliest_None option.exhaust surj_pair)

lemma fire_earliest:
  "earliest (timers s) = Some (d, t) \<Longrightarrow>
     fire s = run_timer t (s\<lparr>timers := remove1 (d, t) (timers s), now_ms := max (now_ms s) d\<rparr>)"
  by (simp add: fire_def)

definition pending :: "ui_timer \<Rightarrow> ui_session \<Rightarrow> bool" where
  "pending t s \<longleftrightarrow> t \<in> snd ` set (timers s)"

lemma pending_remove1: "t' \<noteq> t \<Longrightarrow> t' \<in> snd ` set (remove1 (d, t) ts) \<longleftrightarrow> t' \<in> snd ` set ts"
  by (induction ts) auto

section \<open>Invariants of every run\<close>

definition ui_inv :: "ui_session \<Rightarrow> bool" where
  "ui_inv s \<longleftrightarrow> (ui_state s = Resolving \<longrightarrow> pending ResolveTimer s)
     \<and> (ui_state s = UiConnecting \<longrightarrow> pending ConnectTimer s)
     \<and> ui_state s \<noteq> Failed
     \<and> (ui_state s \<noteq> Idle \<or> timers s \<noteq> [] \<longrightarrow> remote_id s \<noteq> [])
     \<and> (being_controlled s \<longleftrightarrow> controller_name s \<noteq> [])"

lemma fire_inv:
  assumes "ui_inv s" and "earliest (timers s) \<noteq> None"
  shows "ui_inv (fire s)"
proof -
  from assms(2) earliest_ex obtain d t where t: "earliest (timers s) = Some (d, t)" by fastforce
  with assms(1) have ne: "remote_id s \<noteq> []" "timers s \<noteq> []" by (auto simp: ui_inv_def)
  show ?thesis
    using assms(1) ne
    by (cases t) (auto simp: fire_earliest [OF t] ui_inv_def pending_def pending_remove1 setUiState_def setStatusText_def emit_def singleShot_def)
qed

lemma q_nonempty: "q s = [] \<longleftrightarrow> s = []"
  by (simp add: q_def)

lemma ui_step_inv: "ui_step s e t \<Longrightarrow> ui_inv s \<Longrightarrow> ui_inv t"
  by (cases rule: ui_step.cases, assumption)
    (auto simp: fire_inv, auto simp: ui_inv_def pending_def ui_op_defs q_nonempty split: ui_capability.splits)

lemma ui_run_inv: "ui_run es s \<Longrightarrow> ui_inv s"
proof (induction rule: ui_run.induct)
  case run_start
  then show ?case by (simp add: ui_inv_def new_ui_session_def pending_def)
next
  case (run_step es s e t)
  show ?case using run_step.hyps(2) run_step.IH by (rule ui_step_inv)
qed

text \<open>Letting all timers run out.\<close>

fun timer_work :: "ui_timer \<Rightarrow> nat" where
  "timer_work VerifyTimer = 2"
| "timer_work _ = 1"

definition work :: "ui_session \<Rightarrow> nat" where
  "work s = sum_list (map (\<lambda>(d, t). timer_work t) (timers s))"

lemma work_remove1:
  "(d, t) \<in> set ts \<Longrightarrow> sum_list (map (\<lambda>(d, t). timer_work t) ts) = timer_work t + sum_list (map (\<lambda>(d, t). timer_work t) (remove1 (d, t) ts))"
  by (induction ts) auto

lemma fire_work: "timers s \<noteq> [] \<Longrightarrow> work (fire s) < work s"
proof -
  assume "timers s \<noteq> []"
  then obtain d t where t: "earliest (timers s) = Some (d, t)"
    using earliest_ex by blast
  with earliest_Some [OF t] work_remove1 [of d t "timers s"] show ?thesis
    by (cases t) (auto simp: fire_earliest [OF t] work_def setUiState_def setStatusText_def emit_def singleShot_def)
qed

function settle :: "ui_session \<Rightarrow> ui_session" where
  "settle s = (if timers s = [] then s else settle (fire s))"
  by pat_completeness auto

termination
  by (relation "measure work") (auto simp: fire_work)

declare settle.simps [simp del]

lemma settle_inv: "ui_inv s \<Longrightarrow> ui_inv (settle s) \<and> timers (settle s) = []"
proof (induction s rule: settle.induct)
  case (1 s)
  then show ?case by (cases "timers s = []") (simp_all add: settle.simps [of s] fire_inv)
qed

section \<open>A PIN comes before a connection\<close>

text \<open>What holds of a session that was begun with \<open>n\<close> starts signalled, as long as no PIN is accepted in it.\<close>

definition no_pin_inv :: "nat \<Rightarrow> ui_session \<Rightarrow> bool" where
  "no_pin_inv n s \<longleftrightarrow> ui_state s \<in> {Idle, Resolving, UiAuthenticating} \<and> snd ` set (timers s) \<subseteq> {ResolveTimer}
     \<and> count_list (signals s) SessionStarted = n"

lemma no_pin_fire:
  assumes "no_pin_inv n s" and "earliest (timers s) \<noteq> None"
  shows "no_pin_inv n (fire s)"
proof -
  from assms(2) earliest_ex obtain d t where t: "earliest (timers s) = Some (d, t)" by fastforce
  with earliest_Some [OF t] assms(1) have "t = ResolveTimer" by (force simp: no_pin_inv_def)
  with t assms(1) show ?thesis
    by (auto simp: fire_earliest [OF t] no_pin_inv_def setUiState_def setStatusText_def emit_def dest!: set_remove1_subset [THEN subsetD])
qed

text \<open>The event is a PIN that the controller takes: it is not blank and is asked for.\<close>

definition takes_pin :: "ui_session \<Rightarrow> ui_event \<Rightarrow> bool" where
  "takes_pin s e \<longleftrightarrow> (case e of EnterPin p \<Rightarrow> trimmed p \<noteq> [] \<and> ui_state s = UiAuthenticating | _ \<Rightarrow> False)"

lemma no_pin_step:
  "ui_step s e t \<Longrightarrow> no_pin_inv n s \<Longrightarrow> \<not> takes_pin s e \<Longrightarrow> no_pin_inv n t"
  by (cases rule: ui_step.cases, assumption)
    (auto simp: no_pin_fire, auto simp: no_pin_inv_def takes_pin_def ui_op_defs split: ui_capability.splits)

text \<open>On a path, a PIN was taken after some of its events.\<close>

definition pin_taken :: "ui_session \<Rightarrow> ui_event list \<Rightarrow> bool" where
  "pin_taken s es \<longleftrightarrow> (\<exists>a e b v. es = a @ e # b \<and> ui_path s a v \<and> takes_pin v e)"

lemma no_pin_path:
  "ui_path s0 es s \<Longrightarrow> no_pin_inv n s0 \<Longrightarrow> no_pin_inv n s \<or> pin_taken s0 es"
proof (induction rule: ui_path.induct)
  case (path_step es s e t)
  show ?case
  proof (cases "pin_taken s0 es \<or> takes_pin s e")
    case True
    then show ?thesis
    proof
      assume "pin_taken s0 es"
      then obtain a x b v where "es = a @ x # b" "ui_path s0 a v" "takes_pin v x" by (auto simp: pin_taken_def)
      then have "es @ [e] = a @ x # (b @ [e])" by simp
      with \<open>ui_path s0 a v\<close> \<open>takes_pin v x\<close> show ?thesis unfolding pin_taken_def by blast
    qed (use path_step.hyps(1) in \<open>auto simp: pin_taken_def\<close>)
  next
    case False
    with path_step no_pin_step [OF path_step.hyps(2)] show ?thesis by blast
  qed
qed simp

lemma connect_begins:
  assumes "ui_state s = Idle" and "trimmed i \<noteq> []"
  shows "ui_state (connectToId i s) = Resolving" and "timers (connectToId i s) = timers s @ [(now_ms s + 450, ResolveTimer)]"
    and "count_list (signals (connectToId i s)) SessionStarted = count_list (signals s) SessionStarted"
  using assms by (simp_all add: ui_op_defs)

text \<open>A timer of an earlier session that is still running connects by itself.\<close>

definition connects_alone :: "ui_session \<Rightarrow> bool" where
  "connects_alone s \<longleftrightarrow> pending VerifyTimer s \<or> pending ConnectTimer s \<or> ui_state s = Connected"

lemma connects_alone_fire:
  assumes "connects_alone s" and "timers s \<noteq> []"
  shows "connects_alone (fire s)"
proof -
  obtain d t where t: "earliest (timers s) = Some (d, t)" using earliest_ex [OF assms(2)] by blast
  show ?thesis
    using assms(1)
    by (cases t) (auto simp: fire_earliest [OF t] connects_alone_def pending_def pending_remove1 setUiState_def setStatusText_def emit_def singleShot_def)
qed

lemma connects_alone_settle: "connects_alone s \<Longrightarrow> ui_state (settle s) = Connected \<and> timers (settle s) = []"
proof (induction s rule: settle.induct)
  case (1 s)
  then show ?case
    by (cases "timers s = []") (simp_all add: settle.simps [of s] connects_alone_fire, simp add: connects_alone_def pending_def)
qed

section \<open>Properties\<close>

text \<open>C25: The controller never hangs: in every reachable state, running the pending timers ends, and it
  ends waiting for the user: idle, asking for a PIN, or connected.\<close>

theorem ui_session_settles:
  assumes "ui_run es s"
  shows "timers (settle s) = [] \<and> ui_state (settle s) \<in> {Idle, UiAuthenticating, Connected}"
proof -
  from settle_inv [OF ui_run_inv [OF assms]] have "ui_inv (settle s)" "timers (settle s) = []" by simp_all
  then show ?thesis by (cases "ui_state (settle s)") (simp_all add: ui_inv_def pending_def)
qed

text \<open>C24: No session starts without its PIN, except through a timer left over from an earlier one. Take any
  idle controller and a call to another machine, and whatever the user and the timers do from there. If
  no verification or connection timer of an earlier session was pending when the call was made, the
  controller is connecting or connected, or has signalled one more started session, only after a PIN
  that is not blank was entered since the call, while the controller was asking for it. If such
  a timer was pending, the guard fails completely: merely waiting ends connected, with no PIN
  entered at all.\<close>

theorem ui_session_needs_pin:
  assumes "ui_state s0 = Idle" and "trimmed i \<noteq> []" and "ui_path (connectToId i s0) es s"
    and "ui_state s \<in> {UiConnecting, Connected} \<or> count_list (signals s0) SessionStarted < count_list (signals s) SessionStarted"
  shows "if pending VerifyTimer s0 \<or> pending ConnectTimer s0 then ui_state (settle (connectToId i s0)) = Connected
    else \<exists>a p b v. es = a @ EnterPin p # b \<and> trimmed p \<noteq> []
      \<and> ui_path (connectToId i s0) a v \<and> ui_state v = UiAuthenticating"
proof (cases "pending VerifyTimer s0 \<or> pending ConnectTimer s0")
  case True
  then have "connects_alone (connectToId i s0)"
    by (auto simp: connects_alone_def pending_def connect_begins(2) [OF assms(1,2)])
  with True connects_alone_settle show ?thesis by simp
next
  case False
  then have "t = ResolveTimer" if "(d, t) \<in> set (timers s0)" for d t
    using that by (cases t) (force simp: pending_def)+
  then have "no_pin_inv (count_list (signals s0) SessionStarted) (connectToId i s0)"
    using assms(1,2) by (auto simp: no_pin_inv_def connect_begins)
  from no_pin_path [OF assms(3) this] assms(4) have "pin_taken (connectToId i s0) es" by (auto simp: no_pin_inv_def)
  then obtain a e b v where "es = a @ e # b" "ui_path (connectToId i s0) a v" "takes_pin v e" by (auto simp: pin_taken_def)
  then show ?thesis using False by (cases e) (auto simp: takes_pin_def)
qed

lemma setStatusText_sel [simp]:
  "status_text (setStatusText t s) = t" "ui_state (setStatusText t s) = ui_state s"
  "timers (setStatusText t s) = timers s" "now_ms (setStatusText t s) = now_ms s"
  "remote_id (setStatusText t s) = remote_id s" "pin_required (setStatusText t s) = pin_required s"
  "count_list (signals (setStatusText t s)) SessionStarted = count_list (signals s) SessionStarted"
  by (simp_all add: setStatusText_def emit_def)

lemma setUiState_sel [simp]:
  "ui_state (setUiState x s) = x" "status_text (setUiState x s) = status_text s"
  "timers (setUiState x s) = timers s" "now_ms (setUiState x s) = now_ms s"
  "remote_id (setUiState x s) = remote_id s" "pin_required (setUiState x s) = pin_required s"
  "count_list (signals (setUiState x s)) SessionStarted = count_list (signals s) SessionStarted"
  by (simp_all add: setUiState_def emit_def)

text \<open>From an idle controller without timers, connecting, entering a PIN and letting the timers run
  takes 1300 ms and ends connected to the trimmed identifier, with one session started and no PIN
  asked for any more.\<close>

theorem ui_session_flow:
  assumes "ui_state s = Idle" and "timers s = []" and "trimmed i \<noteq> []" and "trimmed p \<noteq> []"
  shows "let t = fire (fire (enterPin p (fire (connectToId i s)))) in
    ui_state t = Connected \<and> remote_id t = trimmed i \<and> status_text t = q ''Connected to '' @ trimmed i
    \<and> \<not> pin_required t \<and> now_ms t = now_ms s + 1300 \<and> timers t = []
    \<and> count_list (signals t) SessionStarted = Suc (count_list (signals s) SessionStarted)"
  using assms by (simp add: fire_def connectToId_def enterPin_def emit_def singleShot_def)

theorem ui_session_flow_witness:
  "remote_id (fire (fire (enterPin (q ''1234'') (fire (connectToId (q '' 729 '') new_ui_session))))) = q ''729''"
proof -
  have "trimmed (q '' 729 '') = q ''729''" and "trimmed (q ''1234'') \<noteq> []" and "q ''729'' \<noteq> []" by code_simp+
  then show ?thesis
    using ui_session_flow [of new_ui_session "q '' 729 ''" "q ''1234''"] by (simp add: new_ui_session_def)
qed

theorem ui_session_settles_witness:
  "timers (settle (connectToId (q ''7'') new_ui_session)) = []"
proof -
  have "ui_run ([] @ [ConnectTo (q ''7'')]) (connectToId (q ''7'') new_ui_session)"
    by (rule run_step [OF run_start step_connect])
  then show ?thesis using ui_session_settles by blast
qed

lemma run_fire: "ui_run es s \<Longrightarrow> timers s \<noteq> [] \<Longrightarrow> ui_run (es @ [Fire]) (fire s)"
  by (rule run_step, assumption, rule step_fire) simp

lemma stale_run:
  assumes "trimmed a \<noteq> []" and "trimmed p \<noteq> []" and "trimmed b \<noteq> []"
  defines "s \<equiv> fire (enterPin p (fire (connectToId a new_ui_session)))"
  defines "t \<equiv> fire (fire (connectToId b (disconnect s)))"
  shows "ui_run [ConnectTo a, Fire, EnterPin p, Fire] s"
    and "ui_run [ConnectTo a, Fire, EnterPin p, Fire, Disconnect, ConnectTo b, Fire, Fire] t"
    and "ui_state t = Connected \<and> remote_id t = trimmed b \<and> pin_required t \<and> now_ms t = 1300"
proof -
  let ?s1 = "connectToId a new_ui_session" and ?s2 = "fire (connectToId a new_ui_session)"
  have t1: "timers ?s1 = [(450, ResolveTimer)]" "ui_state ?s1 = Resolving"
    using assms(1) by (simp_all add: connectToId_def emit_def singleShot_def new_ui_session_def)
  then have t2: "timers ?s2 = []" "ui_state ?s2 = UiAuthenticating" "now_ms ?s2 = 450"
    by (simp_all add: fire_def emit_def) (simp_all add: connectToId_def emit_def singleShot_def new_ui_session_def)
  then have t3: "timers (enterPin p ?s2) = [(800, VerifyTimer)]" "ui_state (enterPin p ?s2) = UiAuthenticating" "now_ms (enterPin p ?s2) = 450"
    using assms(2) by (simp_all add: enterPin_def singleShot_def)
  then have t4: "timers s = [(1300, ConnectTimer)]" "ui_state s = UiConnecting" "now_ms s = 800"
    unfolding s_def by (simp_all add: fire_def emit_def singleShot_def)
  then have t5: "timers (disconnect s) = [(1300, ConnectTimer)]" "ui_state (disconnect s) = Idle" "now_ms (disconnect s) = 800"
    by (simp_all add: disconnect_def emit_def)
  let ?s6 = "connectToId b (disconnect s)"
  have t6: "timers ?s6 = [(1300, ConnectTimer), (1250, ResolveTimer)]" "ui_state ?s6 = Resolving"
    "now_ms ?s6 = 800" "remote_id ?s6 = trimmed b"
    using assms(3) t5 by (simp_all add: connectToId_def emit_def singleShot_def)
  then have t7: "timers (fire ?s6) = [(1300, ConnectTimer)]" "ui_state (fire ?s6) = UiAuthenticating"
    "now_ms (fire ?s6) = 1250" "remote_id (fire ?s6) = trimmed b" "pin_required (fire ?s6)"
    by (simp_all add: fire_def emit_def)
  then show "ui_state t = Connected \<and> remote_id t = trimmed b \<and> pin_required t \<and> now_ms t = 1300"
    unfolding t_def by (simp add: fire_def [of "fire ?s6"] emit_def)
  have r: "ui_run ([] @ [ConnectTo a]) ?s1" by (rule run_step [OF run_start step_connect])
  have "ui_run (([] @ [ConnectTo a]) @ [Fire]) ?s2" using t1 by (intro run_fire [OF r]) simp
  then have "ui_run ((([] @ [ConnectTo a]) @ [Fire]) @ [EnterPin p]) (enterPin p ?s2)" by (rule run_step [OF _ step_pin])
  from run_fire [OF this] t3 show run4: "ui_run [ConnectTo a, Fire, EnterPin p, Fire] s" by (simp add: s_def)
  then have r6: "ui_run (([ConnectTo a, Fire, EnterPin p, Fire] @ [Disconnect]) @ [ConnectTo b]) ?s6"
    by (intro run_step [OF _ step_connect] run_step [OF _ step_disconnect])
  from run_fire [OF r6] t6 have r7: "ui_run ((([ConnectTo a, Fire, EnterPin p, Fire] @ [Disconnect]) @ [ConnectTo b]) @ [Fire]) (fire ?s6)"
    by simp
  from run_fire [OF r7] t7 show "ui_run [ConnectTo a, Fire, EnterPin p, Fire, Disconnect, ConnectTo b, Fire, Fire] t"
    by (simp add: t_def)
qed

lemma path_one: "ui_step s e t \<Longrightarrow> ui_path s [e] t"
  using path_step [OF path_start] by simp

lemma path_more: "ui_path s es t \<Longrightarrow> ui_step t e u \<Longrightarrow> es' = es @ [e] \<Longrightarrow> ui_path s es' u"
  using path_step by simp

theorem ui_session_needs_pin_witness:
  "\<exists>v. ui_path (connectToId (q ''1'') new_ui_session) [Fire] v \<and> ui_state v = UiAuthenticating"
proof -
  let ?s1 = "connectToId (q ''1'') new_ui_session"
  let ?s = "fire (enterPin (q ''2'') (fire ?s1))"
  have ne: "trimmed (q ''1'') \<noteq> []" by code_simp
  have t: "earliest (timers ?s1) \<noteq> None" "earliest (timers (enterPin (q ''2'') (fire ?s1))) \<noteq> None" by code_simp+
  have p: "ui_path ?s1 [Fire, EnterPin (q ''2''), Fire] ?s"
    by (rule path_more [OF path_more [OF path_one [OF step_fire [OF t(1)]] step_pin refl] step_fire [OF t(2)]]) simp
  have c: "ui_state ?s \<in> {UiConnecting, Connected}" by code_simp
  have st: "\<not> (pending VerifyTimer new_ui_session \<or> pending ConnectTimer new_ui_session)" "ui_state new_ui_session = Idle"
    by (simp_all add: pending_def new_ui_session_def)
  from ui_session_needs_pin [OF st(2) ne p disjI1 [OF c]] st(1) obtain a x b v
    where "[Fire, EnterPin (q ''2''), Fire] = a @ EnterPin x # b" "ui_path ?s1 a v" "ui_state v = UiAuthenticating" by auto
  moreover from this(1) have "a = [Fire]" by (auto simp: Cons_eq_append_conv)
  ultimately show ?thesis by blast
qed

text \<open>Disconnecting does not stop the timers of the old session: after a disconnect while the
  transport comes up, a new call to another machine ends connected to it 50 ms after the PIN dialogue
  opened, with its PIN never entered and still asked for.\<close>

theorem ui_stale_timer_connects_without_pin:
  assumes "trimmed a \<noteq> []" and "trimmed p \<noteq> []" and "trimmed b \<noteq> []"
  shows "\<exists>t. ui_run ([ConnectTo a, Fire, EnterPin p, Fire] @ [Disconnect, ConnectTo b, Fire, Fire]) t
    \<and> ui_state t = Connected \<and> remote_id t = trimmed b \<and> pin_required t \<and> now_ms t = 1300"
proof -
  let ?t = "fire (fire (connectToId b (disconnect (fire (enterPin p (fire (connectToId a new_ui_session)))))))"
  show ?thesis using stale_run(2,3) [OF assms] by (intro exI [of _ ?t]) simp
qed

theorem ui_stale_timer_connects_without_pin_witness:
  "\<exists>t. ui_run [ConnectTo (q ''1''), Fire, EnterPin (q ''2''), Fire, Disconnect, ConnectTo (q ''3''), Fire, Fire] t
    \<and> ui_state t = Connected \<and> pin_required t"
proof -
  have "trimmed (q ''1'') \<noteq> []" "trimmed (q ''2'') \<noteq> []" "trimmed (q ''3'') \<noteq> []" by code_simp+
  then show ?thesis using ui_stale_timer_connects_without_pin [of "q ''1''" "q ''2''" "q ''3''"] by auto
qed

end
