(* ===== verification/Ui_App.thy ===== *)
theory Ui_App
  imports Ui_Session
begin

text \<open>
  The UI process: \<open>SessionController\<close> owns a \<open>ServiceClient\<close>. Its constructor connects the client's
  signals and calls \<open>connectToService\<close> with the default arguments, so without a token; a message from
  the service is ignored, an error becomes the status text. The steps of the whole are those of the
  user, of the timers and of the socket.
\<close>

section \<open>The process\<close>

record ui_app =
  app_session :: ui_session
  app_client :: service_client

datatype socket_event = SocketConnected | SocketDisconnected | SocketReadyRead bool "byte list" | SocketError qstring

fun socket_call :: "socket_event \<Rightarrow> client_op" where
  "socket_call SocketConnected = COpConnected"
| "socket_call SocketDisconnected = COpDisconnected"
| "socket_call (SocketReadyRead up bytes) = COpRead up bytes"
| "socket_call (SocketError reason) = COpError reason"

text \<open>The slots connected to the client's signals.\<close>

fun on_client_signal :: "client_event \<Rightarrow> ui_session \<Rightarrow> ui_session" where
  "on_client_signal (ErrorOccurred reason) s = service_error reason s"
| "on_client_signal _ s = s"

definition on_socket :: "socket_event \<Rightarrow> ui_app \<Rightarrow> ui_app" where
  "on_socket e a =
     (let c = client_step (app_client a) (socket_call e);
          new = drop (length (client_log (app_client a))) (client_log c)
      in a\<lparr>app_client := c, app_session := fold on_client_signal new (app_session a)\<rparr>)"

definition new_ui_app :: ui_app where
  "new_ui_app = \<lparr>app_session = new_ui_session, app_client = connectToService [] [] new_service_client\<rparr>"

inductive app_step :: "ui_app \<Rightarrow> ui_app \<Rightarrow> bool" where
  app_user: "ui_step (app_session a) e s \<Longrightarrow> app_step a (a\<lparr>app_session := s\<rparr>)"
| app_socket: "app_step a (on_socket e a)"

inductive app_run :: "ui_app \<Rightarrow> bool" where
  app_start: "app_run new_ui_app"
| app_next: "app_run a \<Longrightarrow> app_step a b \<Longrightarrow> app_run b"

inductive_cases app_stepE: "app_step a b"

section \<open>Facts\<close>

definition tokenless :: "service_client \<Rightarrow> bool" where
  "tokenless c \<longleftrightarrow> auth_token c = [] \<and> client_state c \<noteq> Ready \<and> (\<forall>b. Written b \<notin> set (client_log c))"

lemma tokenless_socket: "tokenless c \<Longrightarrow> tokenless (client_step c (socket_call e))"
proof (cases e)
  case (SocketReadyRead up bytes)
  assume "tokenless c"
  with SocketReadyRead show ?thesis
    using drain_state [of up "c\<lparr>rx_buffer := rx_buffer c @ bytes\<rparr>"]
    by (auto simp: tokenless_def onReadyRead_def)
qed (auto simp: tokenless_def onConnected_def onDisconnected_def onSocketError_def beginAuth_def
    setClientState_def client_emit_def)

text \<open>The client's errors only ever change the status text and announce it.\<close>

lemma service_error_frame:
  "ui_state (service_error r s) = ui_state s" "timers (service_error r s) = timers s"
  "remote_id (service_error r s) = remote_id s" "pin_required (service_error r s) = pin_required s"
  "being_controlled (service_error r s) = being_controlled s" "controller_name (service_error r s) = controller_name s"
  by (simp_all add: service_error_def setStatusText_def emit_def)

lemma service_error_inv: "ui_inv s \<Longrightarrow> ui_inv (service_error r s)"
  by (simp add: ui_inv_def pending_def service_error_frame)

lemma client_signals_inv: "ui_inv s \<Longrightarrow> ui_inv (fold on_client_signal es s)"
proof (induction es arbitrary: s)
  case (Cons x es)
  then show ?case by (cases x) (simp_all add: service_error_inv)
qed simp

lemma app_run_inv: "app_run a \<Longrightarrow> tokenless (app_client a) \<and> ui_inv (app_session a)"
proof (induction rule: app_run.induct)
  case app_start
  have "ui_inv new_ui_session" by (rule ui_run_inv [OF run_start])
  then show ?case
    by (simp add: new_ui_app_def tokenless_def connectToService_def new_service_client_def setClientState_def client_emit_def)
next
  case (app_next a b)
  from app_next.hyps(2) show ?case
  proof (rule app_stepE)
    fix e s
    assume "b = a\<lparr>app_session := s\<rparr>" and "ui_step (app_session a) e s"
    with app_next.IH show ?case by (auto intro: ui_step_inv)
  next
    fix e
    assume "b = on_socket e a"
    with app_next.IH show ?case by (simp add: on_socket_def tokenless_socket client_signals_inv)
  qed
qed

text \<open>C36: As the program puts its parts together the UI never sends the service anything: in every
  reachable state of the process the client holds no token, is not ready, has written nothing and
  refuses every command, whatever the user does and the socket delivers; and the session still
  always comes to rest when its timers have run.\<close>

theorem ui_process_never_sends:
  assumes "app_run a"
  shows "auth_token (app_client a) = []
    \<and> client_state (app_client a) \<noteq> Ready
    \<and> (\<nexists>b. Written b \<in> set (client_log (app_client a)))
    \<and> sendCommand w cmd (app_client a) = (False, app_client a)
    \<and> ui_state (settle (app_session a)) \<in> {Idle, UiAuthenticating, Connected}"
proof -
  from app_run_inv [OF assms] have t: "tokenless (app_client a)" and i: "ui_inv (app_session a)" by simp_all
  from settle_inv [OF i] have "ui_inv (settle (app_session a))" "timers (settle (app_session a)) = []" by simp_all
  then have "ui_state (settle (app_session a)) \<in> {Idle, UiAuthenticating, Connected}"
    by (cases "ui_state (settle (app_session a))") (simp_all add: ui_inv_def pending_def)
  with t show ?thesis by (simp add: tokenless_def sendCommand_def)
qed

theorem ui_process_never_sends_witness:
  "sendCommand 1 [7] (app_client (on_socket SocketConnected new_ui_app)) = (False, app_client (on_socket SocketConnected new_ui_app))"
  using ui_process_never_sends [OF app_next [OF app_start app_socket [of new_ui_app SocketConnected]], of 1 "[7]"] by simp

section \<open>The entry point\<close>

text \<open>\<open>main\<close> of \<open>src/ui/src/main.cpp\<close>: names, version and the property \<open>appVersion\<close> are set before the
  scene is loaded, from the module since Qt 6.5 and from its resource before. The version
  (generated by the build), whether Qt can create the root object and what the event loop returns are arguments; a
  failed creation queues \<open>exit(-1)\<close>, which ends the loop as soon as it runs.\<close>

datatype qml_load = Load_from_module string string | Load_url string

record ui_setup =
  application_name :: string
  organization_name :: string
  application_version :: string
  context_properties :: "(string \<times> string) list"
  scene :: qml_load

definition ui_main_setup :: "string \<Rightarrow> bool \<Rightarrow> ui_setup" where
  "ui_main_setup version since_6_5 =
     \<lparr>application_name = ''REDesk'', organization_name = ''REDesk'', application_version = version,
      context_properties = [(''appVersion'', version)],
      scene = (if since_6_5 then Load_from_module ''REDesk.UI'' ''Main'' else Load_url ''qrc:/qt/qml/REDesk/UI/qml/Main.qml'')\<rparr>"

definition ui_main :: "string \<Rightarrow> bool \<Rightarrow> (ui_setup \<Rightarrow> bool) \<Rightarrow> int \<Rightarrow> int" where
  "ui_main version since_6_5 creates loop_result =
     (if creates (ui_main_setup version since_6_5) then loop_result else -1)"

end
