(* ===== verification/Ui_Preview.thy ===== *)
theory Ui_Preview
  imports Ui_Client Capture_Core
begin

text \<open>
  \<open>ui/src/LocalScreenSource.h/.cpp\<close> and \<open>VideoItem.h/.cpp\<close>: the local preview, which wraps captured
  frames as images and hands them to the GUI thread through its event queue, and the video item's
  bookkeeping. The native capturer is not part of the default build: whether the factory returns one,
  and what its start returns, are arguments. A \<open>QImage\<close> is its size and its 32-bit pixel bytes.
\<close>

section \<open>Video item\<close>

datatype video_signal = PlaceholderColorChanged | SourceSizeChanged | HasFrameChanged | UpdateRequested

record 'color video_item =
  placeholder_color :: 'color
  source_size :: "int \<times> int"
  has_frame :: bool
  video_log :: "video_signal list"

definition setPlaceholderColor :: "'color \<Rightarrow> 'color video_item \<Rightarrow> 'color video_item" where
  "setPlaceholderColor c v =
     (if placeholder_color v = c then v
      else v\<lparr>placeholder_color := c, video_log := video_log v @ [PlaceholderColorChanged, UpdateRequested]\<rparr>)"

definition presentStubFrame :: "int \<times> int \<Rightarrow> 'color video_item \<Rightarrow> 'color video_item" where
  "presentStubFrame sz v =
     (let v = (if source_size v \<noteq> sz then v\<lparr>source_size := sz, video_log := video_log v @ [SourceSizeChanged]\<rparr> else v);
          v = (if \<not> has_frame v then v\<lparr>has_frame := True, video_log := video_log v @ [HasFrameChanged]\<rparr> else v)
      in v\<lparr>video_log := video_log v @ [UpdateRequested]\<rparr>)"

text \<open>The renderer copies the item's colour while the GUI thread waits, and clears to it.\<close>

definition synchronize :: "'color video_item \<Rightarrow> 'color \<Rightarrow> 'color" where
  "synchronize v clear_color = placeholder_color v"

definition render :: "bool \<Rightarrow> 'color \<Rightarrow> 'color option" where
  "render has_target clear_color = (if has_target then Some clear_color else None)"

section \<open>Local screen source\<close>

record qimage =
  img_width :: nat
  img_height :: nat
  img_bytes :: "byte list"

text \<open>The frame callback: \<open>None\<close> is undefined behaviour (the image is larger than the buffer it wraps,
  or its row size does not fit an \<open>int\<close>), \<open>Some None\<close> a frame that is skipped.\<close>

definition wrap_frame :: "video_frame \<Rightarrow> qimage option option" where
  "wrap_frame f =
     (let w = width (frame_size f); h = height (frame_size f) in
      if cpu_pixels f = [] \<or> w = 0 \<or> h = 0 then Some None
      else if unat w * 4 \<ge> 2 ^ 31 \<or> unat h \<ge> 2 ^ 31 \<or> length (cpu_pixels f) < unat w * unat h * 4 then None
      else Some (Some \<lparr>img_width = unat w, img_height = unat h, img_bytes = take (unat w * unat h * 4) (cpu_pixels f)\<rparr>))"

datatype source_capturer = NativeCapturer | StubCapturer capturer

datatype source_signal = ActiveChanged | SourceStatusChanged | FrameArrived

record local_source =
  source_capturer :: "source_capturer option"
  last_frame :: "qimage option"
  source_status :: qstring
  source_active :: bool
  using_real_backend :: bool
  gui_queue :: "qimage list"
  source_log :: "source_signal list"

definition new_local_source :: local_source where
  "new_local_source = \<lparr>source_capturer = None, last_frame = None, source_status = q ''Idle'', source_active = False,
     using_real_backend = False, gui_queue = [], source_log = []\<rparr>"

definition setStatus :: "qstring \<Rightarrow> local_source \<Rightarrow> local_source" where
  "setStatus t s = (if source_status s = t then s
     else s\<lparr>source_status := t, source_log := source_log s @ [SourceStatusChanged]\<rparr>)"

definition currentFrame :: "local_source \<Rightarrow> qimage option" where "currentFrame s = last_frame s"

definition permission_text :: qstring where
  "permission_text = q ''Screen Recording permission needed '' @ [0x2014] @ q '' grant REDesk in System Settings ''
     @ [0x25B8] @ q '' Privacy & Security '' @ [0x25B8] @ q '' Screen Recording, then retry.''"

definition preview_config :: capture_config where
  "preview_config = default_capture_config\<lparr>target_fps := 60, capture_cursor := True,
     preferred_format := BGRA8\<rparr>"

text \<open>\<open>native\<close> is whether the platform factory returns a capturer and \<open>native_status\<close> what its start
  returns.\<close>

definition createCapturer :: "source_capturer option" where
  "createCapturer = Some (StubCapturer createStubCapturer)"

fun source_capturer_start :: "status \<Rightarrow> source_capturer \<Rightarrow> status \<times> source_capturer" where
  "source_capturer_start native_status NativeCapturer = (native_status, NativeCapturer)"
| "source_capturer_start native_status (StubCapturer c) =
     (let (st, c) = cap_start preview_config (setFrameCallback True c) in (st, StubCapturer c))"

definition source_start :: "bool \<Rightarrow> status \<Rightarrow> local_source \<Rightarrow> local_source" where
  "source_start native native_status s =
     (if source_active s then s
      else
        (let s = s\<lparr>source_capturer := (if native then Some NativeCapturer else None)\<rparr>;
             s = s\<lparr>using_real_backend := source_capturer s \<noteq> None\<rparr>;
             s = (if source_capturer s = None then s\<lparr>source_capturer := createCapturer\<rparr> else s)
         in case source_capturer s of
              None \<Rightarrow> setStatus (q ''No capturer available'') s
            | Some c \<Rightarrow>
                (let (st, c) = source_capturer_start native_status c;
                     s = s\<lparr>source_capturer := Some c\<rparr>
                 in if \<not> status_ok st
                    then (setStatus (if code st = PermissionDenied then permission_text else q (message st)) s)\<lparr>source_capturer := None\<rparr>
                    else
                      (let s = s\<lparr>source_active := True\<rparr>;
                           s = setStatus (if using_real_backend s then q ''Capturing real screen''
                                          else q ''Capturing synthetic test pattern (stub)'') s
                       in s\<lparr>source_log := source_log s @ [ActiveChanged]\<rparr>))))"

definition source_stop :: "local_source \<Rightarrow> local_source" where
  "source_stop s =
     (let s = s\<lparr>source_capturer := None\<rparr>;
          s = (if source_active s then s\<lparr>source_active := False, source_log := source_log s @ [ActiveChanged]\<rparr> else s)
      in setStatus (q ''Idle'') s)"

text \<open>The GUI thread runs the oldest queued call.\<close>

definition source_deliver :: "qimage \<Rightarrow> local_source \<Rightarrow> local_source" where
  "source_deliver img s = s\<lparr>last_frame := Some img, source_log := source_log s @ [FrameArrived]\<rparr>"

definition run_gui :: "local_source \<Rightarrow> local_source" where
  "run_gui s = fold source_deliver (gui_queue s) (s\<lparr>gui_queue := []\<rparr>)"

text \<open>One frame from the stub capturer, on the capture thread: the frames it logs are those its
  callback gets.\<close>

definition on_frame :: "capture_event \<Rightarrow> local_source option \<Rightarrow> local_source option" where
  "on_frame e s = (case s of None \<Rightarrow> None | Some s \<Rightarrow>
     (case e of
        Cursor _ \<Rightarrow> Some s
      | Frame f \<Rightarrow> (case wrap_frame f of None \<Rightarrow> None | Some None \<Rightarrow> Some s
                    | Some (Some img) \<Rightarrow> Some (s\<lparr>gui_queue := gui_queue s @ [img]\<rparr>))))"

definition source_pump :: "(u64 \<Rightarrow> u32 \<times> u32) \<Rightarrow> local_source \<Rightarrow> local_source option" where
  "source_pump orbit s =
     (case source_capturer s of
        Some (StubCapturer c) \<Rightarrow>
          (let c' = pump orbit c
           in fold on_frame (drop (length (cap_log c)) (cap_log c')) (Some (s\<lparr>source_capturer := Some (StubCapturer c')\<rparr>)))
      | _ \<Rightarrow> Some s)"

fun source_pumps :: "(u64 \<Rightarrow> u32 \<times> u32) \<Rightarrow> nat \<Rightarrow> local_source \<Rightarrow> local_source option" where
  "source_pumps orbit 0 s = Some s"
| "source_pumps orbit (Suc n) s = (case source_pumps orbit n s of None \<Rightarrow> None | Some t \<Rightarrow> source_pump orbit t)"

section \<open>Properties\<close>

definition frame_image :: "nat \<Rightarrow> qimage" where
  "frame_image i = \<lparr>img_width = 1280, img_height = 720, img_bytes = cpu_pixels (stub_frame (of_nat i))\<rparr>"

lemma wrap_stub_frame: "wrap_frame (stub_frame (of_nat i)) = Some (Some (frame_image i))"
proof -
  have l: "length (cpu_pixels (stub_frame (of_nat i))) = 3686400"
    by (simp add: stub_frame_def length_gradient kStubWidth_def kStubHeight_def)
  then have "cpu_pixels (stub_frame (of_nat i)) \<noteq> []" by auto
  moreover have "frame_size (stub_frame (of_nat i)) = \<lparr>width = 1280, height = 720\<rparr>"
    by (simp add: stub_frame_def kStubWidth_def kStubHeight_def)
  ultimately show ?thesis using l by (simp add: wrap_frame_def frame_image_def)
qed

definition streaming :: "nat \<Rightarrow> local_source \<Rightarrow> bool" where
  "streaming i s \<longleftrightarrow> (\<exists>c. source_capturer s = Some (StubCapturer c) \<and> frame_cb c \<and> \<not> cursor_cb c \<and> capturing c \<and> frame_index c = of_nat i)"

lemma pump_streaming:
  assumes "streaming i s"
  shows "\<exists>t. source_pump orbit s = Some t \<and> streaming (Suc i) t \<and> gui_queue t = gui_queue s @ [frame_image i]
    \<and> last_frame t = last_frame s \<and> source_log t = source_log s \<and> source_active t = source_active s"
  using assms
  by (auto simp: streaming_def source_pump_def pump_def deliverFrame_def deliverCursor_def on_frame_def wrap_stub_frame add.commute)

lemma pumps_streaming:
  assumes "streaming 0 s"
  shows "\<exists>t. source_pumps orbit n s = Some t \<and> streaming n t \<and> gui_queue t = gui_queue s @ map frame_image [0..<n]
    \<and> last_frame t = last_frame s \<and> source_log t = source_log s \<and> source_active t = source_active s"
proof (induction n)
  case 0
  with assms show ?case by simp
next
  case (Suc n)
  then obtain t where t: "source_pumps orbit n s = Some t" "streaming n t" "gui_queue t = gui_queue s @ map frame_image [0..<n]"
    "last_frame t = last_frame s" "source_log t = source_log s" "source_active t = source_active s" by blast
  from pump_streaming [OF t(2), of orbit] t show ?case by auto
qed

lemma fold_deliver:
  "fold source_deliver imgs s = s\<lparr>last_frame := (if imgs = [] then last_frame s else Some (last imgs)),
     source_log := source_log s @ replicate (length imgs) FrameArrived\<rparr>"
  by (induction imgs arbitrary: s) (simp_all add: source_deliver_def)

lemma start_streaming: "streaming 0 (source_start False st new_local_source)"
  by (simp add: source_start_def new_local_source_def createCapturer_def streaming_def cap_start_def setFrameCallback_def
      createStubCapturer_def setStatus_def status_ok_def success_def)

text \<open>In the default build the preview shows every synthetic frame: after its start, n captured
  frames reach the GUI thread as n images of 1280 by 720 pixels in capture order without reading
  past a buffer, each signalled once, and the picture shown is the last one.\<close>

theorem preview_shows_every_frame:
  "\<exists>t. source_pumps orbit n (source_start False st new_local_source) = Some t \<and> source_active t
    \<and> gui_queue t = map (\<lambda>i. \<lparr>img_width = 1280, img_height = 720, img_bytes = cpu_pixels (stub_frame (of_nat i))\<rparr>) [0..<n]
    \<and> currentFrame (run_gui t) = (if n = 0 then None else
        Some \<lparr>img_width = 1280, img_height = 720, img_bytes = cpu_pixels (stub_frame (of_nat (n - 1)))\<rparr>)
    \<and> source_log (run_gui t) = [SourceStatusChanged, ActiveChanged] @ replicate n FrameArrived"
proof -
  let ?s = "source_start False st new_local_source"
  have s: "gui_queue ?s = []" "last_frame ?s = None" "source_log ?s = [SourceStatusChanged, ActiveChanged]" "source_active ?s"
    by (simp_all add: source_start_def new_local_source_def createCapturer_def cap_start_def setFrameCallback_def
        createStubCapturer_def setStatus_def status_ok_def success_def q_def)
  from pumps_streaming [OF start_streaming, of orbit n st] obtain t where
    t: "source_pumps orbit n ?s = Some t" "gui_queue t = map frame_image [0..<n]" "last_frame t = None"
      "source_log t = [SourceStatusChanged, ActiveChanged]" "source_active t" using s by auto
  moreover have "last (map frame_image [0..<n]) = frame_image (n - 1)" if "n \<noteq> 0"
    using that by (simp add: last_map last_upt)
  ultimately show ?thesis
    by (intro exI [of _ t]) (auto simp: run_gui_def fold_deliver currentFrame_def frame_image_def)
qed

end
