(* ===== verification/Mac_Capturer.thy ===== *)
theory Mac_Capturer
  imports Ui_Preview
begin

text \<open>
  \<open>platform/macos/capturer_sck.mm\<close>: the ScreenCaptureKit capturer, the one native backend that
  works. What the system answers is an argument: the permission check, the shareable content, the
  result of adding the output and of starting the stream. \<open>runAndWait\<close> waits ten seconds for a
  completion handler: \<open>NoAnswer\<close> is a handler that has not run by then (what it would still write
  later is ignored). An exception that leaves a method is \<open>Inl\<close> its type.
\<close>

section \<open>The system\<close>

datatype 'a answer = NoAnswer | Answered 'a

record sc_display =
  sc_displayID :: u32
  sc_width :: u64
  sc_height :: u64

text \<open>\<open>Answered None\<close> is an error or no content; for the start, \<open>Answered False\<close> is an error.\<close>

record sck_system =
  preflight :: bool
  main_display :: u32
  shareable_content :: "sc_display list option answer"
  add_output_ok :: bool
  start_answer :: "bool answer"

section \<open>The capturer\<close>

record stream_configuration =
  stream_width :: u64
  stream_height :: u64
  frame_interval_scale :: u32
  stream_format :: pixel_format
  shows_cursor :: bool
  queue_depth :: nat

datatype sck_event = RequestAccess | StopCapture | SckFrame video_frame

record sck_capturer =
  sck_stream :: "(sc_display \<times> stream_configuration) option"
  sck_frame_cb :: bool
  sck_cursor_cb :: bool
  sck_capturing :: bool
  sck_width :: u32
  sck_height :: u32
  sck_log :: "sck_event list"

definition new_sck_capturer :: sck_capturer where
  "new_sck_capturer = \<lparr>sck_stream = None, sck_frame_cb = False, sck_cursor_cb = False, sck_capturing = False,
     sck_width = 0, sck_height = 0, sck_log = []\<rparr>"

definition sck_setFrameCallback :: "bool \<Rightarrow> sck_capturer \<Rightarrow> sck_capturer" where
  "sck_setFrameCallback cb c = c\<lparr>sck_frame_cb := cb\<rparr>"

definition sck_setCursorCallback :: "bool \<Rightarrow> sck_capturer \<Rightarrow> sck_capturer" where
  "sck_setCursorCallback cb c = c\<lparr>sck_cursor_cb := cb\<rparr>"

definition sck_display_info :: "sck_system \<Rightarrow> sc_display \<Rightarrow> display_info" where
  "sck_display_info sys d =
     (let i = to_string (unat (sc_displayID d)) in
      \<lparr>display_id = i, display_name = ''Display '' @ i,
       display_size = \<lparr>width = ucast (sc_width d), height = ucast (sc_height d)\<rparr>,
       display_scale = 0x3F800000, display_isPrimary = (main_display sys = sc_displayID d)\<rparr>)"

definition sck_enumerateDisplays :: "sck_system \<Rightarrow> display_info list result" where
  "sck_enumerateDisplays sys =
     (case shareable_content sys of
        NoAnswer \<Rightarrow> fail Internal ''no content''
      | Answered None \<Rightarrow> fail PermissionDenied ''SCShareableContent failed (Screen Recording permission?)''
      | Answered (Some ds) \<Rightarrow> good (map (sck_display_info sys) ds))"

text \<open>\<open>std::stoul\<close> in base ten on a 64-bit \<open>unsigned long\<close>: leading white space, a sign, digits; what
  follows them is ignored.\<close>

definition c_isspace :: "char \<Rightarrow> bool" where
  "c_isspace c \<longleftrightarrow> of_char c = (32 :: nat) \<or> (9 \<le> (of_char c :: nat) \<and> of_char c \<le> (13 :: nat))"

definition c_isdigit :: "char \<Rightarrow> bool" where
  "c_isdigit c \<longleftrightarrow> 48 \<le> (of_char c :: nat) \<and> of_char c \<le> (57 :: nat)"

definition stoul :: "string \<Rightarrow> string + u64" where
  "stoul s =
     (let s = dropWhile c_isspace s;
          neg = (s \<noteq> [] \<and> hd s = CHR ''-'');
          s = (if s \<noteq> [] \<and> hd s \<in> {CHR ''-'', CHR ''+''} then tl s else s);
          ds = takeWhile c_isdigit s
      in if ds = [] then Inl ''std::invalid_argument''
         else if string_val ds \<ge> 2 ^ 64 then Inl ''std::out_of_range''
         else Inr (if neg then - of_nat (string_val ds) else of_nat (string_val ds)))"

definition sck_configuration :: "capture_config \<Rightarrow> sc_display \<Rightarrow> stream_configuration" where
  "sck_configuration cfg d =
     \<lparr>stream_width = sc_width d, stream_height = sc_height d,
      frame_interval_scale = (if target_fps cfg \<noteq> 0 then target_fps cfg else 60),
      stream_format = BGRA8, shows_cursor = capture_cursor cfg, queue_depth = 5\<rparr>"

text \<open>The display to capture: the wanted one, or else the first.\<close>

definition sck_target :: "u32 \<Rightarrow> sc_display list \<Rightarrow> sc_display option" where
  "sck_target wantId ds =
     (case find (\<lambda>d. sc_displayID d = wantId) ds of
        Some d \<Rightarrow> Some d
      | None \<Rightarrow> (case ds of [] \<Rightarrow> None | d # _ \<Rightarrow> Some d))"

definition grant_text :: string where
  "grant_text = ''Screen Recording permission needed. Grant REDesk in System Settings > Privacy & Security > Screen Recording, then click Start again.''"

text \<open>From the resolved display on: the stream is made, its output added, and it is started.\<close>

definition sck_open :: "sck_system \<Rightarrow> capture_config \<Rightarrow> sc_display \<Rightarrow> sck_capturer \<Rightarrow> status \<times> sck_capturer" where
  "sck_open sys cfg d c =
     (let c = c\<lparr>sck_width := ucast (sc_width d), sck_height := ucast (sc_height d),
                sck_stream := Some (d, sck_configuration cfg d)\<rparr>
      in if \<not> add_output_ok sys then (error_status Internal ''addStreamOutput failed'', c)
         else if start_answer sys = Answered False then (error_status Internal ''startCapture failed'', c)
         else (success, c\<lparr>sck_capturing := True\<rparr>))"

definition sck_start :: "sck_system \<Rightarrow> capture_config \<Rightarrow> sck_capturer \<Rightarrow> string + (status \<times> sck_capturer)" where
  "sck_start sys cfg c =
     (if sck_capturing c then Inr (success, c)
      else if \<not> preflight sys then
        Inr (error_status PermissionDenied grant_text, c\<lparr>sck_log := sck_log c @ [RequestAccess]\<rparr>)
      else
        (case (case shareable_content sys of NoAnswer \<Rightarrow> None | Answered content \<Rightarrow> content) of
           None \<Rightarrow> Inr (error_status PermissionDenied ''Screen Recording permission denied or unavailable'', c)
         | Some ds \<Rightarrow>
             (case (if cap_display_id cfg = [] then Inr (main_display sys) else map_sum id ucast (stoul (cap_display_id cfg))) of
                Inl e \<Rightarrow> Inl e
              | Inr wantId \<Rightarrow>
                  (case sck_target wantId ds of
                     None \<Rightarrow> Inr (error_status NotFound ''no display to capture'', c)
                   | Some d \<Rightarrow> Inr (sck_open sys cfg d c)))))"

definition sck_stop :: "sck_capturer \<Rightarrow> sck_capturer" where
  "sck_stop c =
     (if \<not> sck_capturing c \<and> sck_stream c = None then c
      else
        (let c = c\<lparr>sck_capturing := False\<rparr>
         in if sck_stream c \<noteq> None then c\<lparr>sck_log := sck_log c @ [StopCapture], sck_stream := None\<rparr> else c))"

section \<open>Samples\<close>

record pixel_buffer =
  pb_width :: u64
  pb_height :: u64
  pb_stride :: u64
  pb_base :: "byte list option"

text \<open>One \<open>memcpy\<close> of a row; \<open>None\<close> is a copy outside of a buffer.\<close>

definition copy_row :: "u64 \<Rightarrow> u64 \<Rightarrow> byte list \<Rightarrow> nat \<Rightarrow> byte list option \<Rightarrow> byte list option" where
  "copy_row dstStride srcStride src y dst =
     (case dst of None \<Rightarrow> None | Some dst \<Rightarrow>
       (let n = unat dstStride; at = unat (of_nat y * dstStride); from = unat (of_nat y * srcStride)
        in if at + n \<le> length dst \<and> from + n \<le> length src
           then Some (take at dst @ take n (drop from src) @ drop (at + n) dst) else None))"

definition pack_rows :: "pixel_buffer \<Rightarrow> byte list option" where
  "pack_rows b =
     (let w = ucast (pb_width b) :: u32; h = ucast (pb_height b) :: u32;
          dstStride = ucast w * 4 :: u64;
          dst = replicate (unat (dstStride * ucast h)) 0
      in case pb_base b of
           None \<Rightarrow> Some dst
         | Some src \<Rightarrow> fold (copy_row dstStride (pb_stride b) src) [0..<unat h] (Some dst))"

definition onSample :: "bool \<Rightarrow> pixel_buffer option \<Rightarrow> sck_capturer \<Rightarrow> sck_capturer option" where
  "onSample valid px c =
     (if \<not> sck_frame_cb c \<or> \<not> valid then Some c
      else case px of
        None \<Rightarrow> Some c
      | Some b \<Rightarrow> (case pack_rows b of
          None \<Rightarrow> None
        | Some pixels \<Rightarrow> Some (c\<lparr>sck_log := sck_log c @ [SckFrame (default_frame\<lparr>
              frame_size := \<lparr>width = ucast (pb_width b), height = ucast (pb_height b)\<rparr>,
              format := pixel_format_code BGRA8, timestamp_us := 0, cpu_pixels := pixels\<rparr>)]\<rparr>)))"

section \<open>Packing\<close>

definition buffer_row :: "pixel_buffer \<Rightarrow> byte list \<Rightarrow> nat \<Rightarrow> byte list" where
  "buffer_row b src y = take (unat (pb_width b) * 4) (drop (y * unat (pb_stride b)) src)"

text \<open>A buffer as the system hands it out: sizes below 2 to the 32, rows that hold their pixels, and all rows
  in memory.\<close>

definition buffer_ok :: "pixel_buffer \<Rightarrow> byte list \<Rightarrow> bool" where
  "buffer_ok b src \<longleftrightarrow> pb_base b = Some src \<and> unat (pb_width b) < 2 ^ 32 \<and> unat (pb_height b) < 2 ^ 32
     \<and> unat (pb_width b) * 4 \<le> unat (pb_stride b)
     \<and> unat (pb_height b) * unat (pb_stride b) \<le> length src \<and> length src < 2 ^ 64"

lemma unat_widen: "unat (ucast (v :: u32) :: u64) = unat v"
proof -
  have "unat v < 2 ^ 32" using unsigned_less [of v, where 'a = nat] by simp
  then show ?thesis by (simp add: unsigned_ucast_eq take_bit_nat_eq_self)
qed

lemma unat_small_mult:
  assumes "y * unat s < 2 ^ 64"
  shows "unat (of_nat y * s :: u64) = y * unat s"
  using assms by (simp add: unat_word_ariths unat_of_nat mod_mult_left_eq)

lemma rows_copied:
  assumes "k \<le> h" and "\<And>y. y < h \<Longrightarrow> unat (of_nat y * dw) = y * n \<and> unat (of_nat y * sw) = y * m"
    and "unat dw = n" and "n \<le> m" and "h * m \<le> length src"
  shows "fold (copy_row dw sw src) [0..<k] (Some (replicate (h * n) 0))
    = Some (concat (map (\<lambda>y. take n (drop (y * m) src)) [0..<k]) @ replicate ((h - k) * n) 0)"
  using assms(1)
proof (induction k)
  case (Suc k)
  let ?done = "concat (map (\<lambda>y. take n (drop (y * m) src)) [0..<k])"
  have row: "y * m + n \<le> length src" if "y < h" for y
  proof -
    have "Suc y * m \<le> h * m" using that by (intro mult_right_mono) auto
    with assms(4,5) show ?thesis by simp
  qed
  have len: "length ?done = k * n"
  proof -
    have "length (take n (drop (y * m) src)) = n" if "y \<in> set [0..<k]" for y using row [of y] that Suc.prems by simp
    then have "length ?done = length [0..<k] * n" by (rule length_concat_const)
    then show ?thesis by simp
  qed
  have rest: "(h - k) * n = n + (h - Suc k) * n" using Suc.prems by (simp add: Suc_diff_Suc flip: mult_Suc)
  have "k * n + n \<le> h * n" using Suc.prems by (metis Suc_le_eq add.commute mult_Suc mult_le_mono1)
  then show ?case
    using Suc assms(2) [of k] assms(3) row [of k] len rest
    by (simp add: copy_row_def replicate_add)
qed simp

lemma pack_rows_exact:
  assumes "buffer_ok b src"
  shows "pack_rows b = Some (concat (map (buffer_row b src) [0..<unat (pb_height b)]))"
    and "length (concat (map (buffer_row b src) [0..<unat (pb_height b)])) = unat (pb_height b) * (unat (pb_width b) * 4)"
proof -
  let ?w = "unat (pb_width b)" and ?h = "unat (pb_height b)" and ?m = "unat (pb_stride b)"
  have ok: "pb_base b = Some src" "?w < 2 ^ 32" "?h < 2 ^ 32" "?w * 4 \<le> ?m" "?h * ?m \<le> length src" "length src < 2 ^ 64"
    using assms by (simp_all add: buffer_ok_def)
  have w: "unat (ucast (pb_width b) :: u32) = ?w" and h: "unat (ucast (pb_height b) :: u32) = ?h"
    using ok(2,3) by (simp_all add: unsigned_ucast_eq take_bit_nat_eq_self)
  have hm: "y * ?m < 2 ^ 64" "y * (?w * 4) < 2 ^ 64" if "y \<le> ?h" for y
  proof -
    have "y * ?m \<le> ?h * ?m" "y * (?w * 4) \<le> y * ?m" using that ok(4) by (intro mult_right_mono mult_left_mono; simp)+
    with ok(5,6) show "y * ?m < 2 ^ 64" "y * (?w * 4) < 2 ^ 64" by linarith+
  qed
  have w2: "unat (ucast (ucast (pb_width b) :: u32) :: u64) = ?w" and h2: "unat (ucast (ucast (pb_height b) :: u32) :: u64) = ?h"
    by (simp_all only: unat_widen w h)
  then have d: "unat (ucast (ucast (pb_width b) :: u32) * 4 :: u64) = ?w * 4"
    using ok(2) by (simp only: unat_word_ariths) simp
  then have size: "unat (ucast (ucast (pb_width b) :: u32) * 4 * ucast (ucast (pb_height b) :: u32) :: u64) = ?h * (?w * 4)"
    using hm(2) [of ?h] h2 by (simp only: unat_word_ariths(2) mult.commute) simp
  have "unat (of_nat y * (ucast (ucast (pb_width b) :: u32) * 4) :: u64) = y * (?w * 4)
      \<and> unat (of_nat y * pb_stride b :: u64) = y * ?m" if "y < ?h" for y
    using hm [of y] that d by (simp add: unat_small_mult)
  from rows_copied [OF order_refl this d ok(4,5)]
  show "pack_rows b = Some (concat (map (buffer_row b src) [0..<?h]))"
    by (simp add: pack_rows_def ok(1) h size buffer_row_def [abs_def])
  have "length (buffer_row b src y) = ?w * 4" if "y < ?h" for y
  proof -
    have "Suc y * ?m \<le> ?h * ?m" using that by (intro mult_right_mono) auto
    with ok(4,5) show ?thesis by (simp add: buffer_row_def)
  qed
  then show "length (concat (map (buffer_row b src) [0..<?h])) = ?h * (?w * 4)"
    using length_concat_const [of "[0..<?h]" "buffer_row b src"] by simp
qed

section \<open>Properties\<close>

text \<open>C40: What ScreenCaptureKit delivers is what the preview shows: for a valid sample whose rows may be padded,
  the capturer reads and writes only inside its buffers, drops the padding, and the preview queues
  for its GUI thread an image of the same size whose rows are the rows of the screen buffer.\<close>

theorem sck_screen_reaches_preview:
  assumes "buffer_ok b src" and "sck_frame_cb c"
    and "0 < unat (pb_width b)" and "unat (pb_width b) * 4 < 2 ^ 31"
    and "0 < unat (pb_height b)" and "unat (pb_height b) < 2 ^ 31"
  shows "\<exists>f. onSample True (Some b) c = Some (c\<lparr>sck_log := sck_log c @ [SckFrame f]\<rparr>)
    \<and> on_frame (Frame f) (Some s) = Some (s\<lparr>gui_queue := gui_queue s @
        [\<lparr>img_width = unat (pb_width b), img_height = unat (pb_height b),
          img_bytes = concat (map (buffer_row b src) [0..<unat (pb_height b)])\<rparr>]\<rparr>)"
proof -
  let ?w = "unat (pb_width b)" and ?h = "unat (pb_height b)"
  let ?px = "concat (map (buffer_row b src) [0..<?h])"
  let ?f = "default_frame\<lparr>frame_size := \<lparr>width = ucast (pb_width b), height = ucast (pb_height b)\<rparr>,
    format := pixel_format_code BGRA8, timestamp_us := 0, cpu_pixels := ?px\<rparr>"
  have l: "length ?px = ?w * ?h * 4" using pack_rows_exact(2) [OF assms(1)] by simp
  then have ne: "?px \<noteq> []" using assms(3,5) by (metis length_0_conv mult_is_0 not_gr_zero zero_neq_numeral)
  have u: "unat (ucast (pb_width b) :: u32) = ?w" "unat (ucast (pb_height b) :: u32) = ?h"
    using assms(1) by (simp_all add: buffer_ok_def unsigned_ucast_eq take_bit_nat_eq_self)
  then have nz: "ucast (pb_width b) \<noteq> (0 :: u32)" "ucast (pb_height b) \<noteq> (0 :: u32)"
    using assms(3,5) by (metis unsigned_0 not_gr_zero)+
  have "wrap_frame ?f = Some (Some \<lparr>img_width = ?w, img_height = ?h, img_bytes = ?px\<rparr>)"
    using l ne u nz assms(4,6) by (simp add: wrap_frame_def)
  moreover have "onSample True (Some b) c = Some (c\<lparr>sck_log := sck_log c @ [SckFrame ?f]\<rparr>)"
    using pack_rows_exact(1) [OF assms(1)] assms(2) by (simp add: onSample_def)
  ultimately show ?thesis by (intro exI [of _ ?f]) (simp add: on_frame_def)
qed

text \<open>Two pixels in two rows, each row padded by two bytes.\<close>

definition demo_buffer :: pixel_buffer where
  "demo_buffer = \<lparr>pb_width = 1, pb_height = 2, pb_stride = 6, pb_base = Some [1, 2, 3, 4, 0, 0, 5, 6, 7, 8, 0, 0]\<rparr>"

theorem sck_screen_reaches_preview_witness:
  "\<exists>f. onSample True (Some demo_buffer) (sck_setFrameCallback True new_sck_capturer)
        = Some ((sck_setFrameCallback True new_sck_capturer)\<lparr>sck_log := [SckFrame f]\<rparr>)
    \<and> on_frame (Frame f) (Some new_local_source) = Some (new_local_source\<lparr>gui_queue :=
        [\<lparr>img_width = 1, img_height = 2, img_bytes = [1, 2, 3, 4, 5, 6, 7, 8]\<rparr>]\<rparr>)"
proof -
  have rows: "concat (map (buffer_row demo_buffer [1, 2, 3, 4, 0, 0, 5, 6, 7, 8, 0, 0]) [0..<unat (pb_height demo_buffer)])
      = [1, 2, 3, 4, 5, 6, 7, 8]"
    by code_simp
  have "buffer_ok demo_buffer [1, 2, 3, 4, 0, 0, 5, 6, 7, 8, 0, 0]"
    by (simp add: buffer_ok_def demo_buffer_def)
  from sck_screen_reaches_preview [OF this, of "sck_setFrameCallback True new_sck_capturer" new_local_source, unfolded rows]
  show ?thesis
    by (simp add: demo_buffer_def sck_setFrameCallback_def new_sck_capturer_def new_local_source_def)
qed

lemma to_string_digits: "list_all c_isdigit (to_string n)"
proof (induction n rule: to_string.induct)
  case (1 n)
  have d: "c_isdigit (char_of (48 + k :: nat))" if "k < 10" for k
    using that unfolding c_isdigit_def of_char_digit [OF that] by simp
  show ?case
    using 1 d [of n] d [of "n mod 10"] by (subst to_string.simps) simp
qed

lemma stoul_to_string: "n < 2 ^ 64 \<Longrightarrow> stoul (to_string n) = Inr (of_nat n)"
proof -
  assume n: "n < 2 ^ 64"
  obtain a s where s: "to_string n = a # s" by (cases "to_string n") auto
  then have a: "c_isdigit a" using to_string_digits [of n] by simp
  have "takeWhile c_isdigit (to_string n) = to_string n"
    using to_string_digits [of n] by (simp add: takeWhile_eq_all_conv list_all_iff)
  then have tw: "takeWhile c_isdigit (a # s) = a # s" and sv: "string_val (a # s) = n"
    using string_val_to_string [of n] by (simp_all only: s)
  from a have "\<not> c_isspace a" "a \<noteq> CHR ''-''" "a \<noteq> CHR ''+''" by (auto simp: c_isdigit_def c_isspace_def)
  with n show ?thesis by (simp add: stoul_def s tw sv del: takeWhile.simps)
qed

text \<open>A display the capturer lists is the display it captures when started with the listed id, whichever
  display is the main one: printing the 32-bit id and reading it back with stoul loses nothing.\<close>

theorem sck_listed_display_is_captured:
  assumes "shareable_content sys = Answered (Some ds)" and "distinct (map sc_displayID ds)" and "d \<in> set ds"
    and "preflight sys" and "\<not> sck_capturing c"
  shows "sck_enumerateDisplays sys = good (map (sck_display_info sys) ds)
    \<and> sck_start sys (cfg\<lparr>cap_display_id := display_id (sck_display_info sys d)\<rparr>) c
        = Inr (sck_open sys (cfg\<lparr>cap_display_id := display_id (sck_display_info sys d)\<rparr>) d c)"
proof -
  have "unat (sc_displayID d) < 2 ^ 32" using unsigned_less [of "sc_displayID d", where 'a = nat] by simp
  then have "stoul (to_string (unat (sc_displayID d))) = Inr (of_nat (unat (sc_displayID d)))" by (intro stoul_to_string) simp
  moreover have "ucast (of_nat (unat (sc_displayID d)) :: u64) = sc_displayID d"
    by (rule bit_word_eqI) (auto simp: bit_simps dest: bit_imp_le_length)
  moreover have "find (\<lambda>e. sc_displayID e = sc_displayID d) ds = Some d"
    using assms(2,3) by (induction ds) auto
  ultimately show ?thesis
    using assms by (simp add: sck_enumerateDisplays_def sck_start_def sck_display_info_def sck_target_def)
qed

text \<open>A start that reports success leaves the capturer capturing and one that reports an error does not, and
  a stop after either releases the stream; the only exception a start lets out is that of stoul on
  the display id. But a system that does not answer the start within ten seconds counts as started.\<close>

theorem sck_start_outcomes:
  "(case sck_start sys cfg c of
      Inl e \<Rightarrow> stoul (cap_display_id cfg) = Inl e
    | Inr (st, c') \<Rightarrow> status_ok st = sck_capturing c'
        \<and> sck_stream (sck_stop c') = None \<and> \<not> sck_capturing (sck_stop c'))
   \<and> sck_start (sys\<lparr>start_answer := NoAnswer\<rparr>) cfg c = sck_start (sys\<lparr>start_answer := Answered True\<rparr>) cfg c"
proof
  have stop: "sck_stream (sck_stop c') = None \<and> \<not> sck_capturing (sck_stop c')" for c'
    by (cases "sck_stream c'") (auto simp: sck_stop_def)
  have inl: "map_sum id f x = Inl e \<Longrightarrow> x = Inl e" for f :: "u64 \<Rightarrow> u32" and x :: "string + u64" and e by (cases x) simp_all
  have opened: "status_ok st = sck_capturing c'" if "sck_open sys cfg d c = (st, c')" "\<not> sck_capturing c" for d st c'
    using that by (auto simp: sck_open_def split: if_splits)
  show "case sck_start sys cfg c of Inl e \<Rightarrow> stoul (cap_display_id cfg) = Inl e
    | Inr (st, c') \<Rightarrow> status_ok st = sck_capturing c' \<and> sck_stream (sck_stop c') = None \<and> \<not> sck_capturing (sck_stop c')"
    using opened stop
    by (auto simp: sck_start_def dest: inl split: option.splits sum.splits answer.splits prod.splits)
  show "sck_start (sys\<lparr>start_answer := NoAnswer\<rparr>) cfg c = sck_start (sys\<lparr>start_answer := Answered True\<rparr>) cfg c"
    by (simp add: sck_start_def sck_open_def split: option.splits sum.splits)
qed

theorem sck_listed_display_is_captured_witness:
  "\<exists>sys d. sck_start sys (default_capture_config\<lparr>cap_display_id := ''7''\<rparr>) new_sck_capturer
      = Inr (sck_open sys (default_capture_config\<lparr>cap_display_id := ''7''\<rparr>) d new_sck_capturer)
    \<and> sc_displayID d = 7 \<and> main_display sys = 1"
proof -
  define d where "d = \<lparr>sc_displayID = 7, sc_width = 1920, sc_height = 1080\<rparr>"
  define sys where "sys = \<lparr>preflight = True, main_display = 1,
    shareable_content = Answered (Some [\<lparr>sc_displayID = 1, sc_width = 2560, sc_height = 1600\<rparr>, d]),
    add_output_ok = True, start_answer = Answered True\<rparr>"
  have "char_of (55 :: nat) = CHR ''7''" by code_simp
  then have "display_id (sck_display_info sys d) = ''7''"
    by (simp add: sck_display_info_def d_def to_string.simps [of 7])
  moreover have "shareable_content sys = Answered (Some [\<lparr>sc_displayID = 1, sc_width = 2560, sc_height = 1600\<rparr>, d])"
    "preflight sys" "\<not> sck_capturing new_sck_capturer" "distinct (map sc_displayID [\<lparr>sc_displayID = 1, sc_width = 2560, sc_height = 1600\<rparr>, d])"
    by (simp_all add: sys_def d_def new_sck_capturer_def)
  ultimately have "sck_start sys (default_capture_config\<lparr>cap_display_id := ''7''\<rparr>) new_sck_capturer
      = Inr (sck_open sys (default_capture_config\<lparr>cap_display_id := ''7''\<rparr>) d new_sck_capturer)"
    using sck_listed_display_is_captured [of sys "[\<lparr>sc_displayID = 1, sc_width = 2560, sc_height = 1600\<rparr>, d]" d
      new_sck_capturer default_capture_config] by simp
  moreover have "sc_displayID d = 7" "main_display sys = 1" by (simp_all add: d_def sys_def)
  ultimately show ?thesis by blast
qed

end
