(* ===== verification/Platform_Backends.thy ===== *)
theory Platform_Backends
  imports Mac_Capturer Crypto_Core Codec_Core Transport_Core Input_Core
begin

text \<open>
  \<open>platform/\<close> and the factories of \<open>core/\<close>: what each build gets. \<open>real\<close> is the build option
  \<open>REDESK_USE_REAL_BACKENDS\<close>. The Linux and Windows backends, and the macOS ones other than the
  capturer (\<open>Mac_Capturer\<close>), are placeholders that refuse every operation, each with its own error;
  doubles are their 64 bits. The macOS placeholders are not built: the factories return null.
\<close>

section \<open>Linux\<close>

datatype capture_tier = TierNone | WaylandPortalDmaBuf | WaylandPortalShm | X11XShm

record pipewire_capturer =
  pw_tier :: capture_tier

definition new_pipewire_capturer :: pipewire_capturer where
  "new_pipewire_capturer = \<lparr>pw_tier = TierNone\<rparr>"

definition pipewire_enumerate :: "pipewire_capturer \<Rightarrow> display_info list result" where
  "pipewire_enumerate c = fail Unsupported ''PipeWire EnumerateDisplays not implemented''"

definition pipewire_start :: "capture_config \<Rightarrow> pipewire_capturer \<Rightarrow> status \<times> pipewire_capturer" where
  "pipewire_start cfg c = (error_status Unsupported ''PipeWire/portal Start not implemented'', c)"

definition pipewire_stop :: "pipewire_capturer \<Rightarrow> status \<times> pipewire_capturer" where
  "pipewire_stop c = (success, c)"

definition pipewire_acquire_frame :: "u32 \<Rightarrow> pipewire_capturer \<Rightarrow> video_frame result \<times> pipewire_capturer" where
  "pipewire_acquire_frame timeout_ms c = (fail Unsupported ''PipeWire AcquireFrame not implemented'', c)"

definition pipewire_acquire_cursor :: "pipewire_capturer \<Rightarrow> cursor_sample result \<times> pipewire_capturer" where
  "pipewire_acquire_cursor c = (fail Unsupported ''PipeWire cursor not implemented'', c)"

datatype linux_vendor = LinuxNone | Vaapi | LinuxNvenc

record linux_encoder =
  linux_vendor :: linux_vendor

definition new_linux_encoder :: linux_encoder where "new_linux_encoder = \<lparr>linux_vendor = LinuxNone\<rparr>"

definition linux_configure :: "encoder_config \<Rightarrow> linux_encoder \<Rightarrow> status \<times> linux_encoder" where
  "linux_configure cfg e = (error_status Unsupported ''Linux HW encoder Configure not implemented'', e)"

definition linux_encode :: "video_frame \<Rightarrow> linux_encoder \<Rightarrow> encoded_packet result \<times> linux_encoder" where
  "linux_encode f e = (fail Unsupported ''Linux HW encode not implemented'', e)"

definition linux_request_keyframe :: "linux_encoder \<Rightarrow> status \<times> linux_encoder" where
  "linux_request_keyframe e = (error_status Unsupported ''RequestKeyframe not implemented'', e)"

text \<open>The input ladder probes its rung when it is made; no rung is usable yet.\<close>

datatype input_rung = RungNone | PortalLibei | WlrootsVirtual | XTest

definition ProbeBackend :: input_rung where "ProbeBackend = RungNone"

record input_ladder =
  rung :: input_rung

definition new_input_ladder :: input_ladder where "new_input_ladder = \<lparr>rung = ProbeBackend\<rparr>"

datatype native_input = MoveAbsolute u64 u64 | MoveRelative u32 u32 | Button mouse_button bool | Scroll u32 u32
  | KeyScancode u16 bool bool | TypeUnicode "u16 list" | ResetModifiers

definition ladder_unsupported :: status where
  "ladder_unsupported = error_status Unsupported ''Linux input ladder: no usable backend / not implemented''"

fun ladder_inject :: "native_input \<Rightarrow> input_ladder \<Rightarrow> status \<times> input_ladder" where
  "ladder_inject (MoveAbsolute x y) l = (ladder_unsupported, l)"
| "ladder_inject (MoveRelative dx dy) l = (ladder_unsupported, l)"
| "ladder_inject (Button b down) l = (ladder_unsupported, l)"
| "ladder_inject (Scroll dx dy) l = (ladder_unsupported, l)"
| "ladder_inject (KeyScancode sc ext down) l = (ladder_unsupported, l)"
| "ladder_inject (TypeUnicode t) l = (ladder_unsupported, l)"
| "ladder_inject ResetModifiers l = (ladder_unsupported, l)"

text \<open>The key stores have no state; \<open>Load\<close> answers that there is nothing.\<close>

datatype key_request = StoreKey string "byte list" | EraseKey string

definition libsecret_change :: "key_request \<Rightarrow> status" where
  "libsecret_change r = error_status Unsupported ''libsecret keystore not implemented''"

definition libsecret_load :: "string \<Rightarrow> byte list result" where
  "libsecret_load key = fail NotFound ''libsecret Load not implemented''"

section \<open>Windows\<close>

definition dxgi_enumerate :: "display_info list result" where
  "dxgi_enumerate = fail Unsupported ''DXGI EnumerateDisplays not implemented''"

definition dxgi_start :: "capture_config \<Rightarrow> status" where
  "dxgi_start cfg = error_status Unsupported ''DXGI Start not implemented''"

definition dxgi_stop :: status where "dxgi_stop = success"

definition dxgi_acquire_frame :: "u32 \<Rightarrow> video_frame result" where
  "dxgi_acquire_frame timeout_ms = fail Unsupported ''DXGI AcquireFrame not implemented''"

definition dxgi_acquire_cursor :: "cursor_sample result" where
  "dxgi_acquire_cursor = fail Unsupported ''DXGI cursor not implemented''"

datatype windows_vendor = WindowsNone | WindowsNvenc | Amf | Qsv | MediaFoundation

record windows_encoder =
  windows_vendor :: windows_vendor

definition new_windows_encoder :: windows_encoder where "new_windows_encoder = \<lparr>windows_vendor = WindowsNone\<rparr>"

definition windows_configure :: "encoder_config \<Rightarrow> windows_encoder \<Rightarrow> status \<times> windows_encoder" where
  "windows_configure cfg e = (error_status Unsupported ''Windows HW encoder Configure not implemented'', e)"

definition windows_encode :: "video_frame \<Rightarrow> windows_encoder \<Rightarrow> encoded_packet result \<times> windows_encoder" where
  "windows_encode f e = (fail Unsupported ''Windows HW encode not implemented'', e)"

definition windows_request_keyframe :: "windows_encoder \<Rightarrow> status \<times> windows_encoder" where
  "windows_request_keyframe e = (error_status Unsupported ''RequestKeyframe not implemented'', e)"

definition sendinput_unsupported :: status where
  "sendinput_unsupported = error_status Unsupported ''SendInput injection not implemented''"

fun sendinput_inject :: "native_input \<Rightarrow> status" where
  "sendinput_inject (MoveAbsolute x y) = sendinput_unsupported"
| "sendinput_inject (MoveRelative dx dy) = sendinput_unsupported"
| "sendinput_inject (Button b down) = sendinput_unsupported"
| "sendinput_inject (Scroll dx dy) = sendinput_unsupported"
| "sendinput_inject (KeyScancode sc ext down) = sendinput_unsupported"
| "sendinput_inject (TypeUnicode t) = sendinput_unsupported"
| "sendinput_inject ResetModifiers = sendinput_unsupported"

definition dpapi_change :: "key_request \<Rightarrow> status" where
  "dpapi_change r = error_status Unsupported ''DPAPI keystore not implemented''"

definition dpapi_load :: "string \<Rightarrow> byte list result" where
  "dpapi_load key = fail NotFound ''DPAPI Load not implemented''"

section \<open>macOS\<close>

definition videotoolbox_configure :: "encoder_config \<Rightarrow> status" where
  "videotoolbox_configure cfg = error_status Unsupported ''VideoToolbox Configure not implemented''"

definition videotoolbox_encode :: "video_frame \<Rightarrow> encoded_packet result" where
  "videotoolbox_encode f = fail Unsupported ''VideoToolbox encode not implemented''"

definition videotoolbox_request_keyframe :: status where
  "videotoolbox_request_keyframe = error_status Unsupported ''RequestKeyframe not implemented''"

definition cgevent_unsupported :: status where
  "cgevent_unsupported = error_status Unsupported ''CGEvent injection not implemented''"

fun cgevent_inject :: "native_input \<Rightarrow> status" where
  "cgevent_inject (MoveAbsolute x y) = cgevent_unsupported"
| "cgevent_inject (MoveRelative dx dy) = cgevent_unsupported"
| "cgevent_inject (Button b down) = cgevent_unsupported"
| "cgevent_inject (Scroll dx dy) = cgevent_unsupported"
| "cgevent_inject (KeyScancode sc ext down) = cgevent_unsupported"
| "cgevent_inject (TypeUnicode t) = cgevent_unsupported"
| "cgevent_inject ResetModifiers = cgevent_unsupported"

definition keychain_change :: "key_request \<Rightarrow> status" where
  "keychain_change r = error_status Unsupported ''Keychain keystore not implemented''"

definition keychain_load :: "string \<Rightarrow> byte list result" where
  "keychain_load key = fail NotFound ''Keychain Load not implemented''"

section \<open>The Windows service pipe\<close>

text \<open>The security of the service's pipe; handles are addresses, 0 for null.\<close>

record pipe_acl_policy =
  allow_administrators :: bool
  allow_system :: bool
  extra_user_sid :: string

definition default_pipe_acl_policy :: pipe_acl_policy where
  "default_pipe_acl_policy = \<lparr>allow_administrators = True, allow_system = True, extra_user_sid = ''''\<rparr>"

record pipe_security =
  security_attributes :: u64
  security_descriptor :: u64

definition BuildServicePipeSecurity :: "bool \<Rightarrow> pipe_acl_policy \<Rightarrow> pipe_security result" where
  "BuildServicePipeSecurity real policy =
     (if real then fail Unsupported ''BuildServicePipeSecurity not implemented''
      else fail Unsupported ''named-pipe ACL unavailable in stub build'')"

definition ReleaseServicePipeSecurity :: "bool \<Rightarrow> pipe_security \<Rightarrow> pipe_security" where
  "ReleaseServicePipeSecurity real sec =
     (if real then sec\<lparr>security_attributes := 0, security_descriptor := 0\<rparr>
      else sec\<lparr>security_attributes := 0, security_descriptor := 0\<rparr>)"

section \<open>Factories\<close>

datatype platform = Windows | MacOS | Linux

datatype native_capturer = PipeWirePortalCapturer pipewire_capturer | DxgiCapturer | SckCapturer sck_capturer
datatype native_encoder = LinuxVideoEncoder linux_encoder | WindowsVideoEncoder windows_encoder
datatype native_injector = LinuxInputLadder input_ladder | SendInputInjector
datatype native_keystore = LibSecretKeyStore | DpapiKeyStore

definition CreateNativeCapturer :: "platform \<Rightarrow> bool \<Rightarrow> native_capturer option" where
  "CreateNativeCapturer p real =
     (if \<not> real then None
      else case p of Linux \<Rightarrow> Some (PipeWirePortalCapturer new_pipewire_capturer) | Windows \<Rightarrow> Some DxgiCapturer
           | MacOS \<Rightarrow> Some (SckCapturer new_sck_capturer))"

definition CreateNativeVideoEncoder :: "platform \<Rightarrow> bool \<Rightarrow> native_encoder option" where
  "CreateNativeVideoEncoder p real =
     (if \<not> real then None
      else case p of Linux \<Rightarrow> Some (LinuxVideoEncoder new_linux_encoder)
           | Windows \<Rightarrow> Some (WindowsVideoEncoder new_windows_encoder) | MacOS \<Rightarrow> None)"

definition CreateNativeInputInjector :: "platform \<Rightarrow> bool \<Rightarrow> native_injector option" where
  "CreateNativeInputInjector p real =
     (if \<not> real then None
      else case p of Linux \<Rightarrow> Some (LinuxInputLadder new_input_ladder) | Windows \<Rightarrow> Some SendInputInjector | MacOS \<Rightarrow> None)"

definition CreateNativeKeyStore :: "platform \<Rightarrow> bool \<Rightarrow> native_keystore option" where
  "CreateNativeKeyStore p real =
     (if \<not> real then None
      else case p of Linux \<Rightarrow> Some LibSecretKeyStore | Windows \<Rightarrow> Some DpapiKeyStore | MacOS \<Rightarrow> None)"

text \<open>The factories of \<open>core\<close>, which never return a native object.\<close>

definition build_createCapturer :: "bool \<Rightarrow> capturer" where
  "build_createCapturer real = (if real then createStubCapturer else createStubCapturer)"

definition build_createInputInjector :: "bool \<Rightarrow> injector" where
  "build_createInputInjector real = (if real then createStubInputInjector else createStubInputInjector)"

definition build_createNoiseSession :: "bool \<Rightarrow> noise_pattern \<Rightarrow> handshake_role \<Rightarrow> identity \<Rightarrow> byte list \<Rightarrow> noise option" where
  "build_createNoiseSession real p r l k = (if real then None else Some (createNoiseSession p r l k))"

definition build_createKeyStore :: "bool \<Rightarrow> keystore" where
  "build_createKeyStore real = (if real then createKeyStore else createKeyStore)"

section \<open>Facts\<close>

text \<open>The start of a native capturer with its frame callback set; the system is that of the macOS one.\<close>

fun native_start :: "sck_system \<Rightarrow> native_capturer \<Rightarrow> string + status" where
  "native_start sys (PipeWirePortalCapturer c) = Inr (fst (pipewire_start preview_config c))"
| "native_start sys DxgiCapturer = Inr (dxgi_start preview_config)"
| "native_start sys (SckCapturer c) = map_sum id fst (sck_start sys preview_config (sck_setFrameCallback True c))"

definition preview_start :: "platform \<Rightarrow> bool \<Rightarrow> sck_system \<Rightarrow> local_source \<Rightarrow> string + local_source" where
  "preview_start p real sys s =
     (case CreateNativeCapturer p real of
        None \<Rightarrow> Inr (source_start False success s)
      | Some c \<Rightarrow> map_sum id (\<lambda>st. source_start True st s) (native_start sys c))"

lemmas factory_defs = CreateNativeCapturer_def CreateNativeVideoEncoder_def CreateNativeInputInjector_def CreateNativeKeyStore_def

text \<open>The placeholders refuse everything but a stop, and no key comes out of a key store.\<close>

lemma placeholders_refuse:
  "\<not> status_ok (fst (pipewire_start cfg c))" "\<not> status_ok (dxgi_start cfg)"
  "status_ok (fst (pipewire_stop c))" "status_ok dxgi_stop"
  "\<not> status_ok (fst (ladder_inject i l))" "\<not> status_ok (sendinput_inject i)"
  "\<not> status_ok (libsecret_change r)" "\<not> status_ok (dpapi_change r)" "\<not> status_ok (keychain_change r)"
  by (simp_all add: pipewire_start_def dxgi_start_def pipewire_stop_def dxgi_stop_def libsecret_change_def dpapi_change_def keychain_change_def)
    (cases i; simp add: ladder_unsupported_def sendinput_unsupported_def)+

lemma setStatus_sel [simp]:
  "source_status (setStatus t s) = t" "source_active (setStatus t s) = source_active s"
  "using_real_backend (setStatus t s) = using_real_backend s" "last_frame (setStatus t s) = last_frame s"
  by (simp_all add: setStatus_def)

definition preview_state :: "local_source \<Rightarrow> bool \<times> bool \<times> qstring \<times> qimage option" where
  "preview_state s = (source_active s, using_real_backend s, source_status s, currentFrame s)"

lemma start_stub:
  "preview_state (source_start False st new_local_source)
     = (True, False, q ''Capturing synthetic test pattern (stub)'', None)"
  by (simp add: preview_state_def source_start_def new_local_source_def createCapturer_def cap_start_def
      setFrameCallback_def createStubCapturer_def currentFrame_def)

lemma start_native:
  "preview_state (source_start True st new_local_source)
     = (if status_ok st then (True, True, q ''Capturing real screen'', None)
        else (False, True, if code st = PermissionDenied then permission_text else q (message st), None))"
  by (simp add: preview_state_def source_start_def new_local_source_def currentFrame_def)

lemma sck_target_Nil [simp]: "sck_target w [] = None" by (simp add: sck_target_def)

lemma sck_target_Cons: "\<exists>e. sck_target w (d # ds) = Some e"
  by (cases "find (\<lambda>d. sc_displayID d = w) (d # ds)") (simp_all add: sck_target_def del: find.simps)

lemma sck_open_status:
  "fst (sck_open sys cfg d c) =
     (if \<not> add_output_ok sys then error_status Internal ''addStreamOutput failed''
      else if start_answer sys = Answered False then error_status Internal ''startCapture failed''
      else success)"
  by (simp add: sck_open_def)

lemma mac_start:
  "native_start sys (SckCapturer new_sck_capturer) = Inr
     (if \<not> preflight sys then error_status PermissionDenied grant_text
      else case shareable_content sys of
        Answered (Some ds) \<Rightarrow>
          (if ds = [] then error_status NotFound ''no display to capture''
           else if \<not> add_output_ok sys then error_status Internal ''addStreamOutput failed''
           else if start_answer sys = Answered False then error_status Internal ''startCapture failed''
           else success)
      | _ \<Rightarrow> error_status PermissionDenied ''Screen Recording permission denied or unavailable'')"
proof -
  have c: "cap_display_id preview_config = []" "\<not> sck_capturing (sck_setFrameCallback True new_sck_capturer)"
    by (simp_all add: preview_config_def default_capture_config_def sck_setFrameCallback_def new_sck_capturer_def)
  show ?thesis
  proof (cases "shareable_content sys")
    case NoAnswer
    with c show ?thesis by (simp add: sck_start_def)
  next
    case (Answered r)
    show ?thesis
    proof (cases r)
      case None
      with Answered c show ?thesis by (simp add: sck_start_def)
    next
      case (Some ds)
      show ?thesis
      proof (cases ds)
        case Nil
        with Answered Some c show ?thesis by (simp add: sck_start_def)
      next
        case (Cons d ds')
        with Answered Some c sck_target_Cons [of "main_display sys" d ds'] show ?thesis
          by (cases "preflight sys") (auto simp only: sck_start_def native_start.simps map_sum.simps sck_open_status Let_def answer.case option.case
              sum.case if_True if_False not_True_eq_False not_False_eq_True simp_thms id_apply fst_conv list.distinct)
      qed
    qed
  qed
qed

text \<open>The preview picks its capturer by build and platform. Without native backends it comes up
  everywhere with the synthetic picture. With them it stays off on Linux and Windows, showing the
  placeholder's refusal and not falling back to the synthetic picture. On macOS it captures the
  screen if the permission is there, a display is found and the stream starts, and otherwise shows
  why not, asking for the permission when the system refuses or does not answer. Starting never
  throws, and no picture is shown before the first frame.\<close>

theorem preview_backend_choice:
  "map_sum id preview_state (preview_start p real sys new_local_source) = Inr
     (let off = (\<lambda>t. (False, True, t, None)) in
      if \<not> real then (True, False, q ''Capturing synthetic test pattern (stub)'', None)
      else case p of
        Linux \<Rightarrow> off (q ''PipeWire/portal Start not implemented'')
      | Windows \<Rightarrow> off (q ''DXGI Start not implemented'')
      | MacOS \<Rightarrow>
          (if preflight sys
           then (case shareable_content sys of
               NoAnswer \<Rightarrow> off permission_text
             | Answered None \<Rightarrow> off permission_text
             | Answered (Some []) \<Rightarrow> off (q ''no display to capture'')
             | Answered (Some (d # ds)) \<Rightarrow>
                 (if \<not> add_output_ok sys then off (q ''addStreamOutput failed'')
                  else if start_answer sys = Answered False then off (q ''startCapture failed'')
                  else (True, True, q ''Capturing real screen'', None)))
           else off permission_text))"
proof (cases "real \<and> p = MacOS")
  case True
  obtain X where st: "native_start sys (SckCapturer new_sck_capturer) = Inr X" and X: "X = (if \<not> preflight sys then error_status PermissionDenied grant_text
      else case shareable_content sys of
        Answered (Some ds) \<Rightarrow>
          (if ds = [] then error_status NotFound ''no display to capture''
           else if \<not> add_output_ok sys then error_status Internal ''addStreamOutput failed''
           else if start_answer sys = Answered False then error_status Internal ''startCapture failed''
           else success)
      | _ \<Rightarrow> error_status PermissionDenied ''Screen Recording permission denied or unavailable'')"
    using mac_start by blast
  have "map_sum id preview_state (preview_start p real sys new_local_source)
      = Inr (preview_state (source_start True X new_local_source))"
    using True by (simp add: preview_start_def CreateNativeCapturer_def st del: native_start.simps)
  moreover have "preview_state (source_start True (error_status e t) new_local_source)
      = (False, True, if e = PermissionDenied then permission_text else q t, None)" if "e \<noteq> Ok" for e t
    using that by (simp add: start_native error_status_def status_ok_def)
  moreover have "preview_state (source_start True success new_local_source) = (True, True, q ''Capturing real screen'', None)"
    by (simp add: start_native success_def status_ok_def)
  ultimately show ?thesis
    using True by (simp add: X split: answer.split option.split list.split)
next
  case False
  then show ?thesis
    by (cases p)
      (auto simp: preview_start_def CreateNativeCapturer_def start_stub start_native pipewire_start_def dxgi_start_def
        error_status_def status_ok_def)
qed

end
