(* ===== verification/Floating.thy ===== *)
theory Floating
  imports Complex_Main Prelude "HOL-Library.Log_Nat" "HOL-Library.While_Combinator"
begin

text \<open>
  Doubles: the finite values of IEEE binary64 as rationals. An operation is the exact one followed
  by \<open>dbl\<close>, which rounds to 53 significant bits, ties to even. The exponent is not bounded: the
  values the modelled code computes are neither near 2 to the 1024 nor below 2 to the -1022.
\<close>

section \<open>Rounding\<close>

definition round_half_even :: "rat \<Rightarrow> int" where
  "round_half_even x =
     (let m = \<lfloor>x\<rfloor>; d = x - of_int m in
      if d < 1 / 2 then m else if 1 / 2 < d then m + 1 else if even m then m else m + 1)"

text \<open>The exponent of the leading bit of a positive rational.\<close>

definition exponent_of :: "rat \<Rightarrow> int" where
  "exponent_of v =
     (let (a, b) = quotient_of v; k = bitlen a - bitlen b in if 2 powi k \<le> v then k else k - 1)"

definition dbl :: "rat \<Rightarrow> rat" where
  "dbl v =
     (if v = 0 then 0
      else (let s = 2 powi (52 - exponent_of \<bar>v\<bar>) in of_int (round_half_even (v * s)) / s))"

text \<open>\<open>static_cast<int>\<close> drops the fraction.\<close>

definition toward_zero :: "rat \<Rightarrow> int" where
  "toward_zero x = (if 0 \<le> x then \<lfloor>x\<rfloor> else \<lceil>x\<rceil>)"

section \<open>Facts\<close>

lemma round_half_even_error: "\<bar>of_int (round_half_even x) - x\<bar> \<le> 1 / 2"
  using floor_correct [of x] by (auto simp: round_half_even_def Let_def abs_le_iff)

lemma exponent_of_bounds:
  assumes "0 < v"
  shows "2 powi exponent_of v \<le> v" and "v < 2 powi (exponent_of v + 1)"
proof -
  obtain a b where ab: "quotient_of v = (a, b)" by (cases "quotient_of v")
  then have b: "0 < b" and v: "v = of_int a / of_int b" by (simp_all add: quotient_of_denom_pos quotient_of_div)
  with assms have a: "0 < a" by (simp add: zero_less_divide_iff)
  have p: "(2 :: rat) powi (bitlen n - 1) \<le> of_int n \<and> of_int n < (2 :: rat) powi bitlen n" if "0 < n" for n
  proof -
    from that have "1 \<le> bitlen n" by (auto simp: bitlen_alt_def)
    then have e: "(2 :: rat) powi (bitlen n - 1) = of_int (2 ^ nat (bitlen n - 1))" "(2 :: rat) powi bitlen n = of_int (2 ^ nat (bitlen n))"
      by (simp_all add: power_int_def)
    show ?thesis unfolding e of_int_le_iff of_int_less_iff using bitlen_bounds [OF that] by blast
  qed
  let ?k = "bitlen a - bitlen b"
  have "(2 :: rat) powi (?k - 1) = 2 powi (bitlen a - 1) / 2 powi bitlen b"
    by (simp add: power_int_diff power_int_add)
  also have "\<dots> \<le> of_int a / of_int b"
    using p [OF a] p [OF b] a b by (intro frac_le) auto
  finally have lo: "(2 :: rat) powi (?k - 1) \<le> v" by (simp add: v)
  have "of_int a / of_int b < 2 powi bitlen a / (2 :: rat) powi (bitlen b - 1)"
    using p [OF a] p [OF b] a b by (intro frac_less) auto
  also have "\<dots> = 2 powi (?k + 1)"
    by (simp add: power_int_diff power_int_add)
  finally have hi: "v < 2 powi (?k + 1)" by (simp add: v)
  show "2 powi exponent_of v \<le> v" "v < 2 powi (exponent_of v + 1)"
    using lo hi by (auto simp: exponent_of_def ab)
qed

lemma dbl_error: "\<bar>dbl v - v\<bar> \<le> \<bar>v\<bar> / 2 ^ 53"
proof (cases "v = 0")
  case True
  then show ?thesis by (simp add: dbl_def)
next
  case False
  define s :: rat where "s = 2 powi (52 - exponent_of \<bar>v\<bar>)"
  have s: "0 < s" by (simp add: s_def)
  from False exponent_of_bounds(1) [of "\<bar>v\<bar>"] have "2 powi exponent_of \<bar>v\<bar> * s \<le> \<bar>v\<bar> * s"
    using s by (intro mult_right_mono) auto
  then have v: "2 ^ 52 \<le> \<bar>v\<bar> * s" by (simp add: s_def flip: power_int_add)
  have "\<bar>of_int (round_half_even (v * s)) / s - v\<bar> = \<bar>of_int (round_half_even (v * s)) - v * s\<bar> / s"
    using s by (simp add: abs_if field_simps)
  also have "\<dots> \<le> 1 / 2 / s"
    using round_half_even_error [of "v * s"] s by (intro divide_right_mono) auto
  also have "\<dots> \<le> \<bar>v\<bar> / 2 ^ 53" using v s by (simp add: field_simps)
  finally show ?thesis using False by (simp add: dbl_def s_def)
qed

lemma dbl_0 [simp]: "dbl 0 = 0" by (simp add: dbl_def)

lemma dbl_close: "\<bar>v\<bar> \<le> 1000 \<Longrightarrow> \<bar>dbl v - v\<bar> \<le> 1 / 10 ^ 12"
  using dbl_error [of v] by (simp add: field_simps)

text \<open>Evaluation: the rounding of \<open>v\<close> is \<open>m / 2 ^ k\<close> when \<open>m\<close> is the integer next to \<open>v * 2 ^ k\<close> and that
  product has 53 bits.\<close>

lemma exponent_of_unique:
  assumes "2 powi e \<le> v" and "v < 2 powi (e + 1)"
  shows "exponent_of v = e"
proof -
  have "0 < v" using assms(1) by (rule less_le_trans [rotated]) simp
  from exponent_of_bounds [OF this] assms
  have "(2 :: rat) powi exponent_of v < 2 powi (e + 1)" "(2 :: rat) powi e < 2 powi (exponent_of v + 1)" by linarith+
  then have "exponent_of v < e + 1" "e < exponent_of v + 1"
    by (metis less_eq_int_code(3) not_less one_le_numeral power_int_increasing)+
  then show ?thesis by simp
qed

lemma dbl_value_scaled:
  fixes k :: int
  assumes "2 ^ 52 \<le> \<bar>v\<bar> * 2 powi k" and "\<bar>v\<bar> * 2 powi k < 2 ^ 53" and "\<bar>v * 2 powi k - of_int m\<bar> < 1 / 2 \<or> \<bar>v * 2 powi k - of_int m\<bar> = 1 / 2 \<and> even m"
  shows "dbl v = of_int m / 2 powi k"
proof -
  have k: "0 < (2 :: rat) powi k" by simp
  have p: "2 powi (52 - k) = 2 ^ 52 / (2 :: rat) powi k" "2 powi (52 - k + 1) = 2 ^ 53 / (2 :: rat) powi k"
    by (simp_all add: power_int_diff power_int_add)
  have "exponent_of \<bar>v\<bar> = 52 - k"
    by (rule exponent_of_unique; unfold p) (use assms(1,2) k in \<open>simp_all add: field_simps\<close>)
  moreover have "round_half_even (v * 2 powi k) = m"
  proof -
    have "\<lfloor>v * 2 powi k\<rfloor> = (if of_int m \<le> v * 2 powi k then m else m - 1)"
      using assms(3) by (auto simp: floor_eq_iff)
    with assms(3) show ?thesis by (auto simp: round_half_even_def abs_if split: if_splits)
  qed
  moreover have "v \<noteq> 0" using assms(1) by auto
  ultimately show ?thesis by (simp add: dbl_def)
qed

lemma dbl_value:
  assumes "2 ^ 52 \<le> \<bar>v\<bar> * 2 ^ k" and "\<bar>v\<bar> * 2 ^ k < 2 ^ 53" and "\<bar>v * 2 ^ k - of_int m\<bar> < 1 / 2"
  shows "dbl v = of_int m / 2 ^ k"
  using dbl_value_scaled [of v "int k" m] assms by simp

lemma dbl_value_tie:
  assumes "2 ^ 52 \<le> \<bar>v\<bar> * 2 ^ k" and "\<bar>v\<bar> * 2 ^ k < 2 ^ 53" and "\<bar>v * 2 ^ k - of_int m\<bar> = 1 / 2" and "even m"
  shows "dbl v = of_int m / 2 ^ k"
  using dbl_value_scaled [of v "int k" m] assms by simp

lemma dbl_value_big:
  assumes "2 ^ 52 \<le> \<bar>v\<bar> / 2 ^ j" and "\<bar>v\<bar> / 2 ^ j < 2 ^ 53" and "\<bar>v / 2 ^ j - of_int m\<bar> < 1 / 2"
  shows "dbl v = of_int m * 2 ^ j"
  using dbl_value_scaled [of v "- int j" m] assms by (simp add: power_int_minus_divide)

end
