(* ===== verification/Capture_Cursor.thy ===== *)
theory Capture_Cursor
  imports Floating Capture_Core
begin

text \<open>
  The cursor of the synthetic capturer (\<open>fastSin\<close>, \<open>fastCos\<close> and \<open>deliverCursor\<close> in
  \<open>capturer_stub.cpp\<close>), computed in doubles operation by operation. The two wrapping loops are
  \<open>while_option\<close>: \<open>None\<close> is a loop that does not end.
\<close>

section \<open>The circle\<close>

definition kPi :: rat where "kPi = dbl (314159265358979323846 / 10 ^ 20)"

definition wrap_angle :: "rat \<Rightarrow> rat option" where
  "wrap_angle x =
     (case while_option (\<lambda>x. kPi < x) (\<lambda>x. dbl (x - dbl (2 * kPi))) x of
        None \<Rightarrow> None
      | Some x \<Rightarrow> while_option (\<lambda>x. x < - kPi) (\<lambda>x. dbl (x + dbl (2 * kPi))) x)"

definition sin_poly :: "rat \<Rightarrow> rat" where
  "sin_poly x =
     (let x2 = dbl (x * x)
      in dbl (x * dbl (dbl (1 - dbl (x2 / 6)) + dbl (dbl (x2 * x2) / 120))))"

definition fastSin :: "rat \<Rightarrow> rat option" where
  "fastSin x = map_option sin_poly (wrap_angle x)"

definition fastCos :: "rat \<Rightarrow> rat option" where
  "fastCos x = fastSin (dbl (x + dbl (157079632679 / 100000000000)))"

definition orbit_offset :: "rat \<Rightarrow> u32" where
  "orbit_offset r = of_int (toward_zero (dbl (200 * r)))"

definition cursor_orbit :: "u64 \<Rightarrow> (u32 \<times> u32) option" where
  "cursor_orbit i =
     (let angle = dbl (dbl (of_nat (unat i)) * dbl (1 / 10)) in
      case fastCos angle of
        None \<Rightarrow> None
      | Some c \<Rightarrow> (case fastSin angle of
          None \<Rightarrow> None
        | Some s \<Rightarrow> Some (of_nat (kStubWidth div 2) + orbit_offset c, of_nat (kStubHeight div 2) + orbit_offset s)))"

section \<open>Bounds\<close>

lemma kPi_value: "kPi = 884279719003555 / 2 ^ 48"
  using dbl_value [of "314159265358979323846 / 10 ^ 20" 51 7074237752028440] by (simp add: kPi_def)

lemma two_kPi_numeral: "dbl (884279719003555 / 140737488355328) = 884279719003555 / 2 ^ 47"
  using dbl_value [of "884279719003555 / 140737488355328" 50 7074237752028440] by simp

lemma two_kPi: "dbl (2 * kPi) = 884279719003555 / 2 ^ 47"
  using two_kPi_numeral by (simp add: kPi_value)

lemmas kPi_values = kPi_value two_kPi two_kPi_numeral

lemma near_add: "\<bar>a - b\<bar> \<le> e \<Longrightarrow> \<bar>c - d\<bar> \<le> f \<Longrightarrow> \<bar>(a + c) - (b + d)\<bar> \<le> e + (f :: rat)"
  by linarith

lemma near_dbl: "\<bar>a - b\<bar> \<le> e \<Longrightarrow> \<bar>b\<bar> \<le> 500 \<Longrightarrow> e \<le> 1 \<Longrightarrow> \<bar>dbl a - b\<bar> \<le> e + 1 / 10 ^ 12"
  using dbl_close [of a] by linarith

text \<open>One step of the first loop takes more than 6 off, and does not fall below -3.2.\<close>

lemma wrap_down_step:
  assumes "kPi < x" and "x \<le> 2 ^ 40"
  shows "dbl (x - dbl (2 * kPi)) \<le> x - 6" and "- 3.15 \<le> dbl (x - dbl (2 * kPi))"
proof -
  have x: "\<bar>x - dbl (2 * kPi)\<bar> \<le> 2 ^ 40"
    using assms by (simp add: kPi_values)
  have "\<bar>dbl (x - dbl (2 * kPi)) - (x - dbl (2 * kPi))\<bar> \<le> 1 / 2 ^ 13"
    using order_trans [OF dbl_error divide_right_mono [OF x, of "2 ^ 53"]] by simp
  then have "dbl (x - dbl (2 * kPi)) \<le> x - dbl (2 * kPi) + 1 / 2 ^ 13"
    and "x - dbl (2 * kPi) - 1 / 2 ^ 13 \<le> dbl (x - dbl (2 * kPi))" by linarith+
  with assms show "dbl (x - dbl (2 * kPi)) \<le> x - 6" "- 3.15 \<le> dbl (x - dbl (2 * kPi))"
    by (simp_all add: kPi_values)
qed

lemma wrap_up_step:
  assumes "x < - kPi" and "- 3.15 \<le> x"
  shows "\<bar>dbl (x + dbl (2 * kPi))\<bar> \<le> 3.15" and "3 \<le> dbl (x + dbl (2 * kPi))"
proof -
  have "\<bar>dbl (x + dbl (2 * kPi)) - (x + dbl (2 * kPi))\<bar> \<le> 1 / 10 ^ 12"
    using assms by (intro dbl_close) (simp add: kPi_values)
  then have "dbl (x + dbl (2 * kPi)) \<le> x + dbl (2 * kPi) + 1 / 10 ^ 12"
    and "x + dbl (2 * kPi) - 1 / 10 ^ 12 \<le> dbl (x + dbl (2 * kPi))" by linarith+
  with assms show "\<bar>dbl (x + dbl (2 * kPi))\<bar> \<le> 3.15" "3 \<le> dbl (x + dbl (2 * kPi))"
    by (simp_all add: kPi_values)
qed

lemma wrap_angle_ends:
  assumes "- 3.15 \<le> x" and "x \<le> 2 ^ 40"
  shows "\<exists>y. wrap_angle x = Some y \<and> \<bar>y\<bar> \<le> 3.15"
proof -
  let ?P = "\<lambda>x. - 3.15 \<le> x \<and> x \<le> (2 ^ 40 :: rat)"
  have down: "?P (dbl (x - dbl (2 * kPi))) \<and> nat \<lceil>dbl (x - dbl (2 * kPi))\<rceil> < nat \<lceil>x\<rceil>" if "?P x" "kPi < x" for x
  proof -
    note s = wrap_down_step [of x]
    have "\<lceil>dbl (x - dbl (2 * kPi))\<rceil> \<le> \<lceil>x - 6\<rceil>" using that s by (intro ceiling_mono) simp
    then have "\<lceil>dbl (x - dbl (2 * kPi))\<rceil> \<le> \<lceil>x\<rceil> - 6" by simp
    moreover have "0 < \<lceil>x\<rceil>" using that by (simp add: kPi_value)
    ultimately have "nat \<lceil>dbl (x - dbl (2 * kPi))\<rceil> < nat \<lceil>x\<rceil>" by linarith
    with that s show ?thesis by auto
  qed
  then obtain y where y: "while_option (\<lambda>x. kPi < x) (\<lambda>x. dbl (x - dbl (2 * kPi))) x = Some y"
    using measure_while_option_Some [of ?P "\<lambda>x. kPi < x" "\<lambda>x. dbl (x - dbl (2 * kPi))" "\<lambda>x. nat \<lceil>x\<rceil>" x] assms by blast
  have "?P y" by (rule while_option_rule [OF _ y]) (use down assms in auto)
  moreover have "y \<le> kPi" using while_option_stop [OF y] by simp
  ultimately have yb: "\<bar>y\<bar> \<le> 3.15" by (simp add: kPi_value)
  show ?thesis
  proof (cases "y < - kPi")
    case True
    then have "while_option (\<lambda>x. x < - kPi) (\<lambda>x. dbl (x + dbl (2 * kPi))) y = Some (dbl (y + dbl (2 * kPi)))"
      using wrap_up_step [of y] yb by (simp add: while_option_unfold kPi_value)
    with True y yb wrap_up_step [of y] show ?thesis by (auto simp: wrap_angle_def)
  next
    case False
    then show ?thesis using y yb by (simp add: wrap_angle_def while_option_unfold)
  qed
qed

text \<open>The polynomial of \<open>fastSin\<close>: the tangent at 1.5925, close to its maximum, bounds it.\<close>

definition exact_poly :: "rat \<Rightarrow> rat" where
  "exact_poly x = x * (1 - x * x / 6 + (x * x) * (x * x) / 120)"

lemma exact_poly_tangent:
  "exact_poly x = exact_poly a + (1 - a ^ 2 / 2 + a ^ 4 / 24) * (x - a)
     + (x - a) ^ 2 * (x ^ 3 / 120 + 2 * a / 120 * x ^ 2 + (- 1 / 6 + 3 * a ^ 2 / 120) * x + (- 2 * a / 6 + 4 * a ^ 3 / 120))"
  unfolding exact_poly_def by (simp add: field_simps) algebra

lemma exact_poly_upper:
  assumes "0 \<le> x" and "x \<le> 3.2"
  shows "exact_poly x \<le> 1.0049"
proof -
  let ?a = "1.5925 :: rat"
  have "x * x \<le> 3.2 * 3.2" using assms by (intro mult_mono) auto
  then have x2: "x ^ 2 \<le> 10.24" by (simp add: power2_eq_square)
  then have x3: "x ^ 3 \<le> 10.24 * x"
    using mult_right_mono [OF x2 assms(1)] by (simp add: power3_eq_cube power2_eq_square)
  have x2x: "x ^ 2 \<le> 3.2 * x" using mult_right_mono [OF assms(2,1)] by (simp add: power2_eq_square)
  have "x ^ 3 / 120 + 2 * ?a / 120 * x ^ 2 + (- 1 / 6 + 3 * ?a ^ 2 / 120) * x + (- 2 * ?a / 6 + 4 * ?a ^ 3 / 120) \<le> 0"
    using x3 x2x assms by (simp add: power2_eq_square power3_eq_cube)
  then have "(x - ?a) ^ 2 * (x ^ 3 / 120 + 2 * ?a / 120 * x ^ 2 + (- 1 / 6 + 3 * ?a ^ 2 / 120) * x + (- 2 * ?a / 6 + 4 * ?a ^ 3 / 120)) \<le> 0"
    by (intro mult_nonneg_nonpos) auto
  then have "exact_poly x \<le> exact_poly ?a + (1 - ?a ^ 2 / 2 + ?a ^ 4 / 24) * (x - ?a)"
    using exact_poly_tangent [of x ?a] by linarith
  also have "1 - ?a ^ 2 / 2 + ?a ^ 4 / 24 = - 27998639 / 614400000000" by (simp add: power2_eq_square power4_eq_xxxx)
  also have "exact_poly ?a = 1234625553026957 / 1228800000000000" by (simp add: exact_poly_def)
  also have "1234625553026957 / 1228800000000000 + - 27998639 / 614400000000 * (x - ?a) \<le> 1.0049"
    using assms by (simp add: field_simps)
  finally show ?thesis .
qed

lemma exact_poly_lower:
  assumes "0 \<le> x"
  shows "0 \<le> exact_poly x"
proof -
  have "0 \<le> (x * x - 10) ^ 2" by simp
  then have "0 \<le> 1 - x * x / 6 + (x * x) * (x * x) / 120" by (simp add: power2_eq_square field_simps)
  with assms show ?thesis by (simp add: exact_poly_def)
qed

lemma exact_poly_odd: "exact_poly (- x) = - exact_poly x"
  by (simp add: exact_poly_def)

lemma exact_poly_bound: "\<bar>x\<bar> \<le> 3.2 \<Longrightarrow> \<bar>exact_poly x\<bar> \<le> 1.0049"
  using exact_poly_upper [of "\<bar>x\<bar>"] exact_poly_lower [of "\<bar>x\<bar>"] exact_poly_odd [of x]
  by (cases "0 \<le> x") auto

lemma sin_poly_close:
  assumes "\<bar>x\<bar> \<le> 3.2"
  shows "\<bar>sin_poly x - exact_poly x\<bar> \<le> 1 / 10 ^ 10"
proof -
  define y e where "y = x * x" and "e = (1 / 10 ^ 12 :: rat)"
  define x2 where "x2 = dbl y"
  define t1 where "t1 = dbl (x2 / 6)"
  define t2 where "t2 = dbl (1 - t1)"
  define t3 where "t3 = dbl (x2 * x2)"
  define t4 where "t4 = dbl (t3 / 120)"
  define t5 where "t5 = dbl (t2 + t4)"
  have "\<bar>x\<bar> * \<bar>x\<bar> \<le> 3.2 * 3.2" using assms by (intro mult_mono) auto
  then have y: "0 \<le> y" "y \<le> 11" by (simp_all add: y_def)
  have yy: "0 \<le> y * y" "y * y \<le> 121" using y mult_mono [of y 11 y 11] by auto
  have x: "\<bar>x\<bar> \<le> 4" and p: "\<bar>exact_poly x\<bar> \<le> 2"
    using assms exact_poly_bound [OF assms] by simp_all
  have e: "0 < e" "100 * e \<le> 1" by (simp_all add: e_def)
  have nd: "\<bar>dbl a - b\<bar> \<le> c + e" if "\<bar>a - b\<bar> \<le> c" "\<bar>b\<bar> \<le> 500" "c \<le> 1" for a b c
    using near_dbl [OF that] by (simp add: e_def)
  have d1: "\<bar>x2 - y\<bar> \<le> e"
    unfolding x2_def e_def using y by (intro dbl_close) simp
  have d2: "\<bar>t1 - y / 6\<bar> \<le> e + e"
    unfolding t1_def using d1 y e by (intro nd) linarith+
  have d3: "\<bar>t2 - (1 - y / 6)\<bar> \<le> 2 * e + e"
    unfolding t2_def using d2 y e by (intro nd) linarith+
  have "\<bar>x2 * x2 - y * y\<bar> = \<bar>x2 - y\<bar> * \<bar>x2 + y\<bar>" by (simp add: algebra_simps flip: abs_mult)
  also have "\<dots> \<le> e * 23" using d1 y e by (intro mult_mono) linarith+
  finally have d4: "\<bar>t3 - y * y\<bar> \<le> 23 * e + e"
    unfolding t3_def using yy e by (intro nd) linarith+
  have d5: "\<bar>t4 - y * y / 120\<bar> \<le> e + e"
    unfolding t4_def using d4 yy e by (intro nd) linarith+
  have d6: "\<bar>t5 - (1 - y / 6 + y * y / 120)\<bar> \<le> 5 * e + e"
    unfolding t5_def using d3 d5 y yy e by (intro nd) linarith+
  have "\<bar>x * t5 - exact_poly x\<bar> = \<bar>x\<bar> * \<bar>t5 - (1 - y / 6 + y * y / 120)\<bar>"
    by (simp add: exact_poly_def y_def algebra_simps flip: abs_mult)
  also have "\<dots> \<le> 4 * (5 * e + e)" using d6 x e by (intro mult_mono) linarith+
  finally have "\<bar>dbl (x * t5) - exact_poly x\<bar> \<le> 24 * e + e"
    using p e by (intro nd) simp_all
  then show ?thesis
    by (simp add: sin_poly_def t5_def t4_def t3_def t2_def t1_def x2_def y_def e_def)
qed

lemma dbl_nonneg:
  assumes "0 \<le> v"
  shows "0 \<le> dbl v" and "dbl v \<le> 2 * v"
proof -
  have "\<bar>dbl v - v\<bar> \<le> v / 2 ^ 53" using dbl_error [of v] assms by simp
  moreover have "v / 2 ^ 53 \<le> v" using assms by (simp add: field_simps)
  ultimately show "0 \<le> dbl v" "dbl v \<le> 2 * v" by linarith+
qed

lemma toward_zero_bound:
  assumes "\<bar>x\<bar> < of_int n + 1" and "0 \<le> n"
  shows "\<bar>toward_zero x\<bar> \<le> n"
proof (cases "0 \<le> x")
  case True
  with assms have "\<lfloor>x\<rfloor> \<le> n" "0 \<le> \<lfloor>x\<rfloor>" by (simp_all add: floor_le_iff)
  with True show ?thesis by (simp add: toward_zero_def)
next
  case False
  with assms have "- n \<le> \<lceil>x\<rceil>" "\<lceil>x\<rceil> \<le> 0" by (simp_all add: le_ceiling_iff ceiling_le_iff)
  with False assms show ?thesis by (simp add: toward_zero_def)
qed

lemma fastSin_bound:
  assumes "- 3.15 \<le> x" and "x \<le> 2 ^ 40"
  shows "\<exists>r. fastSin x = Some r \<and> \<bar>toward_zero (dbl (200 * r))\<bar> \<le> 200"
proof -
  from wrap_angle_ends [OF assms] obtain y where y: "wrap_angle x = Some y" "\<bar>y\<bar> \<le> 3.15" by blast
  then have "\<bar>y\<bar> \<le> 3.2" by simp
  from sin_poly_close [OF this] exact_poly_bound [OF this]
  have "\<bar>sin_poly y\<bar> \<le> 1.0049 + 1 / 10 ^ 10" by linarith
  then have r: "\<bar>sin_poly y\<bar> \<le> 1.00491" by simp
  have "\<bar>dbl (200 * sin_poly y) - 200 * sin_poly y\<bar> \<le> 1 / 10 ^ 12"
    using r by (intro dbl_close) simp
  then have "\<bar>dbl (200 * sin_poly y)\<bar> \<le> 200 * \<bar>sin_poly y\<bar> + 1 / 10 ^ 12" by linarith
  with r have "\<bar>dbl (200 * sin_poly y)\<bar> < of_int 200 + 1" by simp
  with y show ?thesis by (simp add: fastSin_def toward_zero_bound)
qed

lemma tenth: "dbl (1 / 10) = 3602879701896397 / 2 ^ 55"
  using dbl_value [of "1 / 10" 56 7205759403792794] by simp

lemma half_pi: "dbl (157079632679 / 100000000000) = 1768559438001597 / 2 ^ 50"
  using dbl_value [of "157079632679 / 100000000000" 52 7074237752006388] by simp

section \<open>Cursor samples\<close>

definition near_centre :: "nat \<Rightarrow> u32 \<Rightarrow> bool" where
  "near_centre m x \<longleftrightarrow> m - 200 \<le> unat x \<and> unat x \<le> m + 200"

lemma offset_near_centre:
  assumes "\<bar>toward_zero (dbl (200 * r))\<bar> \<le> 200" and "m \<in> {200..2000}"
  shows "near_centre m (of_nat m + orbit_offset r)"
proof -
  let ?t = "toward_zero (dbl (200 * r))"
  from assms have "0 \<le> int m + ?t" by auto
  then obtain k where k: "int m + ?t = int k" by (metis zero_le_imp_eq_int)
  have "(of_int (int m + ?t) :: u32) = of_int (int k)" unfolding k ..
  then have "of_nat m + orbit_offset r = of_nat k" unfolding orbit_offset_def by simp
  moreover from k assms have "m - 200 \<le> k" "k \<le> m + 200" by auto
  moreover from this assms have "unat (of_nat k :: u32) = k" by (simp add: unat_of_nat)
  ultimately show ?thesis by (simp add: near_centre_def)
qed

lemma cursor_orbit_near_centre:
  assumes "unat i < 2 ^ 40"
  shows "\<exists>x y. cursor_orbit i = Some (x, y) \<and> near_centre 640 x \<and> near_centre 360 y"
proof -
  define n :: rat where "n = of_nat (unat i)"
  define a where "a = dbl (dbl n * dbl (1 / 10))"
  have n: "0 \<le> n" unfolding n_def by (rule of_nat_0_le_iff)
  have "n \<le> of_nat (2 ^ 40)" unfolding n_def using assms by (intro of_nat_mono) simp
  then have n2: "n \<le> 2 ^ 40" by simp
  have "0 \<le> dbl n * dbl (1 / 10)" "dbl n * dbl (1 / 10) \<le> 2 * n * (101 / 1000)"
    using dbl_nonneg [OF n] n n2 by (auto simp: tenth intro!: mult_mono)
  then have a: "0 \<le> a" "a \<le> 404 / 1000 * n" using dbl_nonneg [of "dbl n * dbl (1 / 10)"] by (simp_all add: a_def)
  let ?h = "a + dbl (157079632679 / 100000000000)"
  have "0 \<le> ?h" "?h \<le> a + 2" using a by (simp_all add: half_pi)
  then have h: "0 \<le> dbl ?h" "dbl ?h \<le> 2 * a + 4" using dbl_nonneg [of ?h] by auto
  obtain c where "fastCos a = Some c" "\<bar>toward_zero (dbl (200 * c))\<bar> \<le> 200"
    using fastSin_bound [of "dbl ?h"] h a n n2 by (auto simp: fastCos_def)
  moreover obtain s where "fastSin a = Some s" "\<bar>toward_zero (dbl (200 * s))\<bar> \<le> 200"
    using fastSin_bound [of a] a n n2 by auto
  ultimately show ?thesis
    using offset_near_centre [of c 640] offset_near_centre [of s 360]
    by (simp add: cursor_orbit_def a_def n_def kStubWidth_def kStubHeight_def)
qed

text \<open>The positions the capturer draws. Where \<open>cursor_orbit\<close> is \<open>None\<close> the pump does not return.\<close>

definition stub_orbit :: "u64 \<Rightarrow> u32 \<times> u32" where
  "stub_orbit i = (case cursor_orbit i of Some p \<Rightarrow> p | None \<Rightarrow> (0, 0))"

fun cursor_samples :: "capture_event list \<Rightarrow> cursor_sample list" where
  "cursor_samples [] = []"
| "cursor_samples (Cursor s # es) = s # cursor_samples es"
| "cursor_samples (Frame f # es) = cursor_samples es"

lemma cursor_samples_append [simp]: "cursor_samples (es @ fs) = cursor_samples es @ cursor_samples fs"
  by (induction es rule: cursor_samples.induct) simp_all

lemma cursor_samples_pumps:
  "cursor_samples (concat (map (\<lambda>n. deliveries orbit c (f n)) ns))
     = (if cursor_cb c \<and> capture_cursor (cap_config c) then map (\<lambda>n. stub_cursor orbit (f n)) ns else [])"
  by (induction ns) (auto simp: deliveries_def)

text \<open>C37: Until the capturer has been pumped 2 to the 40 times, which takes five centuries, the computation of
  the cursor's position ends, and every cursor sample it delivers lies within 200 pixels of the
  centre of the 1280 by 720 picture in each direction, so on the picture. This holds for the
  doubles the code computes with, rounding included.\<close>

theorem cursor_stays_on_screen:
  assumes "k \<le> 2 ^ 40" and "\<not> capturing c" and "cap_log c = []"
  shows "list_all (\<lambda>j. cursor_orbit (of_nat j) \<noteq> None) [0..<k]
    \<and> (let samples = cursor_samples (cap_log ((pump stub_orbit ^^ k) (snd (cap_start config c))))
       in length samples = (if cursor_cb c \<and> capture_cursor config then k else 0)
        \<and> list_all (\<lambda>s. near_centre 640 (cursor_x s) \<and> near_centre 360 (cursor_y s)) samples)"
proof -
  have ok: "\<exists>x y. cursor_orbit (of_nat j) = Some (x, y) \<and> near_centre 640 x \<and> near_centre 360 y" if "j < k" for j
    using that assms(1) by (intro cursor_orbit_near_centre) (simp add: unat_of_nat)
  let ?s = "snd (cap_start config c)"
  have s: "capturing ?s" "frame_index ?s = 0" "cap_log ?s = []" "cursor_cb ?s = cursor_cb c" "cap_config ?s = config"
    using assms by (simp_all add: cap_start_def)
  from pumps_capturing [OF s(1), of k stub_orbit] s
  have "cursor_samples (cap_log ((pump stub_orbit ^^ k) ?s))
      = (if cursor_cb c \<and> capture_cursor config then map (\<lambda>n. stub_cursor stub_orbit (of_nat n)) [0..<k] else [])"
    by (simp add: cursor_samples_pumps)
  moreover have "near_centre 640 (cursor_x (stub_cursor stub_orbit (of_nat j))) \<and> near_centre 360 (cursor_y (stub_cursor stub_orbit (of_nat j)))"
    if "j < k" for j
    using ok [OF that] by (auto simp: stub_cursor_def stub_orbit_def)
  moreover have "cursor_orbit (of_nat j) \<noteq> None" if "j < k" for j using ok [OF that] by auto
  ultimately show ?thesis by (auto simp: list_all_iff)
qed

lemma wrap_angle_id: "\<bar>x\<bar> \<le> kPi \<Longrightarrow> wrap_angle x = Some x"
  by (simp add: wrap_angle_def while_option_unfold abs_le_iff)

lemma orbit_start: "cursor_orbit 0 = Some (840, 360)"
proof -
  have h: "dbl (1768559438001597 / 2 ^ 50) = 1768559438001597 / 2 ^ 50"
    using dbl_value [of "1768559438001597 / 2 ^ 50" 52 7074237752006388] by simp
  have x2: "dbl (1768559438001597 / 2 ^ 50 * (1768559438001597 / 2 ^ 50)) = 5556093337845391 / 2 ^ 51"
    using dbl_value [of "1768559438001597 / 2 ^ 50 * (1768559438001597 / 2 ^ 50)" 51 5556093337845391] by simp
  have t1: "dbl (5556093337845391 / 2 ^ 51 / 6) = 7408124450460521 / 2 ^ 54"
    using dbl_value [of "5556093337845391 / 2 ^ 51 / 6" 54 7408124450460521] by simp
  have t2: "dbl (1 - 7408124450460521 / 2 ^ 54) = 1325784257377683 / 2 ^ 51"
    using dbl_value_tie [of "1 - 7408124450460521 / 2 ^ 54" 53 5303137029510732] by simp
  have t3: "dbl (5556093337845391 / 2 ^ 51 * (5556093337845391 / 2 ^ 51)) = 856819425933129 / 2 ^ 47"
    using dbl_value [of "5556093337845391 / 2 ^ 51 * (5556093337845391 / 2 ^ 51)" 50 6854555407465032] by simp
  have t4: "dbl (856819425933129 / 2 ^ 47 / 120) = 7311525767962701 / 2 ^ 57"
    using dbl_value [of "856819425933129 / 2 ^ 47 / 120" 57 7311525767962701] by simp
  have t5: "dbl (1325784257377683 / 2 ^ 51 + 7311525767962701 / 2 ^ 57) = 5760107390008401 / 2 ^ 53"
    using dbl_value [of "1325784257377683 / 2 ^ 51 + 7311525767962701 / 2 ^ 57" 53 5760107390008401] by simp
  have r: "dbl (1768559438001597 / 2 ^ 50 * (5760107390008401 / 2 ^ 53)) = 4523977765070565 / 2 ^ 52"
    using dbl_value [of "1768559438001597 / 2 ^ 50 * (5760107390008401 / 2 ^ 53)" 52 4523977765070565] by simp
  have z: "dbl (200 * (4523977765070565 / 2 ^ 52)) = 3534357628961379 / 2 ^ 44"
    using dbl_value [of "200 * (4523977765070565 / 2 ^ 52)" 45 7068715257922758] by simp
  have "toward_zero (dbl (200 * sin_poly (1768559438001597 / 2 ^ 50))) = 200"
    unfolding sin_poly_def Let_def x2 t1 t2 t3 t4 t5 r z by (simp add: toward_zero_def floor_eq_iff)
  moreover have "fastCos 0 = Some (sin_poly (1768559438001597 / 2 ^ 50))"
    unfolding fastCos_def add_0 half_pi h by (simp add: fastSin_def wrap_angle_id kPi_values)
  moreover have "fastSin 0 = Some 0"
    by (simp add: fastSin_def wrap_angle_id kPi_values sin_poly_def)
  ultimately show ?thesis
    by (simp add: cursor_orbit_def orbit_offset_def kStubWidth_def kStubHeight_def toward_zero_def [of 0])
qed

theorem cursor_stays_on_screen_witness:
  "(let samples = cursor_samples (cap_log ((pump stub_orbit ^^ 1)
        (snd (cap_start default_capture_config (setCursorCallback True createStubCapturer)))))
    in length samples = 1 \<and> list_all (\<lambda>s. near_centre 640 (cursor_x s) \<and> near_centre 360 (cursor_y s)) samples)
   \<and> stub_orbit 0 = (840, 360)"
  using cursor_stays_on_screen [of 1 "setCursorCallback True createStubCapturer" default_capture_config]
  by (simp add: setCursorCallback_def createStubCapturer_def default_capture_config_def stub_orbit_def orbit_start)

text \<open>Far beyond that the loop does not end: subtracting a full turn no longer changes the angle.\<close>

lemma while_fixed:
  assumes "b s" and "c s = s"
  shows "while_option b c s = None"
proof -
  have "(c ^^ k) s = s" for k by (induction k) (simp_all add: assms)
  then show ?thesis using assms(1) by (simp add: while_option_def)
qed

lemma cursor_orbit_hangs: "cursor_orbit (2 ^ 63) = None"
proof -
  define b :: rat where "b = 7205759403792794 * 2 ^ 7"
  have "dbl (2 ^ 63) = 2 ^ 52 * 2 ^ 11" using dbl_value_big [of "2 ^ 63" 11 "2 ^ 52"] by simp
  moreover have "dbl (2 ^ 52 * 2 ^ 11 * (3602879701896397 / 2 ^ 55)) = b"
    using dbl_value_big [of "2 ^ 52 * 2 ^ 11 * (3602879701896397 / 2 ^ 55)" 7 7205759403792794] by (simp add: b_def)
  moreover have "dbl (b + 1768559438001597 / 2 ^ 50) = b"
    using dbl_value_big [of "b + 1768559438001597 / 2 ^ 50" 7 7205759403792794] by (simp add: b_def)
  ultimately have b: "dbl (dbl (dbl (2 ^ 63) * dbl (1 / 10)) + dbl (157079632679 / 100000000000)) = b"
    by (simp only: tenth half_pi)
  have "kPi < b" by (simp add: kPi_value b_def)
  moreover have "dbl (b - dbl (2 * kPi)) = b"
    unfolding two_kPi using dbl_value_big [of "b - 884279719003555 / 2 ^ 47" 7 7205759403792794] by (simp add: b_def)
  ultimately have "while_option (\<lambda>x. kPi < x) (\<lambda>x. dbl (x - dbl (2 * kPi))) b = None"
    by (intro while_fixed) simp_all
  moreover have "of_nat (unat (2 ^ 63 :: u64)) = (2 ^ 63 :: rat)" by simp
  ultimately show ?thesis by (simp only: cursor_orbit_def fastCos_def fastSin_def wrap_angle_def b Let_def option.case option.map)
qed

end
