(* ===== verification/Ui_Screen.thy ===== *)
theory Ui_Screen
  imports Ui_Preview Floating
begin

text \<open>
  \<open>ui/src/ScreenView.h/.cpp\<close>: the item that paints the local preview. Its geometry is computed in
  doubles (\<open>Floating\<close>); the calls on the painter are a list. A source is named by a number, and
  what its \<open>currentFrame\<close> returns is an argument of \<open>paint\<close>.
\<close>

section \<open>The item\<close>

datatype view_signal = SourceChanged | ViewUpdate

record screen_view =
  fill_color :: string
  view_source :: "nat option"
  frame_connection :: "nat option"
  view_log :: "view_signal list"

definition new_screen_view :: screen_view where
  "new_screen_view = \<lparr>fill_color = ''#0E1116'', view_source = None, frame_connection = None, view_log = []\<rparr>"

definition setSource :: "nat option \<Rightarrow> screen_view \<Rightarrow> screen_view" where
  "setSource s v =
     (if view_source v = s then v
      else
        (let v = (if view_source v \<noteq> None then v\<lparr>frame_connection := None\<rparr> else v);
             v = v\<lparr>view_source := s\<rparr>;
             v = (if view_source v \<noteq> None then v\<lparr>frame_connection := s\<rparr> else v)
         in v\<lparr>view_log := view_log v @ [SourceChanged, ViewUpdate]\<rparr>))"

text \<open>The slot of the connection: a source emits \<open>frameArrived\<close>.\<close>

definition frame_arrived :: "nat \<Rightarrow> screen_view \<Rightarrow> screen_view" where
  "frame_arrived s v = (if frame_connection v = Some s then v\<lparr>view_log := view_log v @ [ViewUpdate]\<rparr> else v)"

section \<open>Painting\<close>

record qrectf =
  rx :: rat
  ry :: rat
  rw :: rat
  rh :: rat

definition center :: "qrectf \<Rightarrow> rat \<times> rat" where
  "center r = (dbl (rx r + dbl (rw r / 2)), dbl (ry r + dbl (rh r / 2)))"

definition qMin :: "rat \<Rightarrow> rat \<Rightarrow> rat" where "qMin a b = (if a < b then a else b)"

datatype paint_call = SetPen string | DrawText qrectf string | SmoothPixmapTransform | DrawImage qrectf qimage

definition letterbox :: "qrectf \<Rightarrow> nat \<Rightarrow> nat \<Rightarrow> qrectf" where
  "letterbox bounds w h =
     (let scale = qMin (dbl (rw bounds / of_nat w)) (dbl (rh bounds / of_nat h));
          dw = dbl (of_nat w * scale); dh = dbl (of_nat h * scale)
      in \<lparr>rx = dbl (fst (center bounds) - dbl (dw / 2)), ry = dbl (snd (center bounds) - dbl (dh / 2)), rw = dw, rh = dh\<rparr>)"

definition paint :: "qrectf \<Rightarrow> qimage option \<Rightarrow> screen_view \<Rightarrow> paint_call list" where
  "paint bounds frame v =
     (if view_source v = None then []
      else case frame of
        None \<Rightarrow> [SetPen ''#5B6573'', DrawText bounds ''No signal'']
      | Some img \<Rightarrow> [SmoothPixmapTransform, DrawImage (letterbox bounds (img_width img) (img_height img)) img])"

section \<open>Properties\<close>

lemma dbl_relative:
  assumes "0 \<le> v"
  shows "(1 - 1 / 2 ^ 53) * v \<le> dbl v" and "dbl v \<le> (1 + 1 / 2 ^ 53) * v"
proof -
  have "\<bar>dbl v - v\<bar> \<le> v / 2 ^ 53" using dbl_error [of v] assms by simp
  then have "dbl v - v \<le> v / 2 ^ 53" "v - dbl v \<le> v / 2 ^ 53" by linarith+
  then show "(1 - 1 / 2 ^ 53) * v \<le> dbl v" "dbl v \<le> (1 + 1 / 2 ^ 53) * v" by (simp_all add: algebra_simps)
qed

text \<open>A side \<open>n\<close> scaled by \<open>s\<close>, where \<open>s\<close> is a quotient of the side to be filled.\<close>

lemma scaled_side:
  assumes "0 < n" and "0 \<le> b" and "0 \<le> s"
  shows "s \<le> dbl (b / n) \<Longrightarrow> dbl (n * s) \<le> (1 + 1 / 2 ^ 51) * b"
    and "s = dbl (b / n) \<Longrightarrow> (1 - 1 / 2 ^ 51) * b \<le> dbl (n * s)"
proof -
  have b: "0 \<le> b / n" and ns: "0 \<le> n * s" using assms by simp_all
  note d = dbl_relative [OF b] dbl_relative [OF ns]
  show "dbl (n * s) \<le> (1 + 1 / 2 ^ 51) * b" if "s \<le> dbl (b / n)"
  proof -
    have "n * s \<le> n * ((1 + 1 / 2 ^ 53) * (b / n))" using that d(2) assms by (intro mult_left_mono) auto
    then have "n * s \<le> (1 + 1 / 2 ^ 53) * b" using assms by (simp add: field_simps)
    then have "(1 + 1 / 2 ^ 53) * (n * s) \<le> (1 + 1 / 2 ^ 53) * ((1 + 1 / 2 ^ 53) * b)" by (intro mult_left_mono) auto
    moreover have "(1 + 1 / 2 ^ 53) * ((1 + 1 / 2 ^ 53) * b) \<le> (1 + 1 / 2 ^ 51) * b"
      using assms by (simp add: field_simps)
    ultimately show ?thesis using d(4) by linarith
  qed
  show "(1 - 1 / 2 ^ 51) * b \<le> dbl (n * s)" if "s = dbl (b / n)"
  proof -
    have "n * ((1 - 1 / 2 ^ 53) * (b / n)) \<le> n * s" using that d(1) assms by (intro mult_left_mono) auto
    then have "(1 - 1 / 2 ^ 53) * b \<le> n * s" using assms by (simp add: field_simps)
    then have "(1 - 1 / 2 ^ 53) * ((1 - 1 / 2 ^ 53) * b) \<le> (1 - 1 / 2 ^ 53) * (n * s)" by (intro mult_left_mono) auto
    moreover have "(1 - 1 / 2 ^ 51) * b \<le> (1 - 1 / 2 ^ 53) * ((1 - 1 / 2 ^ 53) * b)"
      using assms by (simp add: field_simps)
    ultimately show ?thesis using d(3) by linarith
  qed
qed

text \<open>The rectangle fits the bounds, fills them in one direction, and has the picture's shape, each up
  to one part in 2 to the 51.\<close>

definition letterboxed :: "qrectf \<Rightarrow> nat \<Rightarrow> nat \<Rightarrow> qrectf \<Rightarrow> bool" where
  "letterboxed b w h r \<longleftrightarrow>
     (let e = 1 / 2 ^ 51 in
      rw r \<le> (1 + e) * rw b \<and> rh r \<le> (1 + e) * rh b
      \<and> ((1 - e) * rw b \<le> rw r \<or> (1 - e) * rh b \<le> rh r)
      \<and> \<bar>rw r * of_nat h - rh r * of_nat w\<bar> \<le> e * (rw r * of_nat h))"

lemma scaled_shape:
  assumes "0 < m" and "0 < n" and "0 \<le> s"
  shows "\<bar>dbl (m * s) * n - dbl (n * s) * m\<bar> \<le> 1 / 2 ^ 51 * (dbl (m * s) * n)"
proof -
  have s: "0 \<le> m * s" "0 \<le> n * s" using assms by simp_all
  let ?u = "1 / 2 ^ 53 :: rat"
  have m: "(1 - ?u) * (m * s) * n \<le> dbl (m * s) * n" "dbl (m * s) * n \<le> (1 + ?u) * (m * s) * n"
    and n: "(1 - ?u) * (n * s) * m \<le> dbl (n * s) * m" "dbl (n * s) * m \<le> (1 + ?u) * (n * s) * m"
    using dbl_relative [OF s(1)] dbl_relative [OF s(2)] assms by (auto intro: mult_right_mono)
  define k A B where "k = m * s * n" and "A = dbl (m * s) * n" and "B = dbl (n * s) * m"
  have "(1 - ?u) * k \<le> A" "A \<le> (1 + ?u) * k" "(1 - ?u) * k \<le> B" "B \<le> (1 + ?u) * k"
    using m n by (simp_all add: k_def A_def B_def mult_ac)
  then have "A - B \<le> 1 / 2 ^ 51 * A" "B - A \<le> 1 / 2 ^ 51 * A" by (simp_all add: algebra_simps)
  then have "\<bar>A - B\<bar> \<le> 1 / 2 ^ 51 * A" by linarith
  then show ?thesis unfolding A_def B_def .
qed

lemma letterbox_ok:
  assumes "0 < w" and "0 < h" and "0 \<le> rw b" and "0 \<le> rh b"
  shows "letterboxed b w h (letterbox b w h)"
proof -
  define s where "s = qMin (dbl (rw b / of_nat w)) (dbl (rh b / of_nat h))"
  have q: "0 \<le> dbl (rw b / of_nat w)" "0 \<le> dbl (rh b / of_nat h)"
    using dbl_relative(1) [of "rw b / of_nat w"] dbl_relative(1) [of "rh b / of_nat h"] assms
    by (auto intro: order_trans [rotated])
  have s: "0 \<le> s" "s \<le> dbl (rw b / of_nat w)" "s \<le> dbl (rh b / of_nat h)"
    "s = dbl (rw b / of_nat w) \<or> s = dbl (rh b / of_nat h)"
    using q by (auto simp: s_def qMin_def)
  have n: "0 < (of_nat w :: rat)" "0 < (of_nat h :: rat)" using assms by simp_all
  note scaled_side [OF n(1) assms(3) s(1)] scaled_side [OF n(2) assms(4) s(1)] scaled_shape [OF n s(1)]
  with s show ?thesis by (auto simp: letterboxed_def letterbox_def simp flip: s_def)
qed

text \<open>In the default build the view shows what was captured last: once n frames have gone through
  the preview, painting draws exactly one image, the picture of frame n - 1 at 1280 by 720, scaled
  in its own shape into the item's bounds and filling them in one direction up to rounding; and
  stopping the preview does not take that picture off the screen.\<close>

theorem preview_painted:
  assumes "view_source v \<noteq> None" and "0 \<le> rw b" and "0 \<le> rh b"
  shows "\<exists>t r. source_pumps orbit (Suc n) (source_start False st new_local_source) = Some t
    \<and> letterboxed b 1280 720 r
    \<and> (let picture = [SmoothPixmapTransform,
            DrawImage r \<lparr>img_width = 1280, img_height = 720, img_bytes = cpu_pixels (stub_frame (of_nat n))\<rparr>]
       in paint b (currentFrame (run_gui t)) v = picture
        \<and> paint b (currentFrame (source_stop (run_gui t))) v = picture \<and> \<not> source_active (source_stop (run_gui t)))"
proof -
  from pumps_streaming [OF start_streaming, of orbit "Suc n" st] obtain t where
    t: "source_pumps orbit (Suc n) (source_start False st new_local_source) = Some t"
      "gui_queue t = gui_queue (source_start False st new_local_source) @ map frame_image [0..<Suc n]" by blast
  from t(2) have g: "gui_queue t \<noteq> []" "last (gui_queue t) = frame_image n" by simp_all
  have shown: "currentFrame (run_gui t) = Some (frame_image n)" "currentFrame (source_stop s) = currentFrame s"
    "\<not> source_active (source_stop s)" for s
    using g by (simp_all add: run_gui_def fold_deliver currentFrame_def source_stop_def setStatus_def)
  have "letterboxed b 1280 720 (letterbox b 1280 720)" using assms by (intro letterbox_ok) simp_all
  with t(1) assms shown show ?thesis
    by (auto simp: paint_def frame_image_def)
qed

theorem preview_painted_witness:
  "\<exists>t r. source_pumps (\<lambda>i. (840, 360)) 3 (source_start False success new_local_source) = Some t
    \<and> letterboxed \<lparr>rx = 0, ry = 0, rw = 640, rh = 480\<rparr> 1280 720 r
    \<and> paint \<lparr>rx = 0, ry = 0, rw = 640, rh = 480\<rparr> (currentFrame (run_gui t)) (setSource (Some 1) new_screen_view)
        = [SmoothPixmapTransform, DrawImage r \<lparr>img_width = 1280, img_height = 720, img_bytes = cpu_pixels (stub_frame 2)\<rparr>]"
  using preview_painted [of "setSource (Some 1) new_screen_view" "\<lparr>rx = 0, ry = 0, rw = 640, rh = 480\<rparr>" "\<lambda>i. (840, 360)" 2 success]
  by (auto simp: setSource_def new_screen_view_def numeral_3_eq_3)

end
