(* ===== verification/Rendezvous_Reach.thy ===== *)
theory Rendezvous_Reach
  imports Rendezvous_Proofs
begin

text \<open>
  The promise the rendezvous server makes to a registered peer (\<open>src/rendezvous/rendezvous.cpp\<close>,
  \<open>registry.cpp\<close>), over whole runs of its loop. A peer that keeps its record fresh, by Keepalive or by
  registering the same key again, stays in the registry under its own key whatever other hosts
  send and whenever the sweep runs, and a lookup of its id is answered with that key; its endpoint is
  the source of the latest renewal, whoever sent it. The run is described by \<open>in_touch\<close> and
  \<open>renewed_at\<close>, recursions over the datagrams and the clock readings of the loop.
\<close>

text \<open>A datagram that renews an id's record: a Keepalive for it, or a Register with the key on record.\<close>

definition renews :: "redesk_id \<Rightarrow> static_pubkey \<Rightarrow> control_datagram \<Rightarrow> bool" where
  "renews i pk rcv = (case rcv of Inl _ \<Rightarrow> False
     | Inr (d, from) \<Rightarrow> (case decode_frame d of Inl _ \<Rightarrow> False
        | Inr f \<Rightarrow> fid f = i \<and> (ftype f = Keepalive \<or> ftype f = Register \<and> take 32 (fbody f) = pk)))"

fun in_touch :: "redesk_id \<Rightarrow> static_pubkey \<Rightarrow> int \<Rightarrow> control_input list \<Rightarrow> bool" where
  "in_touch i pk seen [] = True"
| "in_touch i pk seen ((rcv, now, now2) # is) =
     (let seen' = (if renews i pk rcv then now else seen)
      in now - seen < 90 \<and> now2 - seen' \<le> 60 \<and> in_touch i pk seen' is)"

text \<open>The source of a received datagram, and of the latest renewal in a run.\<close>

definition source_or :: "endpoint \<Rightarrow> control_datagram \<Rightarrow> endpoint" where
  "source_or ep rcv = (case rcv of Inl _ \<Rightarrow> ep | Inr (d, from) \<Rightarrow> from)"

fun renewed_at :: "redesk_id \<Rightarrow> static_pubkey \<Rightarrow> endpoint \<Rightarrow> control_input list \<Rightarrow> endpoint" where
  "renewed_at i pk ep [] = ep"
| "renewed_at i pk ep ((rcv, now, now2) # is) =
     renewed_at i pk (if renews i pk rcv then source_or ep rcv else ep) is"

text \<open>The id is on record under the key and at the endpoint, and was last seen then.\<close>

definition holds :: "redesk_id \<Rightarrow> static_pubkey \<Rightarrow> endpoint \<Rightarrow> int \<Rightarrow> rendezvous \<Rightarrow> bool" where
  "holds i pk ep t s \<longleftrightarrow> (\<exists>r. lookup (registry s) i = Some r \<and> static_key r = pk \<and> pendpoint r = ep \<and> last_seen_unix_s r = t)"

lemma holds_registry: "registry s = registry s' \<Longrightarrow> holds i pk ep t s = holds i pk ep t s'"
  by (simp add: holds_def)

lemma holds_update:
  "holds i pk ep t (s\<lparr>registry := AList.update k r (registry s)\<rparr>) \<longleftrightarrow>
     (if k = i then static_key r = pk \<and> pendpoint r = ep \<and> last_seen_unix_s r = t else holds i pk ep t s)"
  by (auto simp: holds_def)

lemma register_holds:
  assumes "registry_ok (registry s)" and "holds i pk ep t s" and "now - t < 90" and "ftype f = Register"
  shows "holds i pk (if fid f = i \<and> take 32 (fbody f) = pk then from else ep) (if fid f = i \<and> take 32 (fbody f) = pk then now else t) (snd (handle_register sg now from f s))"
proof -
  define nr where "nr = default_peer_record\<lparr>pid := fid f, pendpoint := from, static_key := take 32 (fbody f), last_seen_unix_s := now\<rparr>"
  from assms(2) obtain r where r: "lookup (registry s) i = Some r" "static_key r = pk" "pendpoint r = ep" "last_seen_unix_s r = t"
    by (auto simp: holds_def)
  have len: "length pk = 32" "i \<noteq> []" using assms(1) r by (auto simp: registry_ok_def)
  have reg: "registry (snd (handle_register sg now from f s))
      = (if length (fbody f) < 32 then registry s else snd (upsert nr (registry s)))"
    by (auto simp: handle_register_def split_beta kStaticPubKeyLen_def nr_def split: sum.splits)
  have short: "length (fbody f) < 32 \<Longrightarrow> take 32 (fbody f) \<noteq> pk"
    using len by auto
  have store: "may_store nr (registry s) \<longleftrightarrow> take 32 (fbody f) = pk" if "fid f = i"
  proof -
    have "take 32 (fbody f) = pk \<Longrightarrow> min (length (fbody f)) 32 = 32" using len(1) by (metis length_take)
    with that r len assms(3) show ?thesis by (auto simp: may_store_def nr_def)
  qed
  show ?thesis
    using reg short store assms(2) r
    by (auto simp: holds_def upsert_registry nr_def)
qed

lemma keepalive_holds:
  assumes "registry_ok (registry s)" and "holds i pk ep t s"
  shows "holds i pk (if fid f = i then from else ep) (if fid f = i then now else t) (handle_keepalive now from f s)"
proof -
  have pid: "lookup (registry s) k = Some r \<Longrightarrow> pid r = k \<and> k \<noteq> [] \<and> length (static_key r) = 32" for k r
    using assms(1) by (simp add: registry_ok_def)
  show ?thesis
    using assms(2) pid
    by (auto simp: handle_keepalive_def holds_def upsert_registry may_store_def split: option.splits)
qed

lemma acted_holds:
  assumes "registry_ok (registry s)" and "holds i pk ep t s" and "now - t < 90"
  shows "holds i pk (if renews i pk rcv then source_or ep rcv else ep) (if renews i pk rcv then now else t) (snd (acted sg rcv now s))"
proof (cases "\<exists>d from f. rcv = Inr (d, from) \<and> decode_frame d = Inr f")
  case False
  then show ?thesis using assms(2) by (auto simp: acted_def renews_def split: sum.splits)
next
  case True
  then obtain d src f where rcv: "rcv = Inr (d, src)" "decode_frame d = Inr f" by blast
  show ?thesis
    using assms(2) register_holds [OF assms, of f src sg] keepalive_holds [OF assms(1,2), of f src now]
    by (cases "ftype f") (auto simp: acted_def renews_def rcv source_or_def handle_frame_def handle_broker_def holds_def split: option.splits)
qed

lemma sweep_holds:
  assumes "registry_ok (registry s)" and "holds i pk ep t s" and "now - t \<le> 60"
  shows "holds i pk ep t (rendezvous_sweep now s)"
  using assms by (auto simp: holds_def sweep_registry)

lemma in_touch_run:
  "registry_ok (registry s) \<Longrightarrow> holds i pk ep t s \<Longrightarrow> in_touch i pk t is \<Longrightarrow>
     \<exists>t'. holds i pk (renewed_at i pk ep is) t' (foldl (rendezvous_step sg) s is)"
proof (induction "is" arbitrary: s ep t)
  case (Cons e "is")
  obtain rcv now now2 where e: "e = (rcv, now, now2)" by (cases e)
  let ?t = "if renews i pk rcv then now else t" and ?ep = "if renews i pk rcv then source_or ep rcv else ep"
  from Cons.prems(3) have c: "now - t < 90" "now2 - ?t \<le> 60" "in_touch i pk ?t is"
    by (simp_all add: e Let_def)
  have "holds i pk ?ep ?t (rendezvous_sweep now2 (snd (acted sg rcv now s)))"
    by (rule sweep_holds [OF registry_ok_acted [OF Cons.prems(1)] acted_holds [OF Cons.prems(1,2) c(1)] c(2)])
  then have "holds i pk ?ep ?t (rendezvous_step sg s e)"
    by (simp add: e rendezvous_step_def rendezvous_turn_acted)
  from Cons.IH [OF registry_ok_step [OF Cons.prems(1)] this c(3)] show ?case by (simp add: e)
qed auto

lemma holds_run_ok: "registry_ok (registry s) \<Longrightarrow> registry_ok (registry (foldl (rendezvous_step sg) s is))"
  by (induction "is" arbitrary: s) (simp_all add: registry_ok_step)

lemma lookup_reply_held:
  assumes "registry_ok (registry s)" and "holds i pk ep t s" and "decode_frame d = Inr f" and "ftype f = Lookup"
    and "(if fid f \<noteq> [] then fid f else fbody f) = i"
  shows "acted make_insecure_test_signer (Inr (d, asker)) now s =
    ([(encode_frame \<lparr>ftype = LookupOk, fid = i, fbody = encode_attestation pk (projr (test_sign i pk))
         (verify_key make_insecure_test_signer)\<rparr>, asker)], s)"
proof -
  obtain r where r: "lookup (registry s) i = Some r" "static_key r = pk" using assms(2) by (auto simp: holds_def)
  have "i \<noteq> []" "length pk = 32" using assms(1) r by (auto simp: registry_ok_def)
  with test_signer.lookup_reply [OF assms(1), of asker f] r assms(3-5) show ?thesis
    by (simp add: acted_def handle_frame_def send_frame_def test_attestation)
qed

section \<open>A peer that keeps in touch stays reachable under its own key\<close>

text \<open>C12: A registered peer that keeps in touch is never lost or re-keyed: from any state of the server in
  which an id is on record with a key, after any run in which that id is renewed at least every 60
  seconds (by Keepalives for it or Registers with the same key) and whatever other datagrams
  arrive in between, attempts to register the id with another key included, every lookup of the id,
  whether it names it in the id field or in the body, is answered with LookupOk and the
  introducer's attestation of that same key. Its endpoint is not protected in this way: it is
  exactly the source of the latest renewal, and a Keepalive that renews can come from anyone.\<close>

theorem registered_peer_stays_reachable:
  assumes "registry_ok (registry s)" and "holds i pk ep t s" and "in_touch i pk t is"
    and "decode_frame d = Inr f" and "ftype f = Lookup" and "(if fid f \<noteq> [] then fid f else fbody f) = i"
  shows "fst (acted make_insecure_test_signer (Inr (d, asker)) now (foldl (rendezvous_step make_insecure_test_signer) s is)) =
      [(encode_frame \<lparr>ftype = LookupOk, fid = i, fbody = encode_attestation pk (projr (test_sign i pk))
         (verify_key make_insecure_test_signer)\<rparr>, asker)]
    \<and> map_option pendpoint (lookup (registry (foldl (rendezvous_step make_insecure_test_signer) s is)) i)
       = Some (renewed_at i pk ep is)"
proof -
  obtain t' where h: "holds i pk (renewed_at i pk ep is) t' (foldl (rendezvous_step make_insecure_test_signer) s is)"
    using in_touch_run [OF assms(1-3)] by blast
  from lookup_reply_held [OF holds_run_ok [OF assms(1)] h assms(4-6)] h show ?thesis by (auto simp: holds_def)
qed

theorem registered_peer_stays_reachable_witness:
  "fst (acted make_insecure_test_signer (Inr (control_bytes Lookup [], ep_m)) 250
      (foldl (rendezvous_step make_insecure_test_signer) (with_alice 100 100)
        [(Inr (control_bytes Register (replicate 32 2), ep_m), 150, 150), (Inr (control_bytes Register (replicate 32 1), ep_a), 155, 156),
         (Inr (control_bytes Keepalive [], ep_m), 210, 215)])) =
    [(encode_frame \<lparr>ftype = LookupOk, fid = alice, fbody = encode_attestation (replicate 32 1) (projr (test_sign alice (replicate 32 1)))
         (verify_key make_insecure_test_signer)\<rparr>, ep_m)]
   \<and> map_option pendpoint (lookup (registry (foldl (rendezvous_step make_insecure_test_signer) (with_alice 100 100)
        [(Inr (control_bytes Register (replicate 32 2), ep_m), 150, 150), (Inr (control_bytes Register (replicate 32 1), ep_a), 155, 156),
         (Inr (control_bytes Keepalive [], ep_m), 210, 215)])) alice) = Some ep_m"
proof -
  let ?is = "[(Inr (control_bytes Register (replicate 32 2), ep_m), 150, 150), (Inr (control_bytes Register (replicate 32 1), ep_a), 155, 156),
       (Inr (control_bytes Keepalive [], ep_m), 210, 215)]"
  have h: "holds alice (replicate 32 1) ep_a 100 (with_alice 100 100)" by (simp add: holds_def)
  have i: "in_touch alice (replicate 32 1) 100 ?is"
    by (simp add: renews_def decode_control_bytes)
  have e: "renewed_at alice (replicate 32 1) ep_a ?is = ep_m"
    by (simp add: renews_def source_or_def decode_control_bytes)
  from registered_peer_stays_reachable [OF with_alice_ok h i decode_control_bytes, of Lookup "[]" ep_m 250] show ?thesis
    unfolding e by (simp add: alice_def)
qed

end
