(* ===== verification/Ipc_Shutdown.thy ===== *)
theory Ipc_Shutdown
  imports Ipc_Server
begin

text \<open>
  The two threads of the service's IPC server (\<open>src/service/src/ipc_server.cpp\<close>, \<open>AcceptLoop\<close>,
  \<open>ServeConnection\<close> and \<open>stop\<close>) as a step relation: the accept thread tests the flag, waits in
  \<open>accept\<close>, serves one connection at a time; the thread that stops the server clears the flag,
  closes the listening socket, joins the accept thread and removes the socket path. What clients do
  (connect, send, leave) is a third actor. A read blocks until the client has sent enough or closed
  its end; nothing in the source bounds that wait. A write to a client that is gone raises SIGPIPE, for
  which \<open>src/service/src/main.cpp\<close> installs no handler, so the system ends the process.
  Replies are taken to fit the socket's buffer, so a write never blocks. Each action between
  two shared accesses is one step; the unsynchronised read of the descriptor number in
  \<open>accept\<close> while \<open>stop\<close> resets it is left out (after the close either value fails).
\<close>

section \<open>Signals\<close>

datatype signal = SIGINT | SIGTERM | SIGPIPE

datatype disposition = Default_action | Handle_signal

definition default_dispositions :: "signal \<Rightarrow> disposition" where
  "default_dispositions = (\<lambda>_. Default_action)"

definition InstallSignalHandlers :: "(signal \<Rightarrow> disposition) \<Rightarrow> signal \<Rightarrow> disposition" where
  "InstallSignalHandlers d = d(SIGINT := Handle_signal, SIGTERM := Handle_signal)"

text \<open>What a delivered signal does: the handler sets the stop flag, the default action of these
  three signals ends the process.\<close>

definition HandleSignal :: "bool \<Rightarrow> bool" where
  "HandleSignal g_stop = True"

definition deliver :: "(signal \<Rightarrow> disposition) \<Rightarrow> signal \<Rightarrow> bool \<Rightarrow> bool option" where
  "deliver d sig g_stop = (case d sig of Default_action \<Rightarrow> None | Handle_signal \<Rightarrow> Some (HandleSignal g_stop))"

lemma handled_signals:
  "deliver (InstallSignalHandlers default_dispositions) sig g = (if sig = SIGPIPE then None else Some True)"
  by (cases sig) (simp_all add: deliver_def InstallSignalHandlers_def default_dispositions_def HandleSignal_def)

section \<open>The steps of stop\<close>

definition clear_running :: "ipc_server \<Rightarrow> ipc_server" where
  "clear_running s = s\<lparr>running := False\<rparr>"

definition close_listener :: "ipc_server \<Rightarrow> ipc_server" where
  "close_listener s = (if listen_fd s \<ge> 0 then s\<lparr>os_fds := removeAll (listen_fd s) (os_fds s), listen_fd := -1\<rparr> else s)"

definition join_thread :: "ipc_server \<Rightarrow> ipc_server" where
  "join_thread s = s\<lparr>accept_thread := False\<rparr>"

definition unlink_endpoint :: "ipc_server \<Rightarrow> ipc_server" where
  "unlink_endpoint s = (if endpoint_path s \<noteq> '''' then s\<lparr>os_paths := removeAll (endpoint_path s) (os_paths s)\<rparr> else s)"

lemma ipc_stop_stages: "ipc_stop s = unlink_endpoint (join_thread (close_listener (clear_running s)))"
  by (simp add: ipc_stop_def unlink_endpoint_def join_thread_def close_listener_def clear_running_def)

section \<open>What a connection still waits for\<close>

text \<open>The reads of \<open>ServeConnection\<close> wait: the client has not closed its end (an empty read), and the
  header or the announced, acceptable payload is incomplete.\<close>

definition awaiting :: "nat \<Rightarrow> byte list list \<Rightarrow> bool" where
  "awaiting cap cs \<longleftrightarrow> list_all (\<lambda>c. c \<noteq> []) cs \<and>
     (let bs = concat cs; len = unat (of_le_bytes (take 4 bs) :: u32)
      in length bs < 4 \<or> 0 < len \<and> len \<le> cap \<and> length bs < 4 + len)"

lemma stream_open: "list_all (\<lambda>c. c \<noteq> []) cs \<Longrightarrow> stream (cs @ later) = concat cs @ stream later"
  by (induction cs) (simp_all add: stream_def)

lemma stream_closed: "\<not> list_all (\<lambda>c. c \<noteq> []) cs \<Longrightarrow> stream (cs @ later) = stream cs"
  by (induction cs) (auto simp: stream_def)

text \<open>Once a connection no longer waits, what it asks for is fixed; while it waits, it asks for nothing yet.\<close>

lemma decided_request:
  assumes "\<not> awaiting cap cs"
  shows "request_of cap (stream (cs @ later)) = request_of cap (stream cs)"
proof (cases "list_all (\<lambda>c. c \<noteq> []) cs")
  case True
  let ?bs = "concat cs"
  have s: "stream cs = ?bs" using stream_open [OF True, of "[]"] by (simp add: stream_def)
  have dec: "4 \<le> length ?bs" and
    len: "\<not> (0 < unat (of_le_bytes (take 4 ?bs) :: u32) \<and> unat (of_le_bytes (take 4 ?bs) :: u32) \<le> cap
       \<and> length ?bs < 4 + unat (of_le_bytes (take 4 ?bs) :: u32))"
    using assms True by (auto simp: awaiting_def Let_def)
  have "take 4 (?bs @ stream later) = take 4 ?bs" using dec by simp
  with dec len show ?thesis
    by (auto simp: s stream_open [OF True] request_of_def Let_def)
qed (simp add: stream_closed)

lemma awaiting_request: "awaiting cap cs \<Longrightarrow> request_of cap (stream cs) = None"
  using stream_open [of cs "[]"] by (auto simp: awaiting_def request_of_def Let_def stream_def)

section \<open>The threads\<close>

datatype accept_pc =
    Testing | Accepting
  | Serving (peer_cred: "(u32 \<times> u32) option") (received: "byte list list") (departed: bool)
  | Exited

datatype stop_pc = Not_stopping | Flag_cleared | Socket_closed | Thread_joined | Stop_returned

datatype actor = Accepter | Stopper | Clients

record ipc_world =
  srv :: ipc_server
  acc :: accept_pc
  stp :: stop_pc
  calls :: "(peer_identity \<times> byte list) list"
  killed :: bool

text \<open>The request that is read and answered, taken from the model of \<open>ServeConnection\<close>.\<close>

definition read_request :: "ipc_server \<Rightarrow> ipc_handler \<Rightarrow> (u32 \<times> u32) option \<Rightarrow> byte list list \<Rightarrow> (peer_identity \<times> byte list) option" where
  "read_request s h cr cs = fst (ServeConnection (config s) (Some h) \<lparr>cred = cr, input = cs, accepts = []\<rparr>)"

definition may_finish :: "ipc_server \<Rightarrow> (u32 \<times> u32) option \<Rightarrow> byte list list \<Rightarrow> bool" where
  "may_finish s cr cs \<longleftrightarrow> cr = None \<or> \<not> awaiting (max_message_bytes (config s)) cs"

definition option_list :: "'a option \<Rightarrow> 'a list" where
  "option_list v = (case v of None \<Rightarrow> [] | Some x \<Rightarrow> [x])"

text \<open>Serving ends: the handler's reply is written, which kills the process when the client has gone.\<close>

definition finish_serving :: "ipc_handler \<Rightarrow> (u32 \<times> u32) option \<Rightarrow> byte list list \<Rightarrow> bool \<Rightarrow> ipc_world \<Rightarrow> ipc_world" where
  "finish_serving h cr cs gone w =
     (let req = read_request (srv w) h cr cs;
          w = w\<lparr>calls := calls w @ (if handler_set (srv w) then option_list req else [])\<rparr>
      in if req \<noteq> None \<and> gone \<and> deliver (InstallSignalHandlers default_dispositions) SIGPIPE False = None
         then w\<lparr>killed := True\<rparr>
         else w\<lparr>acc := Testing\<rparr>)"

inductive ipc_step :: "ipc_handler \<Rightarrow> actor \<Rightarrow> ipc_world \<Rightarrow> ipc_world \<Rightarrow> bool" for h where
  test_flag: "\<not> killed w \<Longrightarrow> acc w = Testing \<Longrightarrow>
     ipc_step h Accepter w (w\<lparr>acc := if running (srv w) then Accepting else Exited\<rparr>)"
| accept_closed: "\<not> killed w \<Longrightarrow> acc w = Accepting \<Longrightarrow> listen_fd (srv w) < 0 \<Longrightarrow>
     ipc_step h Accepter w (w\<lparr>acc := if running (srv w) then Testing else Exited\<rparr>)"
| finish: "\<not> killed w \<Longrightarrow> acc w = Serving cr cs gone \<Longrightarrow> may_finish (srv w) cr cs \<Longrightarrow>
     ipc_step h Accepter w (finish_serving h cr cs gone w)"
| stop_flag: "\<not> killed w \<Longrightarrow> stp w = Not_stopping \<Longrightarrow>
     ipc_step h Stopper w (w\<lparr>srv := clear_running (srv w), stp := Flag_cleared\<rparr>)"
| stop_socket: "\<not> killed w \<Longrightarrow> stp w = Flag_cleared \<Longrightarrow>
     ipc_step h Stopper w (w\<lparr>srv := close_listener (srv w), stp := Socket_closed\<rparr>)"
| stop_join: "\<not> killed w \<Longrightarrow> stp w = Socket_closed \<Longrightarrow> acc w = Exited \<Longrightarrow>
     ipc_step h Stopper w (w\<lparr>srv := join_thread (srv w), stp := Thread_joined\<rparr>)"
| stop_unlink: "\<not> killed w \<Longrightarrow> stp w = Thread_joined \<Longrightarrow>
     ipc_step h Stopper w (w\<lparr>srv := unlink_endpoint (srv w), stp := Stop_returned\<rparr>)"
| connect: "\<not> killed w \<Longrightarrow> acc w = Accepting \<Longrightarrow> listen_fd (srv w) \<ge> 0 \<Longrightarrow>
     ipc_step h Clients w (w\<lparr>acc := Serving cr [] False\<rparr>)"
| accept_error: "\<not> killed w \<Longrightarrow> acc w = Accepting \<Longrightarrow> listen_fd (srv w) \<ge> 0 \<Longrightarrow>
     ipc_step h Clients w (w\<lparr>acc := if running (srv w) then Testing else Exited\<rparr>)"
| send: "\<not> killed w \<Longrightarrow> acc w = Serving cr cs False \<Longrightarrow> c \<noteq> [] \<Longrightarrow>
     ipc_step h Clients w (w\<lparr>acc := Serving cr (cs @ [c]) False\<rparr>)"
| leave: "\<not> killed w \<Longrightarrow> acc w = Serving cr cs False \<Longrightarrow>
     ipc_step h Clients w (w\<lparr>acc := Serving cr (cs @ [[]]) True\<rparr>)"

definition ipc_moves :: "ipc_handler \<Rightarrow> ipc_world \<Rightarrow> ipc_world \<Rightarrow> bool" where
  "ipc_moves h = (\<lambda>w w'. \<exists>a. ipc_step h a w w')\<^sup>*\<^sup>*"

text \<open>The two server threads alone, without any client.\<close>

definition server_step :: "ipc_handler \<Rightarrow> ipc_world \<Rightarrow> ipc_world \<Rightarrow> bool" where
  "server_step h w w' \<longleftrightarrow> (\<exists>a. a \<noteq> Clients \<and> ipc_step h a w w')"

definition ipc_world_start :: "ipc_server \<Rightarrow> ipc_world" where
  "ipc_world_start s = \<lparr>srv = s, acc = Testing, stp = Not_stopping, calls = [], killed = False\<rparr>"

inductive_cases accepter_stepE: "ipc_step h Accepter w w'"
inductive_cases stopper_stepE: "ipc_step h Stopper w w'"

section \<open>What every reachable state satisfies\<close>

definition stop_stage :: "stop_pc \<Rightarrow> ipc_server \<Rightarrow> ipc_server" where
  "stop_stage p = (case p of Not_stopping \<Rightarrow> id | Flag_cleared \<Rightarrow> clear_running
     | Socket_closed \<Rightarrow> close_listener \<circ> clear_running
     | Thread_joined \<Rightarrow> join_thread \<circ> close_listener \<circ> clear_running
     | Stop_returned \<Rightarrow> ipc_stop)"

definition ipc_inv :: "ipc_server \<Rightarrow> ipc_world \<Rightarrow> bool" where
  "ipc_inv s w \<longleftrightarrow> srv w = stop_stage (stp w) s
     \<and> (acc w = Exited \<longrightarrow> \<not> running (srv w))
     \<and> (stp w = Thread_joined \<or> stp w = Stop_returned \<longrightarrow> acc w = Exited)"

lemma stage_running: "running s \<Longrightarrow> running (stop_stage p s) \<longleftrightarrow> p = Not_stopping"
  by (cases p) (simp_all add: stop_stage_def clear_running_def close_listener_def join_thread_def ipc_stop_def Let_def)

lemma stage_socket: "p \<noteq> Not_stopping \<Longrightarrow> p \<noteq> Flag_cleared \<Longrightarrow> listen_fd (stop_stage p s) < 0"
  by (cases p) (simp_all add: stop_stage_def clear_running_def close_listener_def join_thread_def ipc_stop_def Let_def)

lemma finish_serving_simps [simp]:
  "srv (finish_serving h cr cs gone w) = srv w" "stp (finish_serving h cr cs gone w) = stp w"
  by (simp_all add: finish_serving_def Let_def)

lemma finish_serving_pc: "acc w = Serving cr cs gone \<Longrightarrow> acc (finish_serving h cr cs gone w) \<noteq> Exited"
  by (simp add: finish_serving_def Let_def)

lemma ipc_inv_step:
  assumes "running s" and "ipc_step h a w w'" and "ipc_inv s w"
  shows "ipc_inv s w'"
  using assms(2,3) stage_running [OF assms(1), of "stp w"]
  by (induction rule: ipc_step.induct)
    (auto simp: ipc_inv_def stop_stage_def ipc_stop_stages finish_serving_pc clear_running_def close_listener_def join_thread_def
      unlink_endpoint_def split: if_splits)

lemma ipc_inv_reach:
  assumes "running s" and "ipc_moves h (ipc_world_start s) w"
  shows "ipc_inv s w"
  using assms(2) unfolding ipc_moves_def
proof (induction rule: rtranclp_induct)
  case base
  show ?case by (simp add: ipc_inv_def ipc_world_start_def stop_stage_def)
next
  case (step w w')
  then show ?case using ipc_inv_step [OF assms(1)] by blast
qed

text \<open>Once the accept thread has ended, the handler is never called again.\<close>

lemma exited_step:
  assumes "ipc_step h a w w'" and "acc w = Exited"
  shows "acc w' = Exited \<and> calls w' = calls w"
  using assms by (induction rule: ipc_step.induct) simp_all

lemma exited_run:
  assumes "ipc_moves h w w'" and "acc w = Exited"
  shows "acc w' = Exited \<and> calls w' = calls w"
  using assms unfolding ipc_moves_def
proof (induction rule: rtranclp_induct)
  case (step v v')
  then show ?case using exited_step by (metis (full_types))
qed simp

section \<open>Stopping\<close>

text \<open>The steps the server has left once the flag is cleared.\<close>

definition work_left :: "ipc_world \<Rightarrow> nat" where
  "work_left w = (case acc w of Exited \<Rightarrow> 0 | Testing \<Rightarrow> 1 | Accepting \<Rightarrow> 1 | Serving _ _ _ \<Rightarrow> 2)
     + (case stp w of Stop_returned \<Rightarrow> 0 | Thread_joined \<Rightarrow> 1 | Socket_closed \<Rightarrow> 2 | Flag_cleared \<Rightarrow> 3 | Not_stopping \<Rightarrow> 4)
     + (if killed w then 0 else 1)"

lemma server_step_work:
  assumes "server_step h w w'" and "\<not> running (srv w)"
  shows "work_left w' < work_left w" and "\<not> running (srv w')"
proof -
  from assms(1) obtain a where a: "a \<noteq> Clients" and st: "ipc_step h a w w'" by (auto simp: server_step_def)
  from st a assms(2) have "work_left w' < work_left w \<and> \<not> running (srv w')"
    by (induction rule: ipc_step.induct)
      (auto simp: work_left_def finish_serving_def Let_def clear_running_def close_listener_def join_thread_def unlink_endpoint_def)
  then show "work_left w' < work_left w" and "\<not> running (srv w')" by simp_all
qed

text \<open>The one thing a stopping server waits for outside itself.\<close>

definition waits_for_client :: "ipc_world \<Rightarrow> bool" where
  "waits_for_client w = (case acc w of Serving cr cs gone \<Rightarrow> \<not> may_finish (srv w) cr cs | _ \<Rightarrow> False)"

lemma server_progress:
  assumes "running s" and "ipc_inv s w" and "\<not> running (srv w)" and "\<not> killed w" and "\<not> waits_for_client w" and "stp w \<noteq> Stop_returned"
  shows "\<exists>w'. server_step h w w'"
proof -
  have stp: "stp w \<noteq> Not_stopping" using assms(1-3) stage_running by (auto simp: ipc_inv_def)
  have "\<exists>a w'. a \<noteq> Clients \<and> ipc_step h a w w'"
  proof (cases "stp w = Flag_cleared \<or> stp w = Thread_joined")
    case True
    then show ?thesis using stop_socket [OF assms(4)] stop_unlink [OF assms(4)] by blast
  next
    case False
    then have sock: "stp w = Socket_closed" using stp assms(6) by (cases "stp w") simp_all
    then have fd: "listen_fd (srv w) < 0" using assms(2) stage_socket [of "stp w" s] by (simp add: ipc_inv_def)
    show ?thesis
    proof (cases "acc w")
      case (Serving cr cs gone)
      then have "may_finish (srv w) cr cs" using assms(5) by (simp add: waits_for_client_def)
      then show ?thesis using finish [OF assms(4) Serving] by blast
    qed (use test_flag [OF assms(4)] accept_closed [OF assms(4) _ fd] stop_join [OF assms(4) sock] in blast)+
  qed
  then show ?thesis by (auto simp: server_step_def)
qed

lemma server_runs:
  assumes "running s"
  shows "ipc_inv s w \<Longrightarrow> \<not> running (srv w) \<Longrightarrow>
    \<exists>w'. (server_step h)\<^sup>*\<^sup>* w w' \<and> (stp w' = Stop_returned \<or> waits_for_client w' \<or> killed w')"
proof (induction "work_left w" arbitrary: w rule: less_induct)
  case less
  show ?case
  proof (cases "stp w = Stop_returned \<or> waits_for_client w \<or> killed w")
    case False
    then obtain w1 where w1: "server_step h w w1" using server_progress [OF assms less.prems] by blast
    then have "ipc_inv s w1" using ipc_inv_step [OF assms _ less.prems(1)] by (auto simp: server_step_def)
    with less.hyps [OF server_step_work(1) [OF w1 less.prems(2)] _ server_step_work(2) [OF w1 less.prems(2)]] w1 show ?thesis
      by (meson converse_rtranclp_into_rtranclp)
  qed blast
qed

lemma server_work_bound:
  "(server_step h ^^ n) w w' \<Longrightarrow> \<not> running (srv w) \<Longrightarrow> n + work_left w' \<le> work_left w \<and> \<not> running (srv w')"
proof (induction n arbitrary: w')
  case (Suc n)
  then obtain v where "(server_step h ^^ n) w v" "server_step h v w'" by auto
  with Suc.IH Suc.prems(2) server_step_work [of h v w'] show ?case by fastforce
qed simp

text \<open>C13: stop ends the server for good: when it has returned, in any interleaving of the accept thread,
  the stopping thread and the clients, the server is exactly in the state the sequential stop
  leaves (no listening descriptor, no thread, no socket path), the accept thread has ended, and whatever
  happens afterwards no request reaches the handler any more.\<close>

theorem stop_ends_the_server:
  assumes "running s" and "ipc_moves h (ipc_world_start s) w" and "stp w = Stop_returned" and "ipc_moves h w w'"
  shows "srv w = ipc_stop s \<and> acc w = Exited \<and> calls w' = calls w"
proof -
  have "ipc_inv s w" by (rule ipc_inv_reach [OF assms(1,2)])
  with assms(3) have "srv w = ipc_stop s" "acc w = Exited" by (simp_all add: ipc_inv_def stop_stage_def)
  with exited_run [OF assms(4)] show ?thesis by simp
qed

text \<open>A server for the examples: started on descriptor 3.\<close>

definition demo_server :: ipc_server where
  "demo_server = snd (ipc_start (default_ipc_config\<lparr>ipc_endpoint := ''s''\<rparr>) 3 0 0 0 CreateIpcServer)"

lemma demo_server_fields [simp]:
  "running demo_server" "listen_fd demo_server = 3" "handler_set demo_server" "max_message_bytes (config demo_server) = 1048576"
  by (simp_all add: demo_server_def ipc_start_def sun_path_size_def default_ipc_config_def Let_def)

abbreviation demo_at :: "accept_pc \<Rightarrow> stop_pc \<Rightarrow> ipc_world" where
  "demo_at a p \<equiv> \<lparr>srv = stop_stage p demo_server, acc = a, stp = p, calls = [], killed = False\<rparr>"

lemma moves_refl: "ipc_moves h w w"
  by (simp add: ipc_moves_def)

lemma moves_step: "ipc_moves h w v \<Longrightarrow> ipc_step h a v v' \<Longrightarrow> w' = v' \<Longrightarrow> ipc_moves h w w'"
  unfolding ipc_moves_def by (metis (mono_tags, lifting) rtranclp.rtrancl_into_rtrancl)

lemma demo_accepting: "ipc_moves h (ipc_world_start demo_server) (demo_at Accepting Not_stopping)"
  by (rule moves_step [OF moves_refl test_flag]) (simp_all add: ipc_world_start_def stop_stage_def)

lemma demo_flag: "ipc_moves h (ipc_world_start demo_server) (demo_at Accepting Flag_cleared)"
  by (rule moves_step [OF demo_accepting stop_flag]) (simp_all add: stop_stage_def)

lemma demo_socket: "ipc_moves h (ipc_world_start demo_server) (demo_at Accepting Socket_closed)"
  by (rule moves_step [OF demo_flag stop_socket]) (simp_all add: stop_stage_def)

lemma demo_stopped: "ipc_moves h (ipc_world_start demo_server) (demo_at Exited Stop_returned)"
proof -
  have a: "ipc_moves h (ipc_world_start demo_server) (demo_at Exited Socket_closed)"
    by (rule moves_step [OF demo_socket accept_closed]) (simp_all add: stop_stage_def close_listener_def clear_running_def)
  have b: "ipc_moves h (ipc_world_start demo_server) (demo_at Exited Thread_joined)"
    by (rule moves_step [OF a stop_join]) (simp_all add: stop_stage_def)
  show ?thesis
    by (rule moves_step [OF b stop_unlink]) (simp_all add: stop_stage_def ipc_stop_stages)
qed

theorem stop_ends_the_server_witness:
  "srv (demo_at Exited Stop_returned) = ipc_stop demo_server"
  using stop_ends_the_server [OF _ demo_stopped _ moves_refl] by simp

text \<open>C14: Once stop has begun, at most six more steps of the two server threads are possible, and they
  can be taken until stop has returned, unless the accept thread is serving an authenticated
  client that keeps its connection open without completing a request (or a client that left has
  already killed the process): there is no deadlock between the two threads.\<close>

theorem stop_returns_or_waits:
  assumes "running s" and "ipc_moves h (ipc_world_start s) w" and "stp w \<noteq> Not_stopping"
  shows "(\<exists>w'. (server_step h)\<^sup>*\<^sup>* w w' \<and> (stp w' = Stop_returned \<or> waits_for_client w' \<or> killed w'))
    \<and> (\<forall>n w'. (server_step h ^^ n) w w' \<longrightarrow> n \<le> 6)"
proof -
  have inv: "ipc_inv s w" by (rule ipc_inv_reach [OF assms(1,2)])
  then have stopping: "\<not> running (srv w)" using assms(1,3) stage_running by (simp add: ipc_inv_def)
  have "work_left w \<le> 6" using assms(3) by (cases "acc w"; cases "stp w") (simp_all add: work_left_def)
  with server_runs [OF assms(1) inv stopping] server_work_bound [OF _ stopping] show ?thesis by fastforce
qed

theorem stop_returns_or_waits_witness:
  "\<exists>w'. (server_step (\<lambda>_ _. []))\<^sup>*\<^sup>* (demo_at Accepting Flag_cleared) w' \<and> (stp w' = Stop_returned \<or> waits_for_client w' \<or> killed w')"
  using stop_returns_or_waits [OF _ demo_flag, of "\<lambda>_ _. []"] by simp

section \<open>What one client can do to the server\<close>

text \<open>C15: One silent client stops the server from stopping and from serving anyone else: while the
  accept thread waits for the rest of a request, no number of steps of the server's own threads
  finishes stop, takes another connection or calls the handler, since neither the read nor the
  join has a time limit.\<close>

theorem silent_client_blocks_stop:
  assumes "running s" and "ipc_moves h (ipc_world_start s) w" and "waits_for_client w" and "(server_step h)\<^sup>*\<^sup>* w w'"
  shows "acc w' = acc w \<and> calls w' = calls w \<and> stp w' \<notin> {Thread_joined, Stop_returned}"
proof -
  have inv: "ipc_inv s w" by (rule ipc_inv_reach [OF assms(1,2)])
  have conf: "config (stop_stage p s) = config s" for p
    by (cases p) (simp_all add: stop_stage_def clear_running_def close_listener_def join_thread_def ipc_stop_def Let_def)
  have "ipc_inv s w' \<and> waits_for_client w' \<and> acc w' = acc w \<and> calls w' = calls w"
    using assms(4)
  proof (induction rule: rtranclp_induct)
    case base
    then show ?case using inv assms(3) by simp
  next
    case (step v v')
    from step.hyps(2) obtain a where a: "a \<noteq> Clients" and st: "ipc_step h a v v'" by (auto simp: server_step_def)
    have inv': "ipc_inv s v'" using ipc_inv_step [OF assms(1) st] step.IH by blast
    from st a step.IH have "acc v' = acc v \<and> calls v' = calls v"
      by (induction rule: ipc_step.induct) (auto simp: waits_for_client_def)
    moreover from this have "waits_for_client v'"
      using step.IH inv' conf by (auto simp: waits_for_client_def may_finish_def ipc_inv_def split: accept_pc.splits)
    ultimately show ?case using inv' step.IH by simp
  qed
  then show ?thesis by (auto simp: ipc_inv_def waits_for_client_def)
qed

lemma demo_silent: "ipc_moves h (ipc_world_start demo_server) (demo_at (Serving (Some (1000, 7)) [] False) Not_stopping)"
  by (rule moves_step [OF demo_accepting connect]) (simp_all add: stop_stage_def)

theorem silent_client_blocks_stop_witness:
  "acc (demo_at (Serving (Some (1000, 7)) [] False) Socket_closed) = Serving (Some (1000, 7)) [] False
   \<and> stp (demo_at (Serving (Some (1000, 7)) [] False) Socket_closed) \<notin> {Thread_joined, Stop_returned}"
proof -
  have "server_step (\<lambda>_ _. []) (demo_at (Serving (Some (1000, 7)) [] False) Not_stopping) (demo_at (Serving (Some (1000, 7)) [] False) Flag_cleared)"
    using stop_flag [of "demo_at (Serving (Some (1000, 7)) [] False) Not_stopping" "\<lambda>_ _. []"]
    by (auto simp: server_step_def stop_stage_def)
  moreover have "server_step (\<lambda>_ _. []) (demo_at (Serving (Some (1000, 7)) [] False) Flag_cleared) (demo_at (Serving (Some (1000, 7)) [] False) Socket_closed)"
    using stop_socket [of "demo_at (Serving (Some (1000, 7)) [] False) Flag_cleared" "\<lambda>_ _. []"]
    by (auto simp: server_step_def stop_stage_def)
  ultimately have r: "(server_step (\<lambda>_ _. []))\<^sup>*\<^sup>* (demo_at (Serving (Some (1000, 7)) [] False) Not_stopping)
      (demo_at (Serving (Some (1000, 7)) [] False) Socket_closed)" by auto
  have "waits_for_client (demo_at (Serving (Some (1000, 7)) [] False) Not_stopping)"
    by (simp add: waits_for_client_def may_finish_def awaiting_def)
  from silent_client_blocks_stop [OF _ demo_silent this r] show ?thesis by simp
qed

text \<open>C16: A client that sends a request and leaves before the reply ends the whole service: from any
  state in which the server waits for connections there is such a run of one client, the request is
  handed to the handler, the write of the reply raises SIGPIPE, and the process is gone with its
  socket path still in place.\<close>

theorem departed_client_kills_service:
  assumes "\<not> killed w" and "acc w = Accepting" and "0 \<le> listen_fd (srv w)" and "handler_set (srv w)"
    and "0 < length p" and "length p \<le> max_message_bytes (config (srv w))" and "length p < 2 ^ 32"
  shows "\<exists>w'. ipc_moves h w w' \<and> killed w' \<and> srv w' = srv w \<and> calls w' = calls w @ [(AuthenticatePeer (Some up), p)]
    \<and> (\<forall>a v. \<not> ipc_step h a w' v)"
proof -
  let ?f = "service_frame p"
  have f: "?f \<noteq> []" using assms(5) by (auto simp: service_frame_def)
  let ?w1 = "w\<lparr>acc := Serving (Some up) [] False\<rparr>"
  let ?w2 = "w\<lparr>acc := Serving (Some up) [?f] False\<rparr>"
  let ?w3 = "w\<lparr>acc := Serving (Some up) [?f, []] True\<rparr>"
  have m1: "ipc_moves h w ?w1" by (rule moves_step [OF moves_refl connect]) (use assms in simp_all)
  have "ipc_step h Clients ?w1 (?w1\<lparr>acc := Serving (Some up) ([] @ [?f]) False\<rparr>)"
    by (rule send) (use assms f in simp_all)
  then have m2: "ipc_moves h w ?w2" by (intro moves_step [OF m1]) simp_all
  have "ipc_step h Clients ?w2 (?w2\<lparr>acc := Serving (Some up) ([?f] @ [[]]) True\<rparr>)"
    by (rule leave) (use assms in simp_all)
  then have m3: "ipc_moves h w ?w3" by (intro moves_step [OF m2]) simp_all
  have "stream [?f, []] = ?f @ []" using f by (simp add: stream_def)
  then have "read_request (srv w) h (Some up) [?f, []] = Some (AuthenticatePeer (Some up), p)"
    using request_of_frame [OF assms(5-7), of "[]"] by (simp add: read_request_def ServeConnection_call)
  then have fin: "finish_serving h (Some up) [?f, []] True ?w3
      = ?w3\<lparr>calls := calls w @ [(AuthenticatePeer (Some up), p)], killed := True\<rparr>"
    by (simp add: finish_serving_def handled_signals option_list_def assms(4))
  have "may_finish (srv w) (Some up) [?f, []]" by (simp add: may_finish_def awaiting_def)
  then have "ipc_moves h w (finish_serving h (Some up) [?f, []] True ?w3)"
    by (intro moves_step [OF m3 finish]) (use assms in simp_all)
  moreover have "\<not> ipc_step h a v' v" if "killed v'" for a v' v
    using that by (auto elim: ipc_step.cases)
  ultimately show ?thesis unfolding fin by fastforce
qed

theorem departed_client_kills_service_witness:
  "\<exists>w'. ipc_moves (\<lambda>_ _. []) (demo_at Accepting Not_stopping) w' \<and> killed w' \<and> calls w' = [(AuthenticatePeer (Some (1000, 7)), [1])]"
  using departed_client_kills_service [of "demo_at Accepting Not_stopping" "[1]" "\<lambda>_ _. []" "(1000, 7)"]
  by (auto simp: stop_stage_def)

section \<open>The Windows branch\<close>

text \<open>On Windows the server is a placeholder: \<open>start\<close> stores its arguments and says that it runs, without
  a pipe, and \<open>stop\<close> clears the flag alone.\<close>

definition ipc_start_windows :: "ipc_config \<Rightarrow> ipc_server \<Rightarrow> status \<times> ipc_server" where
  "ipc_start_windows cfg s = (success, s\<lparr>config := cfg, handler_set := True, endpoint_path := ipc_endpoint cfg, running := True\<rparr>)"

definition ipc_stop_windows :: "ipc_server \<Rightarrow> ipc_server" where
  "ipc_stop_windows s = s\<lparr>running := False\<rparr>"

text \<open>There every start succeeds and reports a running server, whatever the path, and nothing listens: no
  descriptor, path or thread exists before or after, so no request is ever served.\<close>

theorem windows_server_only_pretends:
  "status_ok (fst (ipc_start_windows cfg s)) \<and> running (snd (ipc_start_windows cfg s))
   \<and> (let t = snd (ipc_start_windows cfg CreateIpcServer)
      in os_fds t = [] \<and> os_paths t = [] \<and> listen_fd t < 0 \<and> \<not> accept_thread t
         \<and> ipc_stop_windows t = t\<lparr>running := False\<rparr>)"
  by (simp add: ipc_start_windows_def ipc_stop_windows_def CreateIpcServer_def)

end
