(* ===== verification/Daemon_Process.thy ===== *)
theory Daemon_Process
  imports Service_Daemon Ipc_Shutdown
begin

text \<open>
  \<open>RunDaemonBody\<close> of \<open>src/service/src/main.cpp\<close> as the process it is: the main thread brings the daemon up,
  runs the pipeline loop, stops the IPC server and tears the engines down, while the accept thread of
  the IPC server and its clients take their steps in between (the actors of \<open>Ipc_Shutdown\<close>, with the
  main thread as the one that stops). \<open>stop k\<close> is what the flag reads before tick \<open>k\<close>. One turn of the
  loop is one step: it touches only objects of the main thread, since the request handler ignores the
  daemon. A process killed by SIGPIPE takes no further step.
\<close>

section \<open>The process\<close>

datatype main_pc = Looping | Closing | Returned int

record service_process =
  p_daemon :: daemon
  p_world :: ipc_world
  main_at :: main_pc
  ticks :: nat

text \<open>Bring-up and the first session; a fatal error is the exit code on the left. The accept thread exists if
  the IPC server could be started.\<close>

definition daemon_start :: "int \<Rightarrow> int \<Rightarrow> int \<Rightarrow> int \<Rightarrow> int + service_process" where
  "daemon_start sock_ret bind_ret chmod_ret listen_ret =
     (case BuildDaemon sock_ret bind_ret chmod_ret listen_ret of
        None \<Rightarrow> Inl 1
      | Some d \<Rightarrow> Inr \<lparr>p_daemon = d\<lparr>d_sessions := snd (open_session ''smoke-peer'' (d_sessions d))\<rparr>,
          p_world = (ipc_world_start (d_ipc d))\<lparr>acc := if accept_thread (d_ipc d) then Testing else Exited\<rparr>,
          main_at = Looping, ticks = 0\<rparr>)"

text \<open>The loop's condition and body; \<open>None\<close> is undefined behaviour in the pipeline.\<close>

definition loop_turn :: "(nat \<Rightarrow> bool) \<Rightarrow> nat \<Rightarrow> daemon \<Rightarrow> (main_pc \<times> nat \<times> daemon) option" where
  "loop_turn stop k d =
     (if \<not> stop k \<and> k < kMaxStubTicks
      then (case PumpPipeline d of
              None \<Rightarrow> None
            | Some (False, d') \<Rightarrow> Some (Closing, k, d')
            | Some (True, d') \<Rightarrow> Some (Looping, k + 1, d'))
      else Some (Closing, k, d))"

text \<open>Teardown before and after the stop of the IPC server.\<close>

definition close_smoke_session :: "daemon \<Rightarrow> daemon" where
  "close_smoke_session d = d\<lparr>d_sessions := close_session 1 (d_sessions d)\<rparr>"

definition stop_engines :: "daemon \<Rightarrow> daemon" where
  "stop_engines d = d\<lparr>d_transport := svc_transport_stop (d_transport d), d_capturer := capturer_stop (d_capturer d)\<rparr>"

inductive process_step :: "(nat \<Rightarrow> bool) \<Rightarrow> actor \<Rightarrow> service_process \<Rightarrow> service_process \<Rightarrow> bool" for stop where
  main_loops: "\<not> killed (p_world p) \<Longrightarrow> main_at p = Looping \<Longrightarrow> loop_turn stop (ticks p) (p_daemon p) = Some (Looping, k, d) \<Longrightarrow>
     process_step stop Stopper p (p\<lparr>ticks := k, p_daemon := d\<rparr>)"
| main_leaves: "\<not> killed (p_world p) \<Longrightarrow> main_at p = Looping \<Longrightarrow> loop_turn stop (ticks p) (p_daemon p) = Some (Closing, k, d) \<Longrightarrow>
     process_step stop Stopper p (p\<lparr>ticks := k, main_at := Closing, p_daemon := close_smoke_session d\<rparr>)"
| main_stops_ipc: "main_at p = Closing \<Longrightarrow> ipc_step HandleIpc Stopper (p_world p) w \<Longrightarrow>
     process_step stop Stopper p (p\<lparr>p_world := w, p_daemon := (p_daemon p)\<lparr>d_ipc := srv w\<rparr>\<rparr>)"
| main_returns: "\<not> killed (p_world p) \<Longrightarrow> main_at p = Closing \<Longrightarrow> stp (p_world p) = Stop_returned \<Longrightarrow>
     process_step stop Stopper p (p\<lparr>main_at := Returned 0, p_daemon := stop_engines (p_daemon p)\<rparr>)"
| others: "a \<noteq> Stopper \<Longrightarrow> ipc_step HandleIpc a (p_world p) w \<Longrightarrow> process_step stop a p (p\<lparr>p_world := w\<rparr>)"

definition process_moves :: "(nat \<Rightarrow> bool) \<Rightarrow> service_process \<Rightarrow> service_process \<Rightarrow> bool" where
  "process_moves stop = (\<lambda>p p'. \<exists>a. process_step stop a p p')\<^sup>*\<^sup>*"

text \<open>The process's own threads, without its clients.\<close>

definition own_step :: "(nat \<Rightarrow> bool) \<Rightarrow> service_process \<Rightarrow> service_process \<Rightarrow> bool" where
  "own_step stop p p' \<longleftrightarrow> (\<exists>a. a \<noteq> Clients \<and> process_step stop a p p')"

section \<open>What every reachable state satisfies\<close>

lemma turn_running:
  assumes "sc_running (d_capturer d)" and "st_running (d_transport d)" and "k \<le> kMaxStubTicks"
  shows "loop_turn stop k d = Some (x, k', d') \<longleftrightarrow>
     (if stop k \<or> k = kMaxStubTicks then x = Closing \<and> k' = k \<and> d' = d
      else x = Looping \<and> k' = Suc k \<and> PumpPipeline d = Some (True, d'))"
  using pump_running [OF assms(1,2)] assms(3) by (auto simp: loop_turn_def)

lemma other_actor:
  assumes "ipc_step h a w w'" and "a \<noteq> Stopper"
  shows "srv w' = srv w \<and> stp w' = stp w"
  using assms by (induction rule: ipc_step.induct) simp_all

text \<open>The invariant of \<open>Ipc_Shutdown\<close> also holds when the server never started and has no accept thread.\<close>

definition world_inv :: "ipc_server \<Rightarrow> ipc_world \<Rightarrow> bool" where
  "world_inv s w \<longleftrightarrow> ipc_inv s w \<and> (running s \<or> acc w = Exited)
     \<and> (killed w \<longrightarrow> (\<exists>cr cs. acc w = Serving cr cs True))"

lemma unstarted_step:
  assumes "ipc_step h a w w'" and "ipc_inv s w" and "acc w = Exited"
  shows "ipc_inv s w'"
  using assms by (induction rule: ipc_step.induct)
    (auto simp: ipc_inv_def stop_stage_def ipc_stop_stages clear_running_def close_listener_def join_thread_def unlink_endpoint_def)

lemma killed_step:
  assumes "ipc_step h a w w'" and "killed w'"
  shows "\<exists>cr cs. acc w' = Serving cr cs True"
  using assms by (induction rule: ipc_step.induct) (auto simp: finish_serving_def Let_def split: if_splits)

lemma world_inv_step:
  assumes "ipc_step h a w w'" and "world_inv s w"
  shows "world_inv s w'"
proof (cases "running s")
  case True
  with assms ipc_inv_step [OF True assms(1)] killed_step [OF assms(1)] show ?thesis by (auto simp: world_inv_def)
next
  case False
  with assms unstarted_step [OF assms(1)] exited_step [OF assms(1)] killed_step [OF assms(1)] show ?thesis
    by (auto simp: world_inv_def)
qed

definition main_inv :: "(nat \<Rightarrow> bool) \<Rightarrow> service_process \<Rightarrow> bool" where
  "main_inv stop p \<longleftrightarrow>
     st_bytes (d_transport (p_daemon p)) = of_nat (ticks p) * 4098 \<and> ticks p \<le> kMaxStubTicks \<and> list_all (\<lambda>k. \<not> stop k) [0..<ticks p]
     \<and> d_ipc (p_daemon p) = srv (p_world p)
     \<and> (case main_at p of
          Looping \<Rightarrow> stp (p_world p) = Not_stopping \<and> active (d_sessions (p_daemon p)) = 1
            \<and> sc_running (d_capturer (p_daemon p)) \<and> st_running (d_transport (p_daemon p))
        | Closing \<Rightarrow> active (d_sessions (p_daemon p)) = 0 \<and> (ticks p = kMaxStubTicks \<or> stop (ticks p))
        | Returned c \<Rightarrow> c = 0 \<and> active (d_sessions (p_daemon p)) = 0 \<and> (ticks p = kMaxStubTicks \<or> stop (ticks p))
            \<and> stp (p_world p) = Stop_returned \<and> \<not> sc_running (d_capturer (p_daemon p)) \<and> \<not> st_running (d_transport (p_daemon p)))"

lemma main_inv_step:
  assumes "process_step stop a p p'" and "main_inv stop p"
  shows "main_inv stop p'"
  using assms
proof (induction rule: process_step.induct)
  case (main_loops p k d)
  then have on: "sc_running (d_capturer (p_daemon p))" "st_running (d_transport (p_daemon p))" "ticks p \<le> kMaxStubTicks"
    by (simp_all add: main_inv_def)
  from main_loops.hyps(3) have k: "\<not> stop (ticks p)" "ticks p \<noteq> kMaxStubTicks" "k = Suc (ticks p)" "PumpPipeline (p_daemon p) = Some (True, d)"
    by (simp_all add: turn_running [OF on] split: if_splits)
  with pump_running [OF on(1,2)] main_loops.prems main_loops.hyps(2) on(3) show ?case
    by (auto simp: main_inv_def algebra_simps)
next
  case (main_leaves p k d)
  then have on: "sc_running (d_capturer (p_daemon p))" "st_running (d_transport (p_daemon p))" "ticks p \<le> kMaxStubTicks"
    by (simp_all add: main_inv_def)
  from main_leaves.hyps(3) have "stop (ticks p) \<or> ticks p = kMaxStubTicks" "k = ticks p" "d = p_daemon p"
    by (simp_all add: turn_running [OF on] split: if_splits)
  with main_leaves.prems main_leaves.hyps(2) show ?case
    by (auto simp: main_inv_def close_smoke_session_def close_session_def)
next
  case (main_stops_ipc p w)
  then show ?case by (simp add: main_inv_def)
next
  case (main_returns p)
  then show ?case by (simp add: main_inv_def stop_engines_def svc_transport_stop_def capturer_stop_def)
next
  case (others a p w)
  with other_actor [OF others.hyps(2,1)] show ?case by (simp add: main_inv_def split: main_pc.splits)
qed

lemma process_world:
  assumes "process_step stop a p p'"
  shows "p_world p' = p_world p \<or> ipc_step HandleIpc a (p_world p) (p_world p')"
  using assms by (induction rule: process_step.induct) simp_all

definition process_inv :: "(nat \<Rightarrow> bool) \<Rightarrow> ipc_server \<Rightarrow> service_process \<Rightarrow> bool" where
  "process_inv stop s p \<longleftrightarrow> world_inv s (p_world p) \<and> main_inv stop p"

lemma process_inv_step: "process_step stop a p p' \<Longrightarrow> process_inv stop s p \<Longrightarrow> process_inv stop s p'"
  using main_inv_step process_world world_inv_step unfolding process_inv_def by metis

lemma process_inv_reach: "process_moves stop p p' \<Longrightarrow> process_inv stop s p \<Longrightarrow> process_inv stop s p'"
  unfolding process_moves_def by (induction rule: rtranclp_induct) (blast intro: process_inv_step)+

section \<open>The process comes to an end\<close>

definition acc_work :: "accept_pc \<Rightarrow> nat" where
  "acc_work x = (case x of Exited \<Rightarrow> 0 | Accepting \<Rightarrow> 1 | Testing \<Rightarrow> 2 | Serving _ _ _ \<Rightarrow> 3)"

definition stop_work :: "stop_pc \<Rightarrow> nat" where
  "stop_work x = (case x of Stop_returned \<Rightarrow> 0 | Thread_joined \<Rightarrow> 1 | Socket_closed \<Rightarrow> 2 | Flag_cleared \<Rightarrow> 3 | Not_stopping \<Rightarrow> 4)"

definition main_work :: "main_pc \<Rightarrow> nat \<Rightarrow> stop_pc \<Rightarrow> nat" where
  "main_work m k x = (case m of Looping \<Rightarrow> 6 + (kMaxStubTicks - k) | Closing \<Rightarrow> 1 + stop_work x | Returned _ \<Rightarrow> 0)"

definition own_work :: "service_process \<Rightarrow> nat" where
  "own_work p = main_work (main_at p) (ticks p) (stp (p_world p))
     + (acc_work (acc (p_world p)) + (if killed (p_world p) then 0 else 1))"

lemma thread_work: "acc_work x \<le> 3" "stop_work y \<le> 4"
  by (cases x; simp add: acc_work_def) (cases y; simp add: stop_work_def)

lemma own_work_bound: "own_work p \<le> 190"
  using thread_work(1) [of "acc (p_world p)"] thread_work(2) [of "stp (p_world p)"]
  by (cases "main_at p") (auto simp: own_work_def main_work_def kMaxStubTicks_def)

lemma stopper_work:
  assumes "ipc_step h Stopper w w'"
  shows "stop_work (stp w') < stop_work (stp w) \<and> acc w' = acc w \<and> killed w' = killed w"
  using assms by (cases rule: ipc_step.cases) (simp_all add: stop_work_def)

lemma accepter_work:
  assumes "ipc_step h Accepter w w'" and "world_inv s w" and "running s \<Longrightarrow> 0 \<le> listen_fd s"
  shows "acc_work (acc w') + (if killed w' then 0 else 1) < acc_work (acc w) + (if killed w then 0 else 1)"
  using assms(1)
proof (cases rule: ipc_step.cases)
  case accept_closed
  have "\<not> running (srv w)"
  proof
    assume r: "running (srv w)"
    from accept_closed assms(2) have s: "running s" "srv w = stop_stage (stp w) s" by (simp_all add: world_inv_def ipc_inv_def)
    with r stage_running [OF s(1)] have "srv w = s" by (simp add: stop_stage_def)
    with accept_closed assms(3) s(1) show False by simp
  qed
  with accept_closed show ?thesis by (simp add: acc_work_def)
qed (simp_all add: acc_work_def finish_serving_def Let_def)

lemma own_step_work:
  assumes "own_step stop p p'" and "process_inv stop s p" and "running s \<Longrightarrow> 0 \<le> listen_fd s"
  shows "own_work p' < own_work p"
proof -
  from assms(1) obtain a where a: "a \<noteq> Clients" and st: "process_step stop a p p'" by (auto simp: own_step_def)
  have inv: "world_inv s (p_world p)" "main_inv stop p" using assms(2) by (simp_all add: process_inv_def)
  from st show ?thesis
  proof (cases rule: process_step.cases)
    case (main_loops k d)
    then have on: "sc_running (d_capturer (p_daemon p))" "st_running (d_transport (p_daemon p))" "ticks p \<le> kMaxStubTicks"
      using inv(2) by (simp_all add: main_inv_def)
    from main_loops have "k = Suc (ticks p)" "ticks p < kMaxStubTicks" using on(3) by (auto simp: turn_running [OF on] split: if_splits)
    with main_loops show ?thesis by (simp add: own_work_def main_work_def)
  next
    case (main_leaves k d)
    then show ?thesis using inv(2) by (auto simp: own_work_def main_work_def main_inv_def stop_work_def)
  next
    case (main_stops_ipc w)
    with stopper_work [OF main_stops_ipc(4)] show ?thesis by (simp add: own_work_def main_work_def)
  next
    case main_returns
    then show ?thesis by (simp add: own_work_def main_work_def)
  next
    case (others w)
    then have "ipc_step HandleIpc Accepter (p_world p) w" using a by (cases a) simp_all
    then have "acc_work (acc w) + (if killed w then 0 else 1)
        < acc_work (acc (p_world p)) + (if killed (p_world p) then 0 else 1)"
      using inv(1) assms(3) by (rule accepter_work)
    moreover have "main_work (main_at p') (ticks p') (stp (p_world p')) = main_work (main_at p) (ticks p) (stp (p_world p))"
      using others(1) other_actor [OF others(3,2)] by simp
    moreover have "p_world p' = w" using others(1) by simp
    ultimately show ?thesis by (simp only: own_work_def add_less_cancel_left)
  qed
qed

text \<open>Where the process can rest: its body has returned, a client that left has killed it, or its main thread
  is in the join of an accept thread that waits for a client.\<close>

definition joins_waiting :: "service_process \<Rightarrow> bool" where
  "joins_waiting p \<longleftrightarrow> main_at p = Closing \<and> stp (p_world p) = Socket_closed \<and> waits_for_client (p_world p)"

definition at_rest :: "service_process \<Rightarrow> bool" where
  "at_rest p \<longleftrightarrow> main_at p = Returned 0 \<or> killed (p_world p) \<or> joins_waiting p"

lemma closing_step:
  assumes inv: "world_inv s w" and alive: "\<not> killed w" and open_stop: "stp w \<noteq> Stop_returned"
    and no_wait: "\<not> (stp w = Socket_closed \<and> waits_for_client w)"
  shows "\<exists>a w'. a \<noteq> Clients \<and> ipc_step h a w w'"
proof (cases "stp w")
  case Socket_closed
  show ?thesis
  proof (cases "acc w")
    case (Serving cr cs gone)
    with no_wait Socket_closed have "may_finish (srv w) cr cs" by (simp add: waits_for_client_def)
    then show ?thesis using finish [OF alive Serving] by blast
  next
    case Accepting
    have "srv w = stop_stage Socket_closed s" using inv Socket_closed by (simp add: world_inv_def ipc_inv_def)
    then have "listen_fd (srv w) < 0" using stage_socket [of Socket_closed s] by simp
    then show ?thesis using accept_closed [OF alive Accepting] by blast
  qed (use test_flag [OF alive] stop_join [OF alive Socket_closed] in blast)+
qed (use open_stop stop_flag [OF alive] stop_socket [OF alive] stop_unlink [OF alive] in blast)+

lemma own_progress:
  assumes "process_inv stop s p" and "\<not> at_rest p"
  shows "\<exists>p'. own_step stop p p'"
proof -
  have inv: "world_inv s (p_world p)" "main_inv stop p" using assms(1) by (simp_all add: process_inv_def)
  have alive: "\<not> killed (p_world p)" using assms(2) by (simp add: at_rest_def)
  have "\<exists>a p'. a \<noteq> Clients \<and> process_step stop a p p'"
  proof (cases "main_at p")
    case Looping
    then have on: "sc_running (d_capturer (p_daemon p))" "st_running (d_transport (p_daemon p))" "ticks p \<le> kMaxStubTicks"
      using inv(2) by (simp_all add: main_inv_def)
    obtain d where "PumpPipeline (p_daemon p) = Some (True, d)" using pump_running [OF on(1,2)] by blast
    then have "loop_turn stop (ticks p) (p_daemon p) \<in> {Some (Closing, ticks p, p_daemon p), Some (Looping, Suc (ticks p), d)}"
      by (simp add: loop_turn_def)
    then show ?thesis using main_loops [OF alive Looping] main_leaves [OF alive Looping] by blast
  next
    case Closing
    show ?thesis
    proof (cases "stp (p_world p) = Stop_returned")
      case True
      then show ?thesis using main_returns [OF alive Closing] by blast
    next
      case False
      have "\<not> (stp (p_world p) = Socket_closed \<and> waits_for_client (p_world p))"
        using assms(2) Closing by (simp add: at_rest_def joins_waiting_def)
      from closing_step [OF inv(1) alive False this, of HandleIpc] obtain a w where "a \<noteq> Clients" "ipc_step HandleIpc a (p_world p) w" by blast
      then show ?thesis using main_stops_ipc [OF Closing] others by (metis (full_types))
    qed
  next
    case (Returned c)
    then show ?thesis using assms(2) inv(2) by (simp add: at_rest_def main_inv_def)
  qed
  then show ?thesis by (auto simp: own_step_def)
qed

lemma own_step_inv: "own_step stop p p' \<Longrightarrow> process_inv stop s p \<Longrightarrow> process_inv stop s p'"
  by (auto simp: own_step_def intro: process_inv_step)

lemma own_run_ends:
  assumes "running s \<Longrightarrow> 0 \<le> listen_fd s"
  shows "process_inv stop s p \<Longrightarrow> \<exists>p'. (own_step stop)\<^sup>*\<^sup>* p p' \<and> at_rest p'"
proof (induction "own_work p" arbitrary: p rule: less_induct)
  case less
  show ?case
  proof (cases "at_rest p")
    case False
    then obtain p1 where p1: "own_step stop p p1" using own_progress [OF less.prems] by blast
    with less.hyps [OF own_step_work [OF p1 less.prems assms] own_step_inv [OF p1 less.prems]] show ?thesis
      by (meson converse_rtranclp_into_rtranclp)
  qed blast
qed

lemma own_run_bound:
  assumes "running s \<Longrightarrow> 0 \<le> listen_fd s" and "process_inv stop s p"
  shows "(own_step stop ^^ n) p p' \<Longrightarrow> n + own_work p' \<le> own_work p \<and> process_inv stop s p'"
proof (induction n arbitrary: p')
  case (Suc n)
  then obtain v where "(own_step stop ^^ n) p v" "own_step stop v p'" by auto
  with Suc.IH own_step_work [OF _ _ assms(1)] own_step_inv show ?case by fastforce
qed (simp add: assms(2))

text \<open>Without clients, no connection is opened and what one sent does not change.\<close>

lemma own_step_serving:
  assumes "own_step stop p p'" and "acc (p_world p') = Serving cr cs gone"
  shows "acc (p_world p) = Serving cr cs gone"
proof -
  from assms(1) obtain a where a: "a \<noteq> Clients" "process_step stop a p p'" by (auto simp: own_step_def)
  from process_world [OF a(2)] show ?thesis
  proof
    assume "ipc_step HandleIpc a (p_world p) (p_world p')"
    then show ?thesis using a(1) assms(2)
      by (cases rule: ipc_step.cases) (auto simp: finish_serving_def Let_def split: if_splits)
  qed (use assms(2) in simp)
qed

lemma own_run_serving:
  "(own_step stop)\<^sup>*\<^sup>* p p' \<Longrightarrow> acc (p_world p') = Serving cr cs gone \<Longrightarrow> acc (p_world p) = Serving cr cs gone"
  by (induction rule: rtranclp_induct) (auto dest: own_step_serving)

section \<open>The daemon as a whole\<close>

lemma started_server:
  assumes "(st, s) = ipc_start cfg a b c l CreateIpcServer"
  shows "(running s \<longleftrightarrow> accept_thread s) \<and> (running s \<longrightarrow> 0 \<le> listen_fd s)"
  using assms by (auto simp: ipc_start_def ipc_stop_def CreateIpcServer_def Let_def split: if_splits)

lemma daemon_started:
  assumes "daemon_start a b c l = Inr p"
  shows "process_inv stop (srv (p_world p)) p" and "running (srv (p_world p)) \<Longrightarrow> 0 \<le> listen_fd (srv (p_world p))"
    and "stp (p_world p) = Not_stopping"
proof -
  obtain st s where s: "(st, s) = ipc_start (default_ipc_config\<lparr>ipc_endpoint := service_socket\<rparr>) a b c l CreateIpcServer"
    by (metis surj_pair)
  have p: "p = \<lparr>p_daemon = \<lparr>d_capturer = \<lparr>sc_display = 0, sc_seq = 0, sc_running = True\<rparr>,
       d_encoder = \<lparr>se_cfg = \<lparr>sec_resolution = \<lparr>width = 64, height = 64\<rparr>, sec_target_bitrate_bps = 8000000, sec_framerate = 60\<rparr>, se_frame_count = 0\<rparr>,
       d_transport = \<lparr>st_bytes = 0, st_running = True\<rparr>, d_ipc = s, d_sessions = snd (open_session ''smoke-peer'' new_svc_sessions)\<rparr>,
     p_world = (ipc_world_start s)\<lparr>acc := if accept_thread s then Testing else Exited\<rparr>, main_at = Looping, ticks = 0\<rparr>"
    using assms unfolding daemon_start_def BuildDaemon_def s [symmetric]
    by (simp add: svc_transport_start_def capturer_start_def svc_configure_def CreateSvcTransport_def
      CreateCapturer_def CreateSvcEncoder_def)
  from started_server [OF s] show "process_inv stop (srv (p_world p)) p" "running (srv (p_world p)) \<Longrightarrow> 0 \<le> listen_fd (srv (p_world p))"
    "stp (p_world p) = Not_stopping"
    by (auto simp: p process_inv_def world_inv_def ipc_inv_def main_inv_def ipc_world_start_def stop_stage_def open_session_def
        new_svc_sessions_def Let_def)
qed

text \<open>The daemon always comes up, whatever the system calls of its IPC server return.\<close>

theorem daemon_comes_up: "\<exists>p. daemon_start a b c l = Inr p \<and> main_at p = Looping \<and> ticks p = 0"
  using build_daemon [of a b c l] by (auto simp: daemon_start_def)

text \<open>C38: The daemon ends, and ends well unless a client prevents it. Take any state that a run of the
  process reaches, with the main thread, the accept thread and the clients interleaved in any way
  and whatever the system calls of the IPC server's start returned. If the body has returned, its exit
  code is 0, the loop stopped at the first tick at which the flag was set or after 180 ticks, one 4098 byte packet
  was sent per tick, no session is open, capturer and transport are stopped, and the IPC server is as
  the sequential stop leaves it, its accept thread gone. From every state the process needs at most 190 more
  steps of its own, without any clients, and can take them until the body has returned, except for two cases, each
  with a connection already open: its client has left and the write of the reply kills the process by
  SIGPIPE, or its client neither completes the request nor leaves and the main thread stays in
  the join.\<close>

theorem daemon_run:
  assumes "daemon_start so bi ch li = Inr p0" and "process_moves stop p0 p"
  shows "(case main_at p of
        Returned c \<Rightarrow> c = 0 \<and> ticks p \<le> kMaxStubTicks \<and> list_all (\<lambda>k. \<not> stop k) [0..<ticks p]
          \<and> (ticks p = kMaxStubTicks \<or> stop (ticks p))
          \<and> st_bytes (d_transport (p_daemon p)) = of_nat (ticks p) * 4098 \<and> active (d_sessions (p_daemon p)) = 0
          \<and> \<not> st_running (d_transport (p_daemon p)) \<and> \<not> sc_running (d_capturer (p_daemon p))
          \<and> d_ipc (p_daemon p) = ipc_stop (d_ipc (p_daemon p0)) \<and> acc (p_world p) = Exited
      | _ \<Rightarrow> True)
    \<and> (\<exists>p'. (own_step stop)\<^sup>*\<^sup>* p p' \<and>
          (case acc (p_world p) of
             Serving cr cs gone \<Rightarrow> main_at p' = Returned 0 \<or> (gone \<and> killed (p_world p')) \<or> joins_waiting p'
           | _ \<Rightarrow> main_at p' = Returned 0))
    \<and> (\<forall>n p'. (own_step stop ^^ n) p p' \<longrightarrow> n \<le> 190)"
proof -
  let ?s = "srv (p_world p0)"
  note start = daemon_started [OF assms(1)]
  have inv: "process_inv stop ?s p" by (rule process_inv_reach [OF assms(2) start(1)])
  then have world: "world_inv ?s (p_world p)" and main: "main_inv stop p" by (simp_all add: process_inv_def)
  have "d_ipc (p_daemon p0) = ?s" using start(1) by (simp add: process_inv_def main_inv_def)
  then have stopped: "stp (p_world p) = Stop_returned \<Longrightarrow> srv (p_world p) = ipc_stop (d_ipc (p_daemon p0)) \<and> acc (p_world p) = Exited"
    using world by (simp add: world_inv_def ipc_inv_def stop_stage_def)
  from own_run_ends [OF start(2) inv] obtain p' where p': "(own_step stop)\<^sup>*\<^sup>* p p'" "at_rest p'" by blast
  have "process_inv stop ?s p'" using p'(1) inv by (induction rule: rtranclp_induct) (auto intro: own_step_inv)
  then have dead: "killed (p_world p') \<Longrightarrow> \<exists>cr cs. acc (p_world p) = Serving cr cs True"
    using own_run_serving [OF p'(1)] by (auto simp: process_inv_def world_inv_def)
  have wait: "joins_waiting p' \<Longrightarrow> \<exists>cr cs gone. acc (p_world p) = Serving cr cs gone"
    using own_run_serving [OF p'(1)] by (auto simp: joins_waiting_def waits_for_client_def split: accept_pc.splits)
  have "case acc (p_world p) of
             Serving cr cs gone \<Rightarrow> main_at p' = Returned 0 \<or> (gone \<and> killed (p_world p')) \<or> joins_waiting p'
           | _ \<Rightarrow> main_at p' = Returned 0"
    using p'(2) dead wait by (cases "acc (p_world p)") (auto simp: at_rest_def)
  with p'(1) have "\<exists>p'. (own_step stop)\<^sup>*\<^sup>* p p' \<and>
          (case acc (p_world p) of
             Serving cr cs gone \<Rightarrow> main_at p' = Returned 0 \<or> (gone \<and> killed (p_world p')) \<or> joins_waiting p'
           | _ \<Rightarrow> main_at p' = Returned 0)" by blast
  moreover have "\<forall>n p'. (own_step stop ^^ n) p p' \<longrightarrow> n \<le> 190"
    using own_run_bound [OF start(2) inv] own_work_bound [of p] by fastforce
  moreover have "case main_at p of
        Returned c \<Rightarrow> c = 0 \<and> ticks p \<le> kMaxStubTicks \<and> list_all (\<lambda>k. \<not> stop k) [0..<ticks p]
          \<and> (ticks p = kMaxStubTicks \<or> stop (ticks p))
          \<and> st_bytes (d_transport (p_daemon p)) = of_nat (ticks p) * 4098 \<and> active (d_sessions (p_daemon p)) = 0
          \<and> \<not> st_running (d_transport (p_daemon p)) \<and> \<not> sc_running (d_capturer (p_daemon p))
          \<and> d_ipc (p_daemon p) = ipc_stop (d_ipc (p_daemon p0)) \<and> acc (p_world p) = Exited
      | _ \<Rightarrow> True"
    using main stopped by (cases "main_at p") (auto simp: main_inv_def)
  ultimately show ?thesis by blast
qed

theorem daemon_run_witness:
  "\<exists>p p'. daemon_start 3 0 0 0 = Inr p \<and> (own_step (\<lambda>k. k = 5))\<^sup>*\<^sup>* p p' \<and> main_at p' = Returned 0"
proof -
  obtain p where p: "daemon_start 3 0 0 0 = Inr p" using daemon_comes_up by blast
  have "accept_thread (d_ipc (p_daemon p))" and "acc (p_world p) = Testing"
    using p by (auto simp: daemon_start_def BuildDaemon_def svc_transport_start_def capturer_start_def svc_configure_def
        ipc_start_def sun_path_size_def service_socket_def default_ipc_config_def ipc_world_start_def Let_def split: if_splits)
  with daemon_run [OF p, of "\<lambda>k. k = 5" p] p show ?thesis by (auto simp: process_moves_def)
qed

end
