(* ===== verification/Session_Callbacks.thy ===== *)
theory Session_Callbacks
  imports Session_Gate "HOL-Library.Monad_Syntax"
begin

text \<open>
  The session manager with callbacks that call it back (\<open>src/core/session/session.cpp\<close>). The manager
  holds no lock and invokes the state and audit callbacks in the middle of its operations, so a callback may
  itself begin, authorize, deny or close sessions. Here each operation is written again with a
  parameter \<open>note\<close> for the run of a callback at the place where the code makes the call; sessions and
  lists are read again after it, as the code reads them through references. \<open>exec\<close> ties the knot: a
  client is a function from the notification and the manager's state to the calls it makes; the
  number is the depth of nested calls that is followed, and \<open>None\<close> says that it was not enough. The
  result that a nested call returns is left to the client.
\<close>

type_synonym notify = "cb_event \<Rightarrow> manager \<Rightarrow> manager option"

section \<open>The operations\<close>

definition record_re :: "notify \<Rightarrow> clock \<Rightarrow> string \<Rightarrow> audit_event \<Rightarrow> string \<Rightarrow> manager \<Rightarrow> manager option" where
  "record_re note clk fp ev det m =
     (let r = \<lparr>audit_timestamp_us = clk (length (audit m)), peer_fingerprint = fp, event = ev, detail = det\<rparr>;
          m' = m\<lparr>audit := audit m @ [r]\<rparr>
      in if audit_cb m' then note (AuditCb r) (m'\<lparr>cb_log := cb_log m' @ [AuditCb r]\<rparr>) else Some m')"

text \<open>The session held by reference: sessions are never erased, so it is found under its id.\<close>

definition update_session :: "u64 \<Rightarrow> (session \<Rightarrow> session) \<Rightarrow> manager \<Rightarrow> manager" where
  "update_session i f m = (case map_of (sessions m) i of None \<Rightarrow> m | Some s \<Rightarrow> store_session i (f s) m)"

definition transition_re :: "notify \<Rightarrow> u64 \<Rightarrow> session_state \<Rightarrow> manager \<Rightarrow> manager option" where
  "transition_re note i to m =
     (case map_of (sessions m) i of None \<Rightarrow> Some m
      | Some s \<Rightarrow>
          (let m' = update_session i (setState to) m
           in if state_cb m' then note (StateCb (sess_id s) to) (m'\<lparr>cb_log := cb_log m' @ [StateCb (sess_id s) to]\<rparr>)
              else Some m'))"

definition begin_re :: "notify \<Rightarrow> clock \<Rightarrow> manager \<Rightarrow> peer_info \<Rightarrow> (u64 result \<times> manager) option" where
  "begin_re note clk m p =
     (if deny_list m \<noteq> {} \<and> fingerprint p \<in> deny_list m then do {
        m \<leftarrow> record_re note clk (fingerprint p) CapabilityDenied ''peer on deny-list'' m;
        Some (fail PermissionDenied ''peer is on the deny list'', m)
      } else do {
        let i = next_id m;
        m \<leftarrow> record_re note clk (fingerprint p) SessionRequested (''id='' @ redesk_id p)
               (m\<lparr>next_id := next_id m + 1, sessions := emplace i (new_session i p) (sessions m)\<rparr>);
        Some (good i, m)
      })"

definition with_session :: "manager \<Rightarrow> u64 \<Rightarrow> (session \<Rightarrow> (status \<times> manager) option) \<Rightarrow> (status \<times> manager) option" where
  "with_session m i f = (case map_of (sessions m) i of None \<Rightarrow> Some (unknown_session, m) | Some s \<Rightarrow> f s)"

definition handshake_started_re :: "notify \<Rightarrow> clock \<Rightarrow> manager \<Rightarrow> u64 \<Rightarrow> (status \<times> manager) option" where
  "handshake_started_re note clk m i = with_session m i (\<lambda>s. do {
     m \<leftarrow> transition_re note i Authenticating m;
     m \<leftarrow> record_re note clk (fingerprint (peer s)) HandshakeStarted '''' m;
     Some (success, m)
   })"

text \<open>\<open>onHandshakeCompleted\<close> after its first audit record.\<close>

definition handshake_rest_re :: "notify \<Rightarrow> clock \<Rightarrow> u64 \<Rightarrow> string \<Rightarrow> string \<Rightarrow> manager \<Rightarrow> (status \<times> manager) option" where
  "handshake_rest_re note clk i fp rid m =
     (if fp \<in> deny_list m then do {
        m \<leftarrow> record_re note clk fp AuthFailed ''peer on deny-list (post-handshake)'' m;
        m \<leftarrow> transition_re note i Denied m;
        Some (error_status PermissionDenied ''peer denied'', m)
      } else (case map_of (tofu_pins m) rid of
          Some pinned \<Rightarrow>
            (if pinned \<noteq> fp then do {
               m \<leftarrow> record_re note clk fp KeyChangeDetected (''id='' @ rid @ '' expected='' @ pinned) m;
               Some (success, m)
             } else Some (success, m))
        | None \<Rightarrow> Some (success, m\<lparr>tofu_pins := AList.update rid fp (tofu_pins m)\<rparr>)))"

definition handshake_completed_re :: "notify \<Rightarrow> clock \<Rightarrow> manager \<Rightarrow> u64 \<Rightarrow> string \<Rightarrow> (status \<times> manager) option" where
  "handshake_completed_re note clk m i fp = with_session m i (\<lambda>s. do {
     let p = (if fingerprint (peer s) = '''' then (peer s)\<lparr>fingerprint := fp\<rparr> else peer s);
     m \<leftarrow> record_re note clk (fingerprint p) HandshakeCompleted '''' m;
     handshake_rest_re note clk i fp (redesk_id p) m
   })"

text \<open>\<open>authorize\<close> once the request is clamped to the ceiling.\<close>

definition authorize_rest_re :: "notify \<Rightarrow> clock \<Rightarrow> u64 \<Rightarrow> string \<Rightarrow> capabilities \<Rightarrow> manager \<Rightarrow> (status \<times> manager) option" where
  "authorize_rest_re note clk i fp allowed_bits m =
     (if allowed_bits = 0 then do {
        m \<leftarrow> transition_re note i Denied m;
        Some (error_status PermissionDenied ''no requested capability is within policy'', m)
      } else do {
        let m = update_session i (grant (allowed_bits OR ViewOnly)) m;
        m \<leftarrow> record_re note clk fp CapabilityGranted (''granted='' @ to_string (unat (allowed_bits OR ViewOnly))) m;
        m \<leftarrow> record_re note clk fp AuthSucceeded '''' m;
        m \<leftarrow> transition_re note i Active m;
        m \<leftarrow> record_re note clk fp SessionActivated '''' m;
        Some (success, m)
      })"

definition authorize_re :: "notify \<Rightarrow> clock \<Rightarrow> manager \<Rightarrow> u64 \<Rightarrow> capabilities \<Rightarrow> (status \<times> manager) option" where
  "authorize_re note clk m i requested = with_session m i (\<lambda>s. do {
     let ceiling_bits = ceiling m OR ViewOnly;
     let refused_bits = requested AND NOT ceiling_bits;
     m \<leftarrow> (if refused_bits \<noteq> 0 then
             record_re note clk (fingerprint (peer s)) CapabilityDenied
               (''above ceiling: requested='' @ to_string (unat requested) @ '' ceiling='' @ to_string (unat ceiling_bits)) m
           else Some m);
     authorize_rest_re note clk i (fingerprint (peer s)) (requested AND ceiling_bits) m
   })"

definition deny_re :: "notify \<Rightarrow> clock \<Rightarrow> manager \<Rightarrow> u64 \<Rightarrow> string \<Rightarrow> (status \<times> manager) option" where
  "deny_re note clk m i reason = with_session m i (\<lambda>s. do {
     m \<leftarrow> record_re note clk (fingerprint (peer s)) AuthFailed reason m;
     m \<leftarrow> transition_re note i Denied m;
     Some (success, m)
   })"

definition check_re :: "notify \<Rightarrow> clock \<Rightarrow> manager \<Rightarrow> u64 \<Rightarrow> capabilities \<Rightarrow> (bool \<times> manager) option" where
  "check_re note clk m i needed =
     (case map_of (sessions m) i of None \<Rightarrow> Some (False, m)
      | Some s \<Rightarrow> if isAllowed s needed then Some (True, m)
          else do {
            m \<leftarrow> record_re note clk (fingerprint (peer s)) PermissionCheckDenied
                   (''needed='' @ to_string (unat needed) @ '' state='' @ state_toString (state s)) m;
            Some (False, m)
          })"

definition close_re :: "notify \<Rightarrow> clock \<Rightarrow> manager \<Rightarrow> u64 \<Rightarrow> (status \<times> manager) option" where
  "close_re note clk m i = with_session m i (\<lambda>s. do {
     m \<leftarrow> transition_re note i Closed m;
     m \<leftarrow> record_re note clk (fingerprint (peer s)) SessionClosed '''' m;
     Some (success, m)
   })"

fun step_re :: "notify \<Rightarrow> clock \<Rightarrow> manager \<Rightarrow> session_op \<Rightarrow> manager option" where
  "step_re note clk m (OpBegin p) = map_option snd (begin_re note clk m p)"
| "step_re note clk m (OpHandshakeStarted i) = map_option snd (handshake_started_re note clk m i)"
| "step_re note clk m (OpHandshakeCompleted i fp) = map_option snd (handshake_completed_re note clk m i fp)"
| "step_re note clk m (OpAuthorize i c) = map_option snd (authorize_re note clk m i c)"
| "step_re note clk m (OpDeny i r) = map_option snd (deny_re note clk m i r)"
| "step_re note clk m (OpCheck i c) = map_option snd (check_re note clk m i c)"
| "step_re note clk m (OpClose i) = map_option snd (close_re note clk m i)"
| "step_re note clk m (OpStateCallback b) = Some (setStateCallback b m)"
| "step_re note clk m (OpAuditCallback b) = Some (setAuditCallback b m)"
| "step_re note clk m (OpCeiling c) = Some (setCapabilityCeiling c m)"
| "step_re note clk m (OpAllowPeer fp) = Some (allowPeer fp m)"
| "step_re note clk m (OpDenyPeer fp) = Some (denyPeer fp m)"

section \<open>Clients that call back\<close>

type_synonym client = "cb_event \<Rightarrow> manager \<Rightarrow> session_op list"

fun exec_list :: "(manager \<Rightarrow> session_op \<Rightarrow> manager option) \<Rightarrow> manager \<Rightarrow> session_op list \<Rightarrow> manager option" where
  "exec_list f m [] = Some m"
| "exec_list f m (op # ops) = do { m \<leftarrow> f m op; exec_list f m ops }"

definition note_call :: "session_op \<Rightarrow> manager \<Rightarrow> manager" where
  "note_call op m = m\<lparr>cb_calls := cb_calls m @ [op]\<rparr>"

text \<open>Each call that a callback makes is noted in \<open>cb_calls\<close> as it is made, then carried out.\<close>

primrec exec :: "nat \<Rightarrow> client \<Rightarrow> clock \<Rightarrow> manager \<Rightarrow> session_op \<Rightarrow> manager option" where
  "exec 0 client clk m op = None"
| "exec (Suc n) client clk m op =
     step_re (\<lambda>ev m. exec_list (\<lambda>m op. exec n client clk (note_call op m) op) m (client ev m)) clk m op"

lemma note_call_simps [simp]:
  "sessions (note_call op m) = sessions m" "audit (note_call op m) = audit m" "ceiling (note_call op m) = ceiling m"
  "state_cb (note_call op m) = state_cb m" "audit_cb (note_call op m) = audit_cb m" "cb_log (note_call op m) = cb_log m"
  "deny_list (note_call op m) = deny_list m" "tofu_pins (note_call op m) = tofu_pins m"
  "cb_calls (note_call op m) = cb_calls m @ [op]"
  by (simp_all add: note_call_def)

section \<open>Without nested calls\<close>

text \<open>A client that only looks on: the callbacks are logged, and the operation is the sequential one.\<close>

abbreviation on_looker :: client where
  "on_looker \<equiv> \<lambda>ev m. []"

lemma update_session_known: "map_of (sessions m) i = Some s \<Longrightarrow> update_session i f m = store_session i (f s) m"
  by (simp add: update_session_def)

lemma update_session_sessions:
  "map_of (sessions (update_session i f m)) j =
     (if i = j then map_option f (map_of (sessions m) i) else map_of (sessions m) j)"
  by (simp add: update_session_def split: option.split)

lemma record_quiet: "record_re (\<lambda>ev m. Some m) clk fp ev d m = Some (record_audit clk fp ev d m)"
  by (simp add: record_re_def record_audit_def Let_def)

lemma transition_quiet:
  "map_of (sessions m) i = Some s \<Longrightarrow> transition_re (\<lambda>ev m. Some m) i to m = Some (transition i s to m)"
  by (simp add: transition_re_def transition_def update_session_known Let_def)

lemma transition_unused: "transition i s to (store_session i s' m) = transition i s to m"
  by (simp add: transition_def store_session_def Let_def)

lemma step_quiet: "step_re (\<lambda>ev m. Some m) clk m op = Some (session_step clk m op)"
proof (cases op)
  case (OpBegin p)
  then show ?thesis by (simp add: begin_re_def beginSession_def record_quiet Let_def)
next
  case (OpAuthorize i c)
  then show ?thesis
    by (simp add: authorize_re_def authorize_rest_re_def authorize_def with_session_def record_quiet transition_quiet update_session_known Let_def
        split: option.split)
qed (auto simp: handshake_started_re_def onHandshakeStarted_def handshake_completed_re_def handshake_rest_re_def onHandshakeCompleted_def
    deny_re_def deny_def check_re_def checkPermission_def close_re_def closeSession_def with_session_def
    record_quiet transition_quiet Let_def split: option.split)

lemma exec_list_append:
  "exec_list f m ops = Some v \<Longrightarrow> exec_list f v ops' = Some v' \<Longrightarrow> exec_list f m (ops @ ops') = Some v'"
  by (induction ops arbitrary: m) (auto simp: bind_eq_Some_conv)

lemma exec_quiet: "exec (Suc n) on_looker clk m op = Some (session_step clk m op)"
  by (simp add: step_quiet)

lemma exec_list_quiet: "exec_list (exec (Suc n) on_looker clk) m ops = Some (foldl (session_step clk) m ops)"
  by (induction ops arbitrary: m) (simp_all add: step_quiet)

section \<open>What nested calls cannot do\<close>

text \<open>A relation that every elementary change of the manager respects, where changes made only by
  \<open>authorize\<close> are owed only for the calls that are allowed, is respected by every operation whatever
  allowed calls its callbacks make.\<close>

locale callback_relation =
  fixes R :: "manager \<Rightarrow> manager \<Rightarrow> bool" and ok :: "session_op \<Rightarrow> bool"
  assumes rel_refl: "R m m"
    and rel_trans: "R m m' \<Longrightarrow> R m' m'' \<Longrightarrow> R m m''"
    and rel_audit: "R m (m\<lparr>audit := audit m @ [r]\<rparr>)"
    and rel_log: "R m (m\<lparr>cb_log := cb_log m @ [ev]\<rparr>)"
    and rel_call: "R m (note_call op m)"
    and rel_state: "map_of (sessions m) i = Some s \<Longrightarrow> st \<noteq> Active \<or> ok (OpAuthorize i c) \<Longrightarrow> R m (store_session i (setState st s) m)"
    and rel_grant: "map_of (sessions m) i = Some s \<Longrightarrow> ok (OpAuthorize i c) \<Longrightarrow> R m (store_session i (grant (c AND k OR ViewOnly) s) m)"
    and rel_new: "R m (m\<lparr>next_id := j, sessions := emplace i (new_session i p) (sessions m)\<rparr>)"
    and rel_pin: "map_of (tofu_pins m) rid = None \<Longrightarrow> R m (m\<lparr>tofu_pins := AList.update rid v (tofu_pins m)\<rparr>)"
    and rel_settings: "R m (m\<lparr>state_cb := b\<rparr>)" "R m (m\<lparr>audit_cb := b\<rparr>)" "R m (m\<lparr>ceiling := w\<rparr>)"
      "R m (m\<lparr>allow_list := A, deny_list := D\<rparr>)" "R m (m\<lparr>deny_list := D, allow_list := A\<rparr>)"
begin

definition note_safe :: "notify \<Rightarrow> bool" where
  "note_safe note \<longleftrightarrow> (\<forall>ev m m'. note ev m = Some m' \<longrightarrow> R m m')"

lemma note_rel: "note_safe note \<Longrightarrow> note ev m = Some m' \<Longrightarrow> R m m'"
  by (auto simp: note_safe_def)

lemma record_rel:
  assumes "note_safe note" and "record_re note clk fp ev d m = Some m'"
  shows "R m m'"
proof -
  define r where "r = \<lparr>audit_timestamp_us = clk (length (audit m)), peer_fingerprint = fp, event = ev, detail = d\<rparr>"
  let ?m = "m\<lparr>audit := audit m @ [r]\<rparr>"
  have m: "R m ?m" and l: "R m (?m\<lparr>cb_log := cb_log ?m @ [AuditCb r]\<rparr>)"
    by (rule rel_audit) (rule rel_trans [OF rel_audit rel_log])
  have e: "record_re note clk fp ev d m =
      (if audit_cb m then note (AuditCb r) (?m\<lparr>cb_log := cb_log ?m @ [AuditCb r]\<rparr>) else Some ?m)"
    by (simp add: record_re_def r_def Let_def)
  show ?thesis
  proof (cases "audit_cb m")
    case True
    with assms(2) e show ?thesis by (auto intro: rel_trans [OF l note_rel [OF assms(1)]])
  next
    case False
    with assms(2) e m show ?thesis by simp
  qed
qed

lemma transition_rel:
  assumes "note_safe note" and "st \<noteq> Active \<or> ok (OpAuthorize i c)" and "transition_re note i st m = Some m'"
  shows "R m m'"
proof (cases "map_of (sessions m) i")
  case None
  with assms(3) show ?thesis by (simp add: transition_re_def rel_refl)
next
  case (Some s)
  let ?m = "store_session i (setState st s) m"
  have m: "R m ?m" by (rule rel_state [OF Some assms(2)])
  then have l: "R m (?m\<lparr>cb_log := cb_log ?m @ [StateCb (sess_id s) st]\<rparr>)" by (rule rel_trans) (rule rel_log)
  have e: "transition_re note i st m =
      (if state_cb ?m then note (StateCb (sess_id s) st) (?m\<lparr>cb_log := cb_log ?m @ [StateCb (sess_id s) st]\<rparr>) else Some ?m)"
    using Some by (simp add: transition_re_def update_session_known Let_def)
  show ?thesis
  proof (cases "state_cb ?m")
    case True
    with assms(3) e show ?thesis by (auto intro: rel_trans [OF l note_rel [OF assms(1)]])
  next
    case False
    with assms(3) e m show ?thesis by simp
  qed
qed

lemma grant_rel: "ok (OpAuthorize i c) \<Longrightarrow> R m (update_session i (grant (c AND k OR ViewOnly)) m)"
  by (simp add: update_session_def rel_refl rel_grant split: option.split)

lemma activated_rel:
  assumes safe: "note_safe note" and ok: "ok (OpAuthorize i c)"
    and "record_re note clk fp e1 d1 (update_session i (grant (c AND k OR ViewOnly)) m) = Some m1"
    and "record_re note clk fp e2 d2 m1 = Some m2" and "transition_re note i Active m2 = Some m3"
    and "record_re note clk fp e3 d3 m3 = Some m4"
  shows "R m m4"
proof -
  have "R m m2" by (rule rel_trans [OF rel_trans [OF grant_rel [OF ok] record_rel [OF safe assms(3)]] record_rel [OF safe assms(4)]])
  moreover have "R m2 m4" by (rule rel_trans [OF transition_rel [OF safe disjI2 [OF ok] assms(5)] record_rel [OF safe assms(6)]])
  ultimately show ?thesis by (rule rel_trans)
qed

lemma step_rel:
  assumes safe: "note_safe note" and "ok op" and step: "step_re note clk m op = Some m'"
  shows "R m m'"
proof (cases op)
  case (OpBegin p)
  with step show ?thesis
    by (auto simp: begin_re_def bind_eq_Some_conv Let_def intro: record_rel [OF safe] rel_trans [OF rel_new]
        split: if_splits)
next
  case (OpHandshakeStarted i)
  with step show ?thesis
    by (auto simp: handshake_started_re_def with_session_def bind_eq_Some_conv rel_refl split: option.splits
        intro: rel_trans [OF transition_rel [OF safe] record_rel [OF safe]])
next
  case (OpHandshakeCompleted i fp)
  show ?thesis
  proof (cases "map_of (sessions m) i")
    case None
    with step OpHandshakeCompleted show ?thesis by (simp add: handshake_completed_re_def with_session_def rel_refl)
  next
    case (Some s)
    define p where "p = (if fingerprint (peer s) = '''' then (peer s)\<lparr>fingerprint := fp\<rparr> else peer s)"
    from step OpHandshakeCompleted Some obtain m1 where r1: "record_re note clk (fingerprint p) HandshakeCompleted '''' m = Some m1"
      and rest: "map_option snd (handshake_rest_re note clk i fp (redesk_id p) m1) = Some m'"
      by (auto simp: handshake_completed_re_def with_session_def p_def bind_eq_Some_conv Let_def)
    have "R m1 m'"
    proof (cases "fp \<in> deny_list m1")
      case True
      with rest obtain m2 where "record_re note clk fp AuthFailed ''peer on deny-list (post-handshake)'' m1 = Some m2"
        and "transition_re note i Denied m2 = Some m'"
        by (auto simp: handshake_rest_re_def bind_eq_Some_conv)
      from rel_trans [OF record_rel [OF safe this(1)] transition_rel [OF safe _ this(2)]] show ?thesis by simp
    next
      case False
      with rest show ?thesis
        by (auto simp: handshake_rest_re_def bind_eq_Some_conv rel_refl rel_pin split: if_splits option.splits
            intro: record_rel [OF safe])
    qed
    with record_rel [OF safe r1] show ?thesis by (rule rel_trans)
  qed
next
  case (OpAuthorize i c)
  with assms(2) have ok: "ok (OpAuthorize i c)" by simp
  show ?thesis
  proof (cases "map_of (sessions m) i")
    case None
    with step OpAuthorize show ?thesis by (simp add: authorize_re_def with_session_def rel_refl)
  next
    case (Some s)
    let ?allowed = "c AND (ceiling m OR ViewOnly)" and ?fp = "fingerprint (peer s)"
    from step OpAuthorize Some obtain m1
      where first: "m1 = m \<or> (\<exists>d. record_re note clk ?fp CapabilityDenied d m = Some m1)"
        and rest: "map_option snd (authorize_rest_re note clk i ?fp ?allowed m1) = Some m'"
      by (cases "c AND NOT (ceiling m OR ViewOnly) = 0") (auto simp: authorize_re_def with_session_def Let_def bind_eq_Some_conv)
    have "R m m1" using first record_rel [OF safe] rel_refl by blast
    moreover have "R m1 m'"
    proof (cases "?allowed = 0")
      case True
      with rest transition_rel [OF safe, of Denied i] show ?thesis
        by (auto simp: authorize_rest_re_def bind_eq_Some_conv)
    next
      case False
      with rest show ?thesis
        by (auto simp: authorize_rest_re_def bind_eq_Some_conv Let_def intro: activated_rel [OF safe ok])
    qed
    ultimately show ?thesis by (rule rel_trans)
  qed
next
  case (OpDeny i r)
  with step show ?thesis
    by (auto simp: deny_re_def with_session_def bind_eq_Some_conv rel_refl split: option.splits
        intro: rel_trans [OF record_rel [OF safe] transition_rel [OF safe]])
next
  case (OpCheck i c)
  with step show ?thesis
    by (auto simp: check_re_def bind_eq_Some_conv rel_refl split: option.splits if_splits intro: record_rel [OF safe])
next
  case (OpClose i)
  with step show ?thesis
    by (auto simp: close_re_def with_session_def bind_eq_Some_conv rel_refl split: option.splits
        intro: rel_trans [OF transition_rel [OF safe] record_rel [OF safe]])
qed (use step rel_settings in \<open>auto simp: setStateCallback_def setAuditCallback_def setCapabilityCeiling_def
    allowPeer_def denyPeer_def\<close>)

lemma exec_list_rel:
  "(\<And>m op m'. ok op \<Longrightarrow> f m op = Some m' \<Longrightarrow> R m m') \<Longrightarrow> list_all ok ops \<Longrightarrow> exec_list f m ops = Some m' \<Longrightarrow> R m m'"
proof (induction ops arbitrary: m)
  case (Cons op ops)
  from Cons.prems(3) obtain v where v: "f m op = Some v" "exec_list f v ops = Some m'"
    by (auto simp: bind_eq_Some_conv)
  have "R m v" by (rule Cons.prems(1) [OF _ v(1)]) (use Cons.prems(2) in simp)
  moreover have "R v m'" by (rule Cons.IH [OF Cons.prems(1) _ v(2)]) (use Cons.prems(2) in simp_all)
  ultimately show ?case by (rule rel_trans)
qed (simp add: rel_refl)

lemma note_rel_call: "R (note_call op m) m' \<Longrightarrow> R m m'"
  by (rule rel_trans [OF rel_call])

lemma exec_rel:
  assumes "\<And>ev m. list_all ok (client ev m)"
  shows "ok op \<Longrightarrow> exec n client clk m op = Some m' \<Longrightarrow> R m m'"
proof (induction n arbitrary: m op m')
  case (Suc n)
  have "note_safe (\<lambda>ev m. exec_list (\<lambda>m op. exec n client clk (note_call op m) op) m (client ev m))"
    unfolding note_safe_def by (intro allI impI) (rule exec_list_rel [OF note_rel_call [OF Suc.IH] assms])
  from step_rel [OF this Suc.prems(1)] Suc.prems(2) show ?case by simp
qed simp

lemma run_rel:
  assumes "\<And>ev m. list_all ok (client ev m)" and "list_all ok ops" and "exec_list (exec n client clk) m ops = Some m'"
  shows "R m m'"
  by (rule exec_list_rel [OF exec_rel [OF assms(1)] assms(2,3)])

end

text \<open>The calls that callbacks made stay on record, and callbacks only add to the log.\<close>

interpretation nested_calls: callback_relation "\<lambda>m m'. set (cb_calls m) \<subseteq> set (cb_calls m')" "\<lambda>_. True"
  by unfold_locales (auto simp: store_session_def)

interpretation nested_log: callback_relation "\<lambda>m m'. length (cb_log m) \<le> length (cb_log m')" "\<lambda>_. True"
  by unfold_locales (auto simp: store_session_def)

lemma nested_call_recorded:
  "exec n client clk (note_call op m) op = Some m' \<Longrightarrow> op \<in> set (cb_calls m') \<and> set (cb_calls m) \<subseteq> set (cb_calls m')"
  by (drule nested_calls.exec_rel [rotated 2]) (simp_all add: list_all_iff)

text \<open>A relation that also allows for what the record of nested calls shows needs no condition on the client:
  a call that is not allowed is one of those on record.\<close>

locale callback_history = callback_relation +
  assumes rel_made: "\<not> ok op \<Longrightarrow> op \<in> set (cb_calls m') \<Longrightarrow> set (cb_calls m) \<subseteq> set (cb_calls m') \<Longrightarrow> R m m'"
begin

lemma history_list_rel:
  "(\<And>m op m'. op \<in> set ops \<Longrightarrow> f m op = Some m' \<Longrightarrow> R m m') \<Longrightarrow> exec_list f m ops = Some m' \<Longrightarrow> R m m'"
proof (induction ops arbitrary: m)
  case (Cons op ops)
  from Cons.prems(2) obtain v where v: "f m op = Some v" "exec_list f v ops = Some m'"
    by (auto simp: bind_eq_Some_conv)
  have "R m v" by (rule Cons.prems(1) [OF _ v(1)]) simp
  moreover have "R v m'" by (rule Cons.IH [OF Cons.prems(1) v(2)]) simp_all
  ultimately show ?case by (rule rel_trans)
qed (simp add: rel_refl)

lemma exec_history: "ok op \<Longrightarrow> exec n client clk m op = Some m' \<Longrightarrow> R m m'"
proof (induction n arbitrary: m op m')
  case (Suc n)
  have nested: "R m m'" if "exec n client clk (note_call op m) op = Some m'" for m op m'
  proof (cases "ok op")
    case True
    from Suc.IH [OF this that] show ?thesis by (rule note_rel_call)
  next
    case False
    with nested_call_recorded [OF that] show ?thesis using rel_made by blast
  qed
  have "note_safe (\<lambda>ev m. exec_list (\<lambda>m op. exec n client clk (note_call op m) op) m (client ev m))"
    unfolding note_safe_def by (intro allI impI) (rule history_list_rel [OF nested])
  from step_rel [OF this Suc.prems(1)] Suc.prems(2) show ?case by simp
qed simp

lemma run_history: "list_all ok ops \<Longrightarrow> exec_list (exec n client clk) m ops = Some m' \<Longrightarrow> R m m'"
  by (rule history_list_rel) (auto simp: list_all_iff intro: exec_history)

end

text \<open>Three such relations: nothing is forgotten, no session becomes active, no capability is gained.\<close>

definition active_in :: "u64 \<Rightarrow> manager \<Rightarrow> bool" where
  "active_in i m \<longleftrightarrow> (\<exists>s. map_of (sessions m) i = Some s \<and> state s = Active)"

definition holds_cap :: "u64 \<Rightarrow> nat \<Rightarrow> manager \<Rightarrow> bool" where
  "holds_cap i b m \<longleftrightarrow> (\<exists>s. map_of (sessions m) i = Some s \<and> bit (granted s) b)"

interpretation nested_evolves: callback_relation manager_evolves "\<lambda>_. True"
proof unfold_locales
  show "map_of (sessions m) i = Some s \<Longrightarrow> manager_evolves m (store_session i (setState st s) m)" for m i s st
    by (auto simp: manager_evolves_def setState_def)
  show "map_of (sessions m) i = Some s \<Longrightarrow> manager_evolves m (store_session i (grant (c AND k OR ViewOnly) s) m)" for m i s c k
    by (auto simp: manager_evolves_def session_evolves_def)
  show "manager_evolves m m' \<Longrightarrow> manager_evolves m' m'' \<Longrightarrow> manager_evolves m m''" for m m' m''
    by (rule manager_evolves_trans)
qed (auto simp: manager_evolves_refl manager_evolves_def map_le_def)

definition active_unless_called :: "u64 \<Rightarrow> manager \<Rightarrow> manager \<Rightarrow> bool" where
  "active_unless_called i m m' \<longleftrightarrow> set (cb_calls m) \<subseteq> set (cb_calls m')
     \<and> (active_in i m' \<longrightarrow> active_in i m \<or> (\<exists>c. OpAuthorize i c \<in> set (cb_calls m')))"

definition cap_unless_called :: "u64 \<Rightarrow> nat \<Rightarrow> manager \<Rightarrow> manager \<Rightarrow> bool" where
  "cap_unless_called i b m m' \<longleftrightarrow> set (cb_calls m) \<subseteq> set (cb_calls m')
     \<and> (b \<noteq> 0 \<and> holds_cap i b m' \<longrightarrow> holds_cap i b m \<or> (\<exists>c. bit c b \<and> OpAuthorize i c \<in> set (cb_calls m')))"

interpretation nested_active: callback_history "active_unless_called i" "\<lambda>op. \<forall>c. op \<noteq> OpAuthorize i c" for i
  by unfold_locales (auto simp: active_unless_called_def active_in_def setState_def grant_def new_session_def store_session_def split: if_splits)

interpretation nested_caps: callback_history "cap_unless_called i b" "\<lambda>op. \<forall>c. op = OpAuthorize i c \<longrightarrow> \<not> bit c b" for i b
  by unfold_locales (auto simp: cap_unless_called_def holds_cap_def setState_def grant_def new_session_def store_session_def CapNone_def
      bit_or_iff bit_and_iff ViewOnly_def bit_1_iff split: if_splits)

section \<open>Clients that fall silent\<close>

text \<open>A run returns, with no fewer callbacks in the log than before.\<close>

definition returns :: "nat \<Rightarrow> manager option \<Rightarrow> bool" where
  "returns k x \<longleftrightarrow> (\<exists>m. x = Some m \<and> k \<le> length (cb_log m))"

definition note_returns :: "nat \<Rightarrow> notify \<Rightarrow> bool" where
  "note_returns k note \<longleftrightarrow> (\<forall>ev m. k < length (cb_log m) \<longrightarrow> returns k (note ev m))"

lemma returns_Some [simp]: "returns k (Some m) \<longleftrightarrow> k \<le> length (cb_log m)"
  by (simp add: returns_def)

lemma returns_bind: "returns k x \<Longrightarrow> (\<And>m. k \<le> length (cb_log m) \<Longrightarrow> returns k (f m)) \<Longrightarrow> returns k (x \<bind> f)"
  by (auto simp: returns_def)

lemma record_returns:
  "note_returns k note \<Longrightarrow> k \<le> length (cb_log m) \<Longrightarrow> returns k (record_re note clk fp ev d m)"
  by (simp add: record_re_def note_returns_def Let_def)

lemma update_session_log [simp]: "cb_log (update_session i f m) = cb_log m"
  by (simp add: update_session_def store_session_def split: option.split)

lemma transition_returns: "note_returns k note \<Longrightarrow> k \<le> length (cb_log m) \<Longrightarrow> returns k (transition_re note i st m)"
  by (simp add: transition_re_def note_returns_def Let_def split: option.split)

lemma map_snd_bind: "map_option snd (x \<bind> f) = x \<bind> (\<lambda>m. map_option snd (f m))"
  by (cases x) simp_all

lemmas returns_intros = returns_bind record_returns transition_returns

lemma step_returns:
  assumes "note_returns k note" and "k \<le> length (cb_log m)"
  shows "returns k (step_re note clk m op)"
  using assms
  by (cases op)
    (auto simp: begin_re_def handshake_started_re_def handshake_completed_re_def handshake_rest_re_def authorize_re_def
      authorize_rest_re_def deny_re_def check_re_def close_re_def with_session_def map_snd_bind Let_def
      setStateCallback_def setAuditCallback_def setCapabilityCeiling_def allowPeer_def denyPeer_def
      intro!: returns_intros split: option.split)

lemma exec_list_returns:
  "(\<And>m op. k \<le> length (cb_log m) \<Longrightarrow> returns k (f m op)) \<Longrightarrow> k \<le> length (cb_log m) \<Longrightarrow> returns k (exec_list f m ops)"
  by (induction ops arbitrary: m) (auto intro!: returns_bind)

text \<open>The client makes no calls any more once \<open>k\<close> callbacks have been made.\<close>

definition silent_after :: "nat \<Rightarrow> client \<Rightarrow> bool" where
  "silent_after k client \<longleftrightarrow> (\<forall>ev m. k \<le> length (cb_log m) \<longrightarrow> client ev m = [])"

lemma exec_returns:
  assumes "silent_after k client"
  shows "k \<le> j + n \<Longrightarrow> j \<le> length (cb_log m) \<Longrightarrow> returns j (exec (Suc n) client clk m op)"
proof (induction n arbitrary: j m op)
  case 0
  then have "note_returns j (\<lambda>ev m. exec_list (\<lambda>m op. exec 0 client clk (note_call op m) op) m (client ev m))"
    using assms by (auto simp: note_returns_def silent_after_def)
  then show ?case using 0 by (simp add: step_returns)
next
  case (Suc n)
  have "returns (Suc j) (exec_list (\<lambda>m op. exec (Suc n) client clk (note_call op m) op) m (client ev m))"
    if "j < length (cb_log m)" for ev m
    using that Suc.prems(1) by (intro exec_list_returns Suc.IH) simp_all
  then have "note_returns j (\<lambda>ev m. exec_list (\<lambda>m op. exec (Suc n) client clk (note_call op m) op) m (client ev m))"
    by (fastforce simp: note_returns_def returns_def)
  with step_returns [OF this Suc.prems(2)] show ?case by simp
qed

section \<open>Properties\<close>

text \<open>With callbacks that only look on, the manager with nested calls is the sequential one: over any
  calls it ends in the same state, with the same sessions, audit log, pins and log of callbacks.\<close>

theorem on_looking_callbacks_change_nothing:
  "exec_list (exec (Suc n) on_looker clk) init_manager ops = Some (session_run clk ops)"
  unfolding session_run_def by (rule exec_list_quiet)

text \<open>C9: The access guarantees survive callbacks that call the manager back: whatever the callbacks do, at
  whatever depth, a session is active after a run only if a call of the run, or a call that a callback
  really made in it, authorized that session; it holds a capability other than ViewOnly only if such an
  authorize requested it; and nothing that was on record in the middle of the run (audit log, pins,
  peers, grants) is lost by its end. Every run returns if the callbacks call back only while fewer than
  some number of them have been made.\<close>

theorem nested_calls_keep_access_control:
  assumes "exec_list (exec n client clk) init_manager ops = Some m" and "exec_list (exec n client clk) m ops' = Some m'"
    and "map_of (sessions m') i = Some s"
  shows "(if state s = Active then \<exists>c. OpAuthorize i c \<in> set (ops @ ops' @ cb_calls m') else True)
    \<and> (if b \<noteq> 0 \<and> bit (granted s) b then \<exists>c. bit c b \<and> OpAuthorize i c \<in> set (ops @ ops' @ cb_calls m') else True)
    \<and> manager_evolves m m'
    \<and> (if silent_after k client then \<exists>v. exec_list (exec (Suc (k + j)) client clk) init_manager calls = Some v else True)"
proof -
  have run: "exec_list (exec n client clk) init_manager (ops @ ops') = Some m'"
    by (rule exec_list_append [OF assms(1,2)])
  have act: "\<exists>c. OpAuthorize i c \<in> set (ops @ ops' @ cb_calls m')" if "state s = Active"
  proof (rule ccontr)
    assume none: "\<not> ?thesis"
    have "active_unless_called i init_manager m'"
      by (rule nested_active.run_history [OF _ run]) (use none in \<open>auto simp: list_all_iff\<close>)
    with that none assms(3) show False by (auto simp: active_unless_called_def active_in_def init_manager_def)
  qed
  have cap: "\<exists>c. bit c b \<and> OpAuthorize i c \<in> set (ops @ ops' @ cb_calls m')" if "b \<noteq> 0" "bit (granted s) b"
  proof (rule ccontr)
    assume none: "\<not> ?thesis"
    have "cap_unless_called i b init_manager m'"
      by (rule nested_caps.run_history [OF _ run]) (use none in \<open>auto simp: list_all_iff\<close>)
    with that none assms(3) show False by (auto simp: cap_unless_called_def holds_cap_def init_manager_def)
  qed
  have "manager_evolves m m'" by (rule nested_evolves.run_rel [OF _ _ assms(2)]) (simp_all add: list_all_iff)
  moreover have "returns 0 (exec_list (exec (Suc (k + j)) client clk) init_manager calls)" if "silent_after k client"
    by (rule exec_list_returns [OF exec_returns [OF that]]) simp_all
  ultimately show ?thesis using act cap by (auto simp: returns_def simp del: exec.simps)
qed

text \<open>A client that answers the first callback by authorizing session 1.\<close>

definition demo_client :: client where
  "demo_client ev m = (if length (cb_log m) = 1 then [OpAuthorize 1 ViewOnly] else [])"

lemma demo_client_run:
  "\<exists>m s. exec_list (exec 2 demo_client (\<lambda>_. 0)) init_manager [OpAuditCallback True] = Some (setAuditCallback True init_manager)
    \<and> exec_list (exec 2 demo_client (\<lambda>_. 0)) (setAuditCallback True init_manager) [OpBegin demo_peer] = Some m
    \<and> map_of (sessions m) 1 = Some s \<and> state s = Active \<and> fingerprint (peer s) = ''fp''"
  by (simp add: numeral_2_eq_2 begin_re_def record_re_def authorize_re_def authorize_rest_re_def with_session_def transition_re_def
      update_session_def demo_client_def demo_eval note_call_def Let_def)

theorem nested_calls_keep_access_control_witness:
  "\<exists>m c. exec_list (exec 2 demo_client (\<lambda>_. 0)) (setAuditCallback True init_manager) [OpBegin demo_peer] = Some m
    \<and> OpAuthorize 1 c \<in> set (cb_calls m)"
proof -
  obtain m s where m: "exec_list (exec 2 demo_client (\<lambda>_. 0)) init_manager [OpAuditCallback True] = Some (setAuditCallback True init_manager)"
      "exec_list (exec 2 demo_client (\<lambda>_. 0)) (setAuditCallback True init_manager) [OpBegin demo_peer] = Some m"
      "map_of (sessions m) 1 = Some s" "state s = Active"
    using demo_client_run by blast
  from nested_calls_keep_access_control [OF m(1-3)] m(2,4) show ?thesis by auto
qed

text \<open>A client that answers one kind of audit record with fixed calls.\<close>

definition answering :: "audit_event \<Rightarrow> session_op list \<Rightarrow> client" where
  "answering e calls ev m = (case ev of AuditCb r \<Rightarrow> (if event r = e then calls else []) | StateCb _ _ \<Rightarrow> [])"

lemma answering_simps [simp]:
  "answering e calls (StateCb j st) m = []"
  "answering e calls (AuditCb r) m = (if event r = e then calls else [])"
  by (simp_all add: answering_def)

lemma record_unanswered:
  "ev \<noteq> e \<Longrightarrow> record_re (\<lambda>ev m. exec_list f m (answering e calls ev m)) clk fp ev d m = Some (record_audit clk fp ev d m)"
  by (simp add: record_re_def record_audit_def Let_def)

lemma record_answered:
  "audit_cb m \<Longrightarrow> record_re (\<lambda>ev m. exec_list f m (answering e calls ev m)) clk fp e d m
     = exec_list f (record_audit clk fp e d m) calls"
  by (simp add: record_re_def record_audit_def Let_def)

lemma transition_unanswered:
  "map_of (sessions m) i = Some s \<Longrightarrow>
     transition_re (\<lambda>ev m. exec_list f m (answering e calls ev m)) i st m = Some (transition i s st m)"
  by (simp add: transition_re_def transition_def update_session_known Let_def)

lemma deny_unanswered:
  "e \<noteq> AuthFailed \<Longrightarrow> exec (Suc n) (answering e calls) clk m (OpDeny i r) = Some (snd (deny clk m i r))"
  by (simp add: deny_re_def deny_def with_session_def record_unanswered transition_unanswered split: option.split)

lemma callbacks_kept [simp]:
  "audit_cb (store_session i s m) = audit_cb m" "audit_cb (transition i s st m) = audit_cb m"
  by (simp_all add: store_session_def transition_def Let_def)

lemmas answering_eval = with_session_def record_unanswered record_answered transition_unanswered deny_unanswered
  update_session_known Let_def

text \<open>C10: A denial made from inside a callback of the session's own authorization is lost: when the audit
  callback answers CapabilityGranted by denying the session, the denial is carried out and audited,
  authorize then goes on, and the session ends active with the denial before the activation in the
  log.\<close>

theorem denial_in_callback_is_overridden:
  assumes "map_of (sessions m) i = Some s" and "audit_cb m" and "c AND (ceiling m OR ViewOnly) \<noteq> 0"
  shows "\<exists>m' pre. exec (Suc (Suc n)) (answering CapabilityGranted [OpDeny i reason]) clk m (OpAuthorize i c) = Some m'
    \<and> active_in i m'
    \<and> map event (audit m') = map event (audit m) @ pre @ [CapabilityGranted, AuthFailed, AuthSucceeded, SessionActivated]"
  using assms
  by (cases "c AND NOT (ceiling m OR ViewOnly) = 0")
    (simp_all del: exec.simps add: exec.simps(2) [of "Suc n"] authorize_re_def authorize_rest_re_def deny_def answering_eval active_in_def)

definition demo_begun :: manager where
  "demo_begun = session_run (\<lambda>_. 0) [OpAuditCallback True, OpBegin demo_peer, OpHandshakeCompleted 1 ''old'']"

lemma demo_begun_facts:
  "map_of (sessions demo_begun) 1 = Some (new_session 1 demo_peer)" "audit_cb demo_begun" "ceiling demo_begun = ViewOnly"
  "deny_list demo_begun = {}" "map_of (tofu_pins demo_begun) (redesk_id demo_peer) = Some ''old''"
  by (simp_all add: demo_begun_def demo_eval)

theorem denial_in_callback_is_overridden_witness:
  "\<exists>m'. exec 2 (answering CapabilityGranted [OpDeny 1 ''no'']) (\<lambda>_. 0) demo_begun (OpAuthorize 1 ViewOnly) = Some m' \<and> active_in 1 m'"
  using denial_in_callback_is_overridden [OF demo_begun_facts(1,2), of ViewOnly 0 "''no''" "\<lambda>_. 0"]
  by (auto simp: demo_begun_facts(3) ViewOnly_def numeral_2_eq_2 simp del: exec.simps)

text \<open>A policy can be built on the callbacks where the code ends after the notification: an audit callback that
  denies a session when its peer shows up with another key than the pinned one has the last word,
  the handshake call returns, and the session is left denied with the pin unchanged.\<close>

theorem key_change_policy_denies:
  assumes "map_of (sessions m) i = Some s" and "audit_cb m" and "fp \<notin> deny_list m"
    and "map_of (tofu_pins m) (redesk_id (peer s)) = Some pinned" and "pinned \<noteq> fp"
  shows "\<exists>m'. exec (Suc (Suc n)) (answering KeyChangeDetected [OpDeny i reason]) clk m (OpHandshakeCompleted i fp) = Some m'
    \<and> map_option state (map_of (sessions m') i) = Some Denied \<and> tofu_pins m' = tofu_pins m
    \<and> map event (audit m') = map event (audit m) @ [HandshakeCompleted, KeyChangeDetected, AuthFailed]"
  using assms
  by (simp del: exec.simps add: exec.simps(2) [of "Suc n"] handshake_completed_re_def handshake_rest_re_def deny_def answering_eval)

theorem key_change_policy_denies_witness:
  "\<exists>m'. exec 2 (answering KeyChangeDetected [OpDeny 1 ''changed'']) (\<lambda>_. 0) demo_begun (OpHandshakeCompleted 1 ''new'') = Some m'
    \<and> map_option state (map_of (sessions m') 1) = Some Denied"
  using key_change_policy_denies [OF demo_begun_facts(1,2), of "''new''" "''old''" 0 "''changed''" "\<lambda>_. 0"]
  by (auto simp: demo_begun_facts numeral_2_eq_2 simp del: exec.simps)

text \<open>A callback that checks a permission whenever a check is refused never comes back: no depth of nested
  calls is enough.\<close>

theorem refused_check_recurses:
  assumes "map_of (sessions m) i = Some s" and "\<not> isAllowed s needed" and "audit_cb m"
  shows "exec n (answering PermissionCheckDenied [OpCheck i needed]) clk m (OpCheck i needed) = None"
  using assms
proof (induction n arbitrary: m)
  case (Suc n)
  have "exec n (answering PermissionCheckDenied [OpCheck i needed]) clk (note_call op (record_audit clk fp ev d m)) (OpCheck i needed) = None"
    for op fp ev d
    by (rule Suc.IH) (use Suc.prems in simp_all)
  with Suc.prems show ?case by (simp add: check_re_def record_answered)
qed simp

theorem refused_check_recurses_witness:
  "exec 100 (answering PermissionCheckDenied [OpCheck 1 Control]) (\<lambda>_. 0) demo_begun (OpCheck 1 Control) = None"
  using refused_check_recurses [OF demo_begun_facts(1) _ demo_begun_facts(2)] by (simp add: isAllowed_def del: exec.simps)

end
