(* ===== verification/Transport_Nested.thy ===== *)
theory Transport_Nested
  imports Transport_Proofs "HOL-Library.Monad_Syntax" "HOL-Library.Sublist"
begin

text \<open>
  The loopback pair with receivers that answer (\<open>src/core/transport/transport_stub.cpp\<close>). \<open>send\<close> calls
  the peer's receive callback before it returns, so a callback that sends on its own end is a nested
  call. A receiver is a function from what arrived to the messages it sends back; the number is the
  depth of nested calls that is followed, and \<open>None\<close> says that it was not enough.
\<close>

type_synonym receiver = "endpoint_name \<Rightarrow> channel \<Rightarrow> byte list \<Rightarrow> (channel \<times> byte list) list"

fun answer_all :: "(channel \<Rightarrow> byte list \<Rightarrow> loopback \<Rightarrow> (status \<times> loopback) option) \<Rightarrow> (channel \<times> byte list) list \<Rightarrow> loopback \<Rightarrow> loopback option" where
  "answer_all f [] t = Some t"
| "answer_all f ((ch, p) # ms) t = do { (st, t) \<leftarrow> f ch p t; answer_all f ms t }"

primrec send_nested :: "nat \<Rightarrow> receiver \<Rightarrow> endpoint_name \<Rightarrow> channel \<Rightarrow> byte list \<Rightarrow> loopback \<Rightarrow> (status \<times> loopback) option" where
  "send_nested 0 rcv n ch payload t = None"
| "send_nested (Suc k) rcv n ch payload t =
     (if tstate (ends t n) \<noteq> TConnected then Some (error_status ConnectionLost ''not connected'', t)
      else if length payload > kMaxTransportMessage then
        Some (error_status InvalidArgument ''payload exceeds 65535-byte transport cap'', t)
      else case peer (ends t n) of
        None \<Rightarrow> Some (if channel_reliabilityFor ch = ReliableOrdered
                 then (error_status ConnectionLost ''peer has no receiver'', t) else (success, t))
      | Some p \<Rightarrow>
          (if \<not> receive_cb (ends t p) then
             Some (if channel_reliabilityFor ch = ReliableOrdered
              then (error_status ConnectionLost ''peer has no receiver'', t) else (success, t))
           else do {
             t \<leftarrow> answer_all (send_nested k rcv p) (rcv p ch payload) (t\<lparr>tlog := tlog t @ [Received p ch payload]\<rparr>);
             Some (success, t)
           }))"

text \<open>A message is delivered, or \<open>send\<close> decides without calling anyone.\<close>

definition delivers :: "endpoint_name \<Rightarrow> byte list \<Rightarrow> loopback \<Rightarrow> endpoint_name option" where
  "delivers n payload t =
     (if tstate (ends t n) = TConnected \<and> length payload \<le> kMaxTransportMessage
      then (case peer (ends t n) of None \<Rightarrow> None | Some p \<Rightarrow> if receive_cb (ends t p) then Some p else None)
      else None)"

lemma send_nested_cases:
  "send_nested (Suc k) rcv n ch payload t =
     (case delivers n payload t of None \<Rightarrow> Some (send n ch payload t)
      | Some p \<Rightarrow> map_option (Pair success)
          (answer_all (send_nested k rcv p) (rcv p ch payload) (snd (send n ch payload t))))"
  by (auto simp: delivers_def send_def split: option.split)
    (auto simp: map_option_case split: option.split)

declare send_nested.simps(2) [simp del]

text \<open>Receivers that do not answer leave \<open>send\<close> as it is.\<close>

lemma silent_receivers: "send_nested (Suc k) (\<lambda>n ch p. []) n ch payload t = Some (send n ch payload t)"
  by (auto simp: send_nested_cases delivers_def send_def split: option.split)

section \<open>Dialogues that end\<close>

text \<open>Answers never change who is connected to whom, and only append deliveries.\<close>

definition later :: "loopback \<Rightarrow> loopback \<Rightarrow> bool" where
  "later t t' \<longleftrightarrow> ends t' = ends t \<and> (\<exists>new. tlog t' = tlog t @ new \<and> list_all (\<lambda>e. case e of Received _ _ _ \<Rightarrow> True | _ \<Rightarrow> False) new)"

lemma later_refl: "later t t"
  by (simp add: later_def)

lemma later_trans: "later t t' \<Longrightarrow> later t' t'' \<Longrightarrow> later t t''"
  by (auto simp: later_def)

lemma later_send: "later t (snd (send n ch payload t))"
  by (auto simp: later_def send_def split: option.split)

lemma answer_all_later:
  "(\<And>ch p t st t'. f ch p t = Some (st, t') \<Longrightarrow> later t t') \<Longrightarrow> answer_all f ms t = Some t' \<Longrightarrow> later t t'"
proof (induction ms arbitrary: t)
  case (Cons m ms)
  obtain ch p where m: "m = (ch, p)" by (cases m)
  from Cons.prems(2) obtain st v where v: "f ch p t = Some (st, v)" "answer_all f ms v = Some t'"
    by (auto simp: m bind_eq_Some_conv)
  show ?case by (rule later_trans [OF Cons.prems(1) [OF v(1)] Cons.IH [OF Cons.prems(1) v(2)]])
qed (simp add: later_refl)

lemma send_nested_later: "send_nested k rcv n ch payload t = Some (st, t') \<Longrightarrow> later t t'"
proof (induction k arbitrary: n ch payload t st t')
  case (Suc k)
  show ?case
  proof (cases "delivers n payload t")
    case None
    with Suc.prems show ?thesis using later_send [of t n ch payload] by (simp add: send_nested_cases)
  next
    case (Some p)
    with Suc.prems have "answer_all (send_nested k rcv p) (rcv p ch payload) (snd (send n ch payload t)) = Some t'"
      by (auto simp: send_nested_cases)
    from later_trans [OF later_send answer_all_later [OF Suc.IH this]] show ?thesis .
  qed
qed simp

text \<open>If every answer is smaller than what it answers, a dialogue ends, within the size of its first
  message.\<close>

definition shrinking :: "(byte list \<Rightarrow> nat) \<Rightarrow> receiver \<Rightarrow> bool" where
  "shrinking rank rcv \<longleftrightarrow> (\<forall>n ch p. list_all (\<lambda>(c, q). rank q < rank p) (rcv n ch p))"

lemma answer_all_returns:
  "list_all (\<lambda>(c, q). \<forall>t. f c q t \<noteq> None) ms \<Longrightarrow> answer_all f ms t \<noteq> None"
  by (induction ms arbitrary: t) (auto simp: list_all_iff split: bind_splits)

lemma send_nested_returns:
  "shrinking rank rcv \<Longrightarrow> rank payload < k \<Longrightarrow> send_nested k rcv n ch payload t \<noteq> None"
proof (induction k arbitrary: n ch payload t)
  case (Suc k)
  have "list_all (\<lambda>(c, q). \<forall>t. send_nested k rcv p c q t \<noteq> None) (rcv p ch payload)" for p
    unfolding list_all_iff
  proof
    fix m
    assume m: "m \<in> set (rcv p ch payload)"
    obtain c q where cq: "m = (c, q)" by (cases m)
    with m have "rank q < rank payload" using Suc.prems(1) by (fastforce simp: shrinking_def list_all_iff)
    then have "rank q < k" using Suc.prems(2) by simp
    from Suc.IH [OF Suc.prems(1) this] show "case m of (c, q) \<Rightarrow> \<forall>t. send_nested k rcv p c q t \<noteq> None"
      by (simp add: cq)
  qed
  from answer_all_returns [OF this] show ?case by (auto simp: send_nested_cases split: option.split)
qed simp

text \<open>A dialogue over the loopback pair ends if its answers shrink: with receivers that answer each message
  only by smaller ones, in any number and on any channel, a send returns after nesting no deeper
  than the size of its payload, leaves both ends connected as they were, and the log has gained only
  deliveries, the first of them the payload itself when it was accepted.\<close>

theorem shrinking_dialogue_returns:
  assumes "shrinking rank rcv"
  shows "\<exists>st t'. send_nested (Suc (rank payload)) rcv n ch payload t = Some (st, t') \<and> later t t'
    \<and> (case delivers n payload t of None \<Rightarrow> (st, t') = send n ch payload t
       | Some p \<Rightarrow> st = success \<and> prefix (tlog t @ [Received p ch payload]) (tlog t'))"
proof -
  obtain st t' where s: "send_nested (Suc (rank payload)) rcv n ch payload t = Some (st, t')"
    using send_nested_returns [OF assms, of payload "Suc (rank payload)" n ch t] by auto
  have "case delivers n payload t of None \<Rightarrow> (st, t') = send n ch payload t
       | Some p \<Rightarrow> st = success \<and> prefix (tlog t @ [Received p ch payload]) (tlog t')"
  proof (cases "delivers n payload t")
    case None
    with s show ?thesis by (simp add: send_nested_cases)
  next
    case (Some p)
    with s have ok: "st = success" and a: "answer_all (send_nested (rank payload) rcv p) (rcv p ch payload) (snd (send n ch payload t)) = Some t'"
      by (auto simp: send_nested_cases)
    have "tlog (snd (send n ch payload t)) = tlog t @ [Received p ch payload]"
      using Some by (auto simp: delivers_def send_def split: if_splits option.splits)
    moreover have "later (snd (send n ch payload t)) t'" by (rule answer_all_later [OF send_nested_later a])
    ultimately show ?thesis using Some ok by (auto simp: later_def prefix_def)
  qed
  with s send_nested_later [OF s] show ?thesis by blast
qed

definition drop_one :: receiver where
  "drop_one n ch p = (if p = [] then [] else [(ch, tl p)])"

theorem shrinking_dialogue_returns_witness:
  "\<exists>st t'. send_nested 4 drop_one EndA Input [1, 2, 3] (foldl transport_step createLoopbackPair
      [TReceiveCb EndA True, TReceiveCb EndB True, TConnect EndA, TConnect EndB]) = Some (st, t') \<and> st = success"
proof -
  let ?t = "foldl transport_step createLoopbackPair [TReceiveCb EndA True, TReceiveCb EndB True, TConnect EndA, TConnect EndB]"
  have "shrinking length drop_one" by (auto simp: shrinking_def drop_one_def)
  moreover have "delivers EndA [1, 2, 3] ?t = Some EndB"
    by (simp add: delivers_def kMaxTransportMessage_def createLoopbackPair_def bindPeer_def createTransport_def fresh_end_def
        setReceiveCallback_def connect_def setTransportState_def)
  ultimately show ?thesis
    using shrinking_dialogue_returns [of length drop_one "[1, 2, 3]" EndA Input ?t] by (auto simp: eval_nat_numeral)
qed

section \<open>Dialogues that do not\<close>

text \<open>Two ends that echo what they receive never return from the first send, at whatever depth.\<close>

definition echo :: receiver where
  "echo n ch p = [(ch, p)]"

definition wired :: "loopback \<Rightarrow> bool" where
  "wired t \<longleftrightarrow> (\<forall>n. tstate (ends t n) = TConnected \<and> peer (ends t n) = Some (other n) \<and> receive_cb (ends t n))"

theorem echoes_never_return:
  assumes "wired t" and "length payload \<le> kMaxTransportMessage"
  shows "send_nested k echo n ch payload t = None"
  using assms(1)
proof (induction k arbitrary: n t)
  case (Suc k)
  have d: "delivers n payload t = Some (other n)"
    using Suc.prems assms(2) by (simp add: delivers_def wired_def)
  have "wired (snd (send n ch payload t))"
    using Suc.prems later_send [of t n ch payload] by (simp add: wired_def later_def)
  from Suc.IH [OF this] show ?case by (simp add: send_nested_cases d echo_def)
qed simp

theorem echoes_never_return_witness:
  "send_nested 1000 echo EndA Input [1] (foldl transport_step createLoopbackPair
      [TReceiveCb EndA True, TReceiveCb EndB True, TConnect EndA, TConnect EndB]) = None"
proof -
  have "tstate (ends (foldl transport_step createLoopbackPair [TReceiveCb EndA True, TReceiveCb EndB True, TConnect EndA, TConnect EndB]) n) = TConnected
    \<and> peer (ends (foldl transport_step createLoopbackPair [TReceiveCb EndA True, TReceiveCb EndB True, TConnect EndA, TConnect EndB]) n) = Some (other n)
    \<and> receive_cb (ends (foldl transport_step createLoopbackPair [TReceiveCb EndA True, TReceiveCb EndB True, TConnect EndA, TConnect EndB]) n)" for n
    by (cases n) (simp_all add: createLoopbackPair_def bindPeer_def createTransport_def fresh_end_def
        setReceiveCallback_def connect_def setTransportState_def)
  then show ?thesis by (intro echoes_never_return) (simp_all add: wired_def kMaxTransportMessage_def)
qed

end
