(* ===== verification/Transport_Doubles.thy ===== *)
theory Transport_Doubles
  imports Floating Transport_Proofs
begin

text \<open>
  The congestion controller of \<open>src/core/transport/transport_stub.cpp\<close> in the doubles the code computes
  with: the loss ratio is a rounded quotient, its limits and the factor 0.85 are the doubles nearest the
  decimal constants, the product is rounded and then truncated. \<open>Transport_Core\<close> has the same controller
  in exact arithmetic; here the two are proved equal for every report and every target.
\<close>

section \<open>The controller in doubles\<close>

definition kLossHigh :: rat where "kLossHigh = dbl (1 / 10)"
definition kLossLow :: rat where "kLossLow = dbl (1 / 50)"
definition kBeta :: rat where "kBeta = dbl (85 / 100)"

text \<open>The ratio; \<open>None\<close> is the infinity of a division by zero, which a 32-bit sum that wraps gives.\<close>

definition loss_ratio :: "feedback_report \<Rightarrow> rat option" where
  "loss_ratio r =
     (if received_packets r > 0
      then (let sum = lost_packets r + received_packets r
            in if sum = 0 then None else Some (dbl (of_nat (unat (lost_packets r)) / of_nat (unat sum))))
      else Some 0)"

definition onFeedback_dbl :: "feedback_report \<Rightarrow> controller \<Rightarrow> controller" where
  "onFeedback_dbl r c =
     (let above = (case loss_ratio r of None \<Rightarrow> True | Some q \<Rightarrow> q > kLossHigh);
          below = (case loss_ratio r of None \<Rightarrow> False | Some q \<Rightarrow> q < kLossLow);
          t = (if sint (queuing_delay_us r) > kDelayOveruseUs \<or> above
               then of_int (toward_zero (dbl (of_nat (unat (target_kbps c)) * kBeta)))
               else if below then target_kbps c + kAdditiveIncreaseKbps
               else target_kbps c)
      in c\<lparr>target_kbps := clamp t (min_kbps c) (max_kbps c)\<rparr>)"

section \<open>Comparing a quotient with the inverse of an integer\<close>

lemma dbl_bounds: "0 \<le> v \<Longrightarrow> v - v / 2 ^ 53 \<le> dbl v \<and> dbl v \<le> v + v / 2 ^ 53"
proof -
  assume "0 \<le> v"
  then have "\<bar>dbl v - v\<bar> \<le> v / 2 ^ 53" using dbl_error [of v] by simp
  then show ?thesis unfolding abs_le_iff by linarith
qed

lemma dbl_apart:
  assumes "0 < c" and "0 \<le> v"
  shows "c + c / 2 ^ 32 \<le> v \<Longrightarrow> dbl c < dbl v" and "v \<le> c - c / 2 ^ 32 \<Longrightarrow> dbl v < dbl c"
proof -
  have "0 \<le> c" using assms(1) by simp
  note b = dbl_bounds [OF this] dbl_bounds [OF assms(2)]
  show "c + c / 2 ^ 32 \<le> v \<Longrightarrow> dbl c < dbl v" using b assms by simp
  show "v \<le> c - c / 2 ^ 32 \<Longrightarrow> dbl v < dbl c" using b assms by simp
qed

text \<open>A quotient of 32-bit numbers that is not \<open>1 / q\<close> is so far from it that rounding keeps the order.\<close>

lemma quotient_apart:
  fixes a b q :: nat
  assumes "0 < b" and "b < 2 ^ 32" and "0 < q"
  shows "(of_nat a / of_nat b :: rat) > 1 / of_nat q \<Longrightarrow> dbl (of_nat a / of_nat b) > dbl (1 / of_nat q)"
    and "(of_nat a / of_nat b :: rat) < 1 / of_nat q \<Longrightarrow> dbl (of_nat a / of_nat b) < dbl (1 / of_nat q)"
proof -
  let ?v = "of_nat a / of_nat b :: rat" and ?c = "1 / of_nat q :: rat"
  have c: "0 < ?c" using assms(3) by simp
  have b: "(1 :: rat) / 2 ^ 32 \<le> 1 / of_nat b" using assms(1,2) by (simp add: field_simps)
  have ab: "?v = ?c * (of_nat (q * a) / of_nat b)" using assms by simp
  show "dbl ?v > dbl ?c" if "?v > ?c"
  proof -
    have "b < q * a" using that assms by (simp add: field_simps flip: of_nat_mult)
    then have "(of_nat (b + 1) :: rat) \<le> of_nat (q * a)" by (simp only: of_nat_le_iff)
    then have "(of_nat b + 1) / of_nat b \<le> (of_nat (q * a) / of_nat b :: rat)"
      by (intro divide_right_mono) simp_all
    moreover have "(of_nat b + 1) / of_nat b = (1 + 1 / of_nat b :: rat)" using assms(1) by (simp add: add_divide_distrib)
    ultimately have "1 + 1 / 2 ^ 32 \<le> (of_nat (q * a) / of_nat b :: rat)" using b by linarith
    then have "?c * (1 + 1 / 2 ^ 32) \<le> ?v" unfolding ab using c by (intro mult_left_mono) simp_all
    then have "?c + ?c / 2 ^ 32 \<le> ?v" by (simp only: distrib_left mult_1_right times_divide_eq_right)
    then show ?thesis by (rule dbl_apart(1) [OF c, rotated]) simp
  qed
  show "dbl ?v < dbl ?c" if "?v < ?c"
  proof -
    have "q * a < b" using that assms by (simp add: field_simps flip: of_nat_mult)
    then have "(of_nat (q * a + 1) :: rat) \<le> of_nat b" by (simp only: of_nat_le_iff)
    then have "(of_nat (q * a) / of_nat b :: rat) \<le> (of_nat b - 1) / of_nat b"
      by (intro divide_right_mono) simp_all
    moreover have "(of_nat b - 1) / of_nat b = (1 - 1 / of_nat b :: rat)" using assms(1) by (simp add: diff_divide_distrib)
    ultimately have "(of_nat (q * a) / of_nat b :: rat) \<le> 1 - 1 / 2 ^ 32" using b by linarith
    then have "?v \<le> ?c * (1 - 1 / 2 ^ 32)" unfolding ab using c by (intro mult_left_mono) simp_all
    then have "?v \<le> ?c - ?c / 2 ^ 32" by (simp only: right_diff_distrib mult_1_right times_divide_eq_right)
    then show ?thesis by (rule dbl_apart(2) [OF c, rotated]) simp
  qed
qed

lemma quotient_compare:
  fixes a b q :: nat
  assumes "0 < b" and "b < 2 ^ 32" and "0 < q"
  shows "dbl (of_nat a / of_nat b) > dbl (1 / of_nat q) \<longleftrightarrow> q * a > b"
    and "dbl (of_nat a / of_nat b) < dbl (1 / of_nat q) \<longleftrightarrow> q * a < b"
proof -
  have "(of_nat a / of_nat b :: rat) > 1 / of_nat q \<longleftrightarrow> q * a > b" "(of_nat a / of_nat b :: rat) < 1 / of_nat q \<longleftrightarrow> q * a < b"
    using assms by (simp_all add: field_simps flip: of_nat_mult)
  moreover have "(of_nat a / of_nat b :: rat) = 1 / of_nat q \<or> of_nat a / of_nat b > (1 / of_nat q :: rat) \<or> of_nat a / of_nat b < (1 / of_nat q :: rat)"
    by linarith
  ultimately show "dbl (of_nat a / of_nat b) > dbl (1 / of_nat q) \<longleftrightarrow> q * a > b"
    and "dbl (of_nat a / of_nat b) < dbl (1 / of_nat q) \<longleftrightarrow> q * a < b"
    using quotient_apart [OF assms, of a] by (metis less_irrefl less_asym)+
qed

section \<open>The product with 0.85\<close>

lemma kBeta_value: "kBeta = 7656119366529843 / 2 ^ 53"
  unfolding kBeta_def using dbl_value [of "85 / 100" 53 7656119366529843] by simp

text \<open>A value just below an integer of moderate size rounds to the integer.\<close>

lemma dbl_near_int:
  fixes n :: int
  assumes "1 \<le> n" and "n < 2 ^ 50" and "x \<le> of_int n" and "of_int n - x < of_int n / 2 ^ 54"
  shows "dbl x = of_int n"
proof -
  have n: "(1 :: rat) \<le> of_int n" using assms(1) by (simp only: of_int_1_le_iff)
  have x: "1 / 2 < x" using assms(4) n by simp
  define e where "e = exponent_of x"
  have e: "2 powi e \<le> x" "x < 2 powi (e + 1)" unfolding e_def by (rule exponent_of_bounds; use x in simp)+
  have e0: "-1 \<le> e"
  proof (rule ccontr)
    assume "\<not> -1 \<le> e"
    then have "(2 :: rat) powi (e + 1) \<le> 2 powi (-1)" by (intro power_int_increasing) simp_all
    with e(2) x show False by simp
  qed
  have e50: "e < 50"
  proof (rule ccontr)
    assume "\<not> e < 50"
    then have "(2 :: rat) powi 50 \<le> 2 powi e" by (intro power_int_increasing) simp_all
    then have "(2 :: rat) ^ 50 \<le> 2 powi e" by simp
    moreover have "(of_int n :: rat) < 2 ^ 50" using assms(2) by (metis of_int_less_iff of_int_numeral of_int_power)
    ultimately show False using e(1) assms(3) by linarith
  qed
  define p where "p = nat (e + 1)"
  have p: "(2 :: rat) powi (e + 1) = of_int (2 ^ p)" using e0 by (simp add: p_def power_int_def)
  have nle: "n \<le> 2 ^ p"
  proof (rule ccontr)
    assume "\<not> n \<le> 2 ^ p"
    then have "2 ^ p + 1 \<le> n" by simp
    then have "(of_int (2 ^ p + 1) :: rat) \<le> of_int n" by (simp only: of_int_le_iff)
    moreover have "(of_int n :: rat) < 2 ^ 50" using assms(2) by (metis of_int_less_iff of_int_numeral of_int_power)
    ultimately show False using e(2) assms(4) unfolding p by simp
  qed
  define k where "k = nat (52 - e)"
  have k: "int k = 52 - e" using e50 by (simp add: k_def)
  have s: "(2 :: rat) powi int k = 2 ^ 53 / of_int (2 ^ p)"
    unfolding k p [symmetric] by (simp add: power_int_diff power_int_add)
  have pos: "(0 :: rat) < of_int (2 ^ p)" by simp
  have "(2 :: rat) powi e * 2 powi int k = 2 ^ 52" unfolding k by (simp flip: power_int_add)
  moreover have "(2 :: rat) powi e * 2 powi int k \<le> x * 2 powi int k" using e(1) by (intro mult_right_mono) simp_all
  ultimately have lo: "2 ^ 52 \<le> \<bar>x\<bar> * 2 powi int k" using x by simp
  have "x * 2 powi int k < of_int (2 ^ p) * 2 powi int k" using e(2) unfolding p by (intro mult_strict_right_mono) simp_all
  then have hi: "\<bar>x\<bar> * 2 powi int k < 2 ^ 53" using x pos unfolding s by simp
  have "(of_int n - x) * 2 powi int k < of_int n / 2 ^ 54 * 2 powi int k"
    using assms(4) by (intro mult_strict_right_mono) simp_all
  also have "\<dots> \<le> of_int (2 ^ p) / 2 ^ 54 * 2 powi int k"
    using nle by (intro mult_right_mono divide_right_mono) (simp_all only: of_int_le_iff, simp_all)
  also have "\<dots> = 1 / 2" using pos unfolding s by simp
  finally have near: "(of_int n - x) * 2 powi int k < 1 / 2" .
  have "0 \<le> (of_int n - x) * 2 powi int k" using assms(3) by simp
  with near have "\<bar>x * 2 powi int k - of_int (n * 2 ^ k)\<bar> < 1 / 2"
    by (simp add: left_diff_distrib abs_less_iff)
  with dbl_value_scaled [OF lo hi, of "n * 2 ^ k"] show ?thesis by simp
qed

lemma between_integers:
  fixes n :: rat
  assumes "x = n + f / 20 - t / (5 * 2 ^ 53)" and "1 \<le> f" and "f \<le> 19" and "0 \<le> t" and "t < 2 ^ 32" and "x \<le> t"
    and "x - x / 2 ^ 53 \<le> d" and "d \<le> x + x / 2 ^ 53"
  shows "n \<le> d" and "d < n + 1"
proof -
  have "t / (5 * 2 ^ 53) \<le> 1 / 1000" "x / 2 ^ 53 \<le> 1 / 1000" "0 \<le> t / (5 * 2 ^ 53)"
    using assms(4-6) by simp_all
  moreover have "1 / 20 \<le> f / 20" "f / 20 \<le> 19 / 20" using assms(2,3) by simp_all
  ultimately show "n \<le> d" and "d < n + 1"
    using assms(1,7,8) by linarith+
qed

lemma scaled_by_beta:
  fixes t :: nat
  assumes "t < 2 ^ 32"
  shows "toward_zero (dbl (of_nat t * kBeta)) = int (17 * t div 20)"
proof -
  define n where "n = 17 * t div 20"
  define f where "f = 17 * t mod 20"
  have split: "17 * t = 20 * n + f" "f < 20" by (simp_all add: n_def f_def)
  let ?x = "of_nat t * kBeta"
  have T: "(of_nat t :: rat) < 2 ^ 32" using assms by (metis of_nat_less_iff of_nat_numeral of_nat_power)
  have q: "20 * (of_nat n :: rat) + of_nat f = 17 * of_nat t"
    using split(1) by (metis of_nat_add of_nat_mult of_nat_numeral)
  have x: "?x = of_nat n + of_nat f / 20 - of_nat t / (5 * 2 ^ 53)"
    unfolding kBeta_value using q by (simp add: field_simps)
  show ?thesis
  proof (cases "f = 0")
    case True
    show ?thesis
    proof (cases "t = 0")
      case True
      then show ?thesis by (simp add: toward_zero_def)
    next
      case False
      with split True have n: "1 \<le> n" "n < 2 ^ 32" using assms by auto
      have "dbl ?x = of_int (int n)"
        by (rule dbl_near_int) (use n x True q T in \<open>simp_all add: field_simps\<close>)
      then show ?thesis by (simp add: toward_zero_def n_def)
    qed
  next
    case False
    then have "1 \<le> f" "f \<le> 19" using split(2) by simp_all
    then have f: "(1 :: rat) \<le> of_nat f" "(of_nat f :: rat) \<le> 19"
      using of_nat_le_iff [of 1 f, where 'a = rat] of_nat_le_iff [of f 19, where 'a = rat] by simp_all
    have t: "(0 :: rat) \<le> of_nat t" by simp
    have "0 \<le> ?x" by (simp add: kBeta_value)
    then have b: "?x - ?x / 2 ^ 53 \<le> dbl ?x" "dbl ?x \<le> ?x + ?x / 2 ^ 53" using dbl_bounds by blast+
    have le: "?x \<le> of_nat t" by (simp add: kBeta_value field_simps)
    note lo = between_integers(1) [OF x f t T le b] and hi = between_integers(2) [OF x f t T le b]
    have "0 \<le> dbl ?x" by (rule order_trans [OF _ lo]) simp
    moreover have "\<lfloor>dbl ?x\<rfloor> = int n" by (rule floor_unique) (use lo hi in simp_all)
    ultimately show ?thesis by (simp add: toward_zero_def n_def)
  qed
qed

section \<open>The two controllers are one\<close>

text \<open>C30: The congestion controller in doubles computes exactly what the one in integers does: for
  every feedback report, target and bounds, rounding the loss ratio never changes a comparison with 0.10
  or 0.02, and truncating the rounded product with the double nearest 0.85 gives 17 times the target
  divided by 20.\<close>

theorem controller_doubles_are_exact: "onFeedback_dbl r c = onFeedback r c"
proof -
  have bounds: "unat w < 2 ^ 32" for w :: u32 using unsigned_less [of w, where 'a = nat] by simp
  have pos: "w \<noteq> 0 \<Longrightarrow> 0 < unat w" for w :: u32 by (simp add: unat_gt_0)
  have high: "(case loss_ratio r of None \<Rightarrow> True | Some q \<Rightarrow> q > kLossHigh) = loss_high r"
  proof (cases "received_packets r > 0 \<and> lost_packets r + received_packets r \<noteq> 0")
    case True
    with quotient_compare(1) [OF pos bounds, of "lost_packets r + received_packets r" 10 "unat (lost_packets r)"] show ?thesis
      by (simp add: loss_ratio_def loss_high_def kLossHigh_def Let_def)
  next
    case False
    moreover have "0 \<le> kLossHigh" using dbl_bounds [of "1 / 10"] by (simp add: kLossHigh_def)
    ultimately show ?thesis by (auto simp: loss_ratio_def loss_high_def Let_def)
  qed
  have low: "(case loss_ratio r of None \<Rightarrow> False | Some q \<Rightarrow> q < kLossLow) = loss_low r"
  proof (cases "received_packets r > 0 \<and> lost_packets r + received_packets r \<noteq> 0")
    case True
    with quotient_compare(2) [OF pos bounds, of "lost_packets r + received_packets r" 50 "unat (lost_packets r)"] show ?thesis
      by (auto simp add: loss_ratio_def loss_low_def kLossLow_def Let_def)
  next
    case False
    moreover have "0 < kLossLow" using dbl_bounds [of "1 / 50"] by (simp add: kLossLow_def)
    ultimately show ?thesis by (auto simp: loss_ratio_def loss_low_def Let_def word_gt_0)
  qed
  have "(of_int (toward_zero (dbl (of_nat (unat (target_kbps c)) * kBeta))) :: u32) = decrease (target_kbps c)"
    using scaled_by_beta [OF bounds] by (simp add: decrease_def)
  with high low show ?thesis by (simp add: onFeedback_dbl_def onFeedback_def)
qed

end
