(* ===== verification/Locked_Objects.thy ===== *)
theory Locked_Objects
  imports Interfaces
begin

text \<open>
  Objects whose methods hold one mutex, as the registry and the allocation table of the servers do
  (\<open>std::lock_guard<std::mutex> lk(mu_)\<close> at the head of the critical section, released by the return).
  Any number of threads call the object; what a method does before it locks and every single access to the
  shared members inside its critical section are separate steps, interleaved in any order. An access
  through an iterator or a reference whose element is gone is undefined behaviour and kept as a flag.
  The locale \<open>critical_sections\<close> says what the accesses of a method owe its sequential meaning; inside it, whatever the
  interleaving, the calls return what they return when they run one after the other in the order of
  their returns. \<open>Locked_Tables\<close> has the two tables.
\<close>

section \<open>Threads and the mutex\<close>

text \<open>What a thread is doing: nothing, a call that has not locked yet, or an access of a critical section.\<close>

datatype ('op, 'l) phase = Resting | Blocked 'op | Inside 'op 'l

datatype ('op, 'r) call_event = Called nat 'op | Returned nat 'op 'r

record ('s, 'op, 'l, 'r) machine =
  shared :: 's
  holder :: "nat option"
  phase :: "nat \<Rightarrow> ('op, 'l) phase"
  events :: "('op, 'r) call_event list"
  undefined_access :: bool

datatype 'op turn = Call nat 'op | Step nat

text \<open>\<open>enter op\<close> is the code before the lock: a result without locking, or where the critical section starts.
  \<open>access l s\<close> is one access: \<open>None\<close> when it is undefined, else the members after it and where to go on or what to
  return.\<close>

definition return_from :: "nat \<Rightarrow> 'op \<Rightarrow> 'r \<Rightarrow> ('s, 'op, 'l, 'r) machine \<Rightarrow> ('s, 'op, 'l, 'r) machine" where
  "return_from t op r m = m\<lparr>phase := (phase m)(t := Resting), events := events m @ [Returned t op r]\<rparr>"

fun take_turn :: "('op \<Rightarrow> 'l + 'r) \<Rightarrow> ('l \<Rightarrow> 's \<Rightarrow> ('s \<times> ('l + 'r)) option) \<Rightarrow> ('s, 'op, 'l, 'r) machine \<Rightarrow> 'op turn \<Rightarrow> ('s, 'op, 'l, 'r) machine" where
  "take_turn enter access m (Call t op) =
     (case phase m t of
        Resting \<Rightarrow> m\<lparr>phase := (phase m)(t := Blocked op), events := events m @ [Called t op]\<rparr>
      | _ \<Rightarrow> m)"
| "take_turn enter access m (Step t) =
     (case phase m t of
        Resting \<Rightarrow> m
      | Blocked op \<Rightarrow>
          (case enter op of
             Inr r \<Rightarrow> return_from t op r m
           | Inl l \<Rightarrow> if holder m = None then m\<lparr>holder := Some t, phase := (phase m)(t := Inside op l)\<rparr> else m)
      | Inside op l \<Rightarrow>
          (case access l (shared m) of
             None \<Rightarrow> m\<lparr>undefined_access := True\<rparr>
           | Some (s, Inl l') \<Rightarrow> m\<lparr>shared := s, phase := (phase m)(t := Inside op l')\<rparr>
           | Some (s, Inr r) \<Rightarrow> return_from t op r (m\<lparr>shared := s, holder := None\<rparr>)))"

definition idle_machine :: "'s \<Rightarrow> ('s, 'op, 'l, 'r) machine" where
  "idle_machine s = \<lparr>shared = s, holder = None, phase = (\<lambda>_. Resting), events = [], undefined_access = False\<rparr>"

text \<open>The calls that have returned, in the order of their returns, and running calls one after the other:
  \<open>one_by_one\<close> is \<open>None\<close> where a result is not the sequential one.\<close>

fun returns :: "('op, 'r) call_event list \<Rightarrow> ('op \<times> 'r) list" where
  "returns [] = []"
| "returns (Called t op # es) = returns es"
| "returns (Returned t op r # es) = (op, r) # returns es"

fun one_by_one :: "('op \<Rightarrow> 's \<Rightarrow> 'r \<times> 's) \<Rightarrow> 's \<Rightarrow> ('op \<times> 'r) list \<Rightarrow> 's option" where
  "one_by_one meaning s [] = Some s"
| "one_by_one meaning s ((op, r) # h) =
     (case meaning op s of (r', s') \<Rightarrow> if r' = r then one_by_one meaning s' h else None)"

text \<open>A critical section run alone, with a bound on its accesses.\<close>

fun run_alone :: "('l \<Rightarrow> 's \<Rightarrow> ('s \<times> ('l + 'r)) option) \<Rightarrow> nat \<Rightarrow> 'l \<Rightarrow> 's \<Rightarrow> ('r \<times> 's) option" where
  "run_alone access 0 l s = None"
| "run_alone access (Suc n) l s =
     (case access l s of
        None \<Rightarrow> None
      | Some (s', Inl l') \<Rightarrow> run_alone access n l' s'
      | Some (s', Inr r) \<Rightarrow> Some (r, s'))"

lemma returns_append [simp]: "returns (es @ fs) = returns es @ returns fs"
  by (induction es rule: returns.induct) simp_all

lemma one_by_one_append:
  "one_by_one meaning s (h @ k) = (case one_by_one meaning s h of None \<Rightarrow> None | Some s' \<Rightarrow> one_by_one meaning s' k)"
  by (induction h arbitrary: s) (auto split: prod.split)

text \<open>A thread that runs its critical section to the end, no other one taking a turn.\<close>

lemma run_section:
  "phase m h = Inside op l \<Longrightarrow> run_alone access n l (shared m) = Some (r, s)
   \<Longrightarrow> \<exists>k. foldl (take_turn enter access) m (replicate k (Step h)) = return_from h op r (m\<lparr>shared := s, holder := None\<rparr>)"
proof (induction n arbitrary: m l)
  case (Suc n)
  obtain s' next_l where a: "access l (shared m) = Some (s', next_l)" using Suc.prems(2) by (cases "access l (shared m)") auto
  show ?case
  proof (cases next_l)
    case (Inl l')
    let ?m = "m\<lparr>shared := s', phase := (phase m)(h := Inside op l')\<rparr>"
    have "\<exists>k. foldl (take_turn enter access) ?m (replicate k (Step h)) = return_from h op r (?m\<lparr>shared := s, holder := None\<rparr>)"
      using Suc.prems(2) a Inl by (intro Suc.IH) simp_all
    moreover have "return_from h op r (?m\<lparr>shared := s, holder := None\<rparr>) = return_from h op r (m\<lparr>shared := s, holder := None\<rparr>)"
      by (cases m) (simp add: return_from_def)
    ultimately obtain k where "foldl (take_turn enter access) ?m (replicate k (Step h)) = return_from h op r (m\<lparr>shared := s, holder := None\<rparr>)"
      by auto
    then show ?thesis using Suc.prems(1) a Inl by (intro exI [of _ "Suc k"]) simp
  next
    case (Inr r')
    then show ?thesis using Suc.prems a by (intro exI [of _ 1]) simp
  qed
qed simp

lemma run_alone_numeral [simp]:
  "run_alone access (numeral k) l s =
     (case access l s of
        None \<Rightarrow> None
      | Some (s', Inl l') \<Rightarrow> run_alone access (pred_numeral k) l' s'
      | Some (s', Inr r) \<Rightarrow> Some (r, s'))"
  by (simp add: numeral_eq_Suc)

section \<open>The contract of a critical section\<close>

text \<open>What the state of the machine is, given the calls that returned: their sequential state when nobody holds the
  mutex, and else a state from which the holder, run alone, ends as its call does in the sequential
  state.\<close>

definition explained :: "('l \<Rightarrow> 's \<Rightarrow> ('s \<times> ('l + 'r)) option) \<Rightarrow> ('op \<Rightarrow> 's \<Rightarrow> 'r \<times> 's) \<Rightarrow> 's \<Rightarrow> ('s, 'op, 'l, 'r) machine \<Rightarrow> bool" where
  "explained access meaning s m \<longleftrightarrow>
     (case holder m of
        None \<Rightarrow> shared m = s \<and> (\<forall>t op l. phase m t \<noteq> Inside op l)
      | Some h \<Rightarrow> (\<exists>op l n. phase m h = Inside op l \<and> run_alone access n l (shared m) = Some (meaning op s))
          \<and> (\<forall>t op l. phase m t = Inside op l \<longrightarrow> t = h))"

lemma explained_free: "holder m = None \<Longrightarrow> explained access meaning s m \<longleftrightarrow> shared m = s \<and> (\<forall>t op l. phase m t \<noteq> Inside op l)"
  by (simp add: explained_def)

lemma explained_held:
  assumes "holder m = Some h" and "phase m h = Inside op l" and "run_alone access n l (shared m) = Some (meaning op s)"
    and "\<And>t op l. phase m t = Inside op l \<Longrightarrow> t = h"
  shows "explained access meaning s m"
  unfolding explained_def assms(1) option.case using assms(2-4) by blast

lemma explained_insideE:
  assumes "explained access meaning s m" and "phase m t = Inside op l"
  obtains n where "holder m = Some t" and "run_alone access n l (shared m) = Some (meaning op s)"
    and "\<And>t' op' l'. phase m t' = Inside op' l' \<Longrightarrow> t' = t"
proof (cases "holder m")
  case None
  then show thesis using assms by (simp add: explained_free)
next
  case (Some h)
  then have inside: "\<exists>op l n. phase m h = Inside op l \<and> run_alone access n l (shared m) = Some (meaning op s)"
    and only: "\<And>t' op' l'. phase m t' = Inside op' l' \<Longrightarrow> t' = h"
    using assms(1) by (simp_all add: explained_def)
  have t: "t = h" by (rule only [OF assms(2)])
  from inside assms(2) obtain n where n: "run_alone access n l (shared m) = Some (meaning op s)"
    unfolding t by (metis phase.inject(2))
  show thesis
  proof (rule that)
    show "holder m = Some t" using Some t by simp
    show "run_alone access n l (shared m) = Some (meaning op s)" by (rule n)
    show "\<And>t' op' l'. phase m t' = Inside op' l' \<Longrightarrow> t' = t" unfolding t by (rule only)
  qed
qed

locale critical_sections =
  fixes enter :: "'op \<Rightarrow> 'l + 'r"
    and access :: "'l \<Rightarrow> 's \<Rightarrow> ('s \<times> ('l + 'r)) option"
    and meaning :: "'op \<Rightarrow> 's \<Rightarrow> 'r \<times> 's"
    and ok :: "'s \<Rightarrow> bool"
  assumes early: "enter op = Inr r \<Longrightarrow> meaning op s = (r, s)"
    and section_runs: "ok s \<Longrightarrow> enter op = Inl l \<Longrightarrow> \<exists>n. run_alone access n l s = Some (meaning op s)"
    and meaning_ok: "ok s \<Longrightarrow> ok (snd (meaning op s))"
begin

definition linear :: "'s \<Rightarrow> ('s, 'op, 'l, 'r) machine \<Rightarrow> bool" where
  "linear s0 m \<longleftrightarrow> (\<exists>s. one_by_one meaning s0 (returns (events m)) = Some s \<and> ok s \<and> explained access meaning s m)
     \<and> \<not> undefined_access m"

lemma linear_idle: "ok s \<Longrightarrow> linear s (idle_machine s)"
  by (simp add: linear_def explained_def idle_machine_def)

lemma linear_call: "linear s0 m \<Longrightarrow> linear s0 (take_turn enter access m (Call t op))"
  by (auto simp: linear_def explained_def split: phase.split option.split)

lemma linear_blocked:
  assumes "linear s0 m" and "phase m t = Blocked op"
  shows "linear s0 (take_turn enter access m (Step t))"
proof -
  obtain s where s: "one_by_one meaning s0 (returns (events m)) = Some s" "ok s" "explained access meaning s m" "\<not> undefined_access m"
    using assms(1) by (auto simp: linear_def)
  show ?thesis
  proof (cases "enter op")
    case (Inr r)
    then show ?thesis
      using s assms(2) early [OF Inr, of s]
      by (auto simp: linear_def explained_def return_from_def one_by_one_append split: option.splits)
  next
    case (Inl l)
    show ?thesis
    proof (cases "holder m")
      case None
      obtain n where n: "run_alone access n l s = Some (meaning op s)" using section_runs [OF s(2) Inl] by blast
      have free: "shared m = s" "\<And>t op l. phase m t \<noteq> Inside op l" using s(3) None by (simp_all add: explained_free)
      let ?m = "m\<lparr>holder := Some t, phase := (phase m)(t := Inside op l)\<rparr>"
      have "explained access meaning s ?m"
        using n by (intro explained_held [where h = t and l = l and op = op and n = n]) (simp_all add: free split: if_splits)
      moreover have "take_turn enter access m (Step t) = ?m" using None Inl assms(2) by simp
      ultimately show ?thesis unfolding linear_def using s(1,2,4) by (simp del: take_turn.simps)
    next
      case (Some h)
      with Inl assms show ?thesis by simp
    qed
  qed
qed

lemma linear_inside:
  assumes "linear s0 m" and "phase m t = Inside op l"
  shows "linear s0 (take_turn enter access m (Step t))"
proof -
  obtain s where s: "one_by_one meaning s0 (returns (events m)) = Some s" "ok s" "explained access meaning s m" "\<not> undefined_access m"
    using assms(1) by (auto simp: linear_def)
  obtain n where h: "holder m = Some t" and "run_alone access n l (shared m) = Some (meaning op s)"
    and only: "\<And>t' op' l'. phase m t' = Inside op' l' \<Longrightarrow> t' = t"
    using that by (rule explained_insideE [OF s(3) assms(2)])
  then obtain k where k: "run_alone access (Suc k) l (shared m) = Some (meaning op s)" by (cases n) simp_all
  obtain s' next_l where a: "access l (shared m) = Some (s', next_l)" using k by (cases "access l (shared m)") auto
  show ?thesis
  proof (cases next_l)
    case (Inl l')
    let ?m = "m\<lparr>shared := s', phase := (phase m)(t := Inside op l')\<rparr>"
    have "explained access meaning s ?m"
      using k a Inl only h by (intro explained_held [where h = t and l = l' and op = op and n = k]) (simp_all split: if_splits)
    moreover have "take_turn enter access m (Step t) = ?m" using assms(2) a Inl by simp
    ultimately show ?thesis unfolding linear_def using s(1,2,4) by (simp del: take_turn.simps)
  next
    case (Inr r)
    let ?m = "return_from t op r (m\<lparr>shared := s', holder := None\<rparr>)"
    have m: "meaning op s = (r, s')" using a k Inr by simp
    have "explained access meaning s' ?m" using only by (subst explained_free) (auto simp: return_from_def)
    moreover have "take_turn enter access m (Step t) = ?m" using assms(2) a Inr by simp
    moreover have "one_by_one meaning s0 (returns (events ?m)) = Some s'" by (simp add: return_from_def one_by_one_append s(1) m)
    moreover have "ok s'" using meaning_ok [OF s(2), of op] m by simp
    ultimately show ?thesis unfolding linear_def using s(4) by (simp add: return_from_def)
  qed
qed

lemma linear_turn: "linear s0 m \<Longrightarrow> linear s0 (take_turn enter access m i)"
proof (cases i)
  case (Call t op)
  then show "linear s0 m \<Longrightarrow> ?thesis" by (simp only: linear_call)
next
  case (Step t)
  then show "linear s0 m \<Longrightarrow> ?thesis"
    using linear_blocked linear_inside by (cases "phase m t") auto
qed

end

text \<open>So no history of turns leaves what the contract explains.\<close>

sublocale critical_sections \<subseteq> history: run_invariant "take_turn enter access" "linear s0" for s0
  by unfold_locales (rule linear_turn)

context critical_sections begin

lemma linear_run: "ok s \<Longrightarrow> linear s (foldl (take_turn enter access) (idle_machine s) is)"
  by (intro history.run_inv linear_idle)

text \<open>No call waits for ever: the steps of whoever holds the mutex, and then its own, bring a call to its return.\<close>

lemma inside_returns:
  assumes "linear s0 m" and "phase m t = Inside op l"
  shows "\<exists>k. phase (foldl (take_turn enter access) m (replicate k (Step t))) t = Resting
    \<and> holder (foldl (take_turn enter access) m (replicate k (Step t))) = None"
proof -
  obtain s where "explained access meaning s m" using assms(1) by (auto simp: linear_def)
  then obtain n where "run_alone access n l (shared m) = Some (meaning op s)" using assms(2) by (rule explained_insideE)
  then obtain r s' where "run_alone access n l (shared m) = Some (r, s')" by (cases "meaning op s") simp
  from run_section [OF assms(2) this] obtain k where
    "foldl (take_turn enter access) m (replicate k (Step t)) = return_from t op r (m\<lparr>shared := s', holder := None\<rparr>)" by blast
  then show ?thesis by (intro exI [of _ k]) (simp add: return_from_def)
qed

lemma free_returns:
  assumes "linear s0 m" and "holder m = None"
  shows "\<exists>k. phase (foldl (take_turn enter access) m (replicate k (Step t))) t = Resting"
proof (cases "phase m t")
  case Resting
  then show ?thesis by (intro exI [of _ 0]) simp
next
  case (Inside op l)
  then show ?thesis using inside_returns [OF assms(1)] by blast
next
  case (Blocked op)
  show ?thesis
  proof (cases "enter op")
    case (Inr r)
    then show ?thesis using Blocked by (intro exI [of _ 1]) (simp add: return_from_def)
  next
    case (Inl l)
    let ?m = "take_turn enter access m (Step t)"
    have "phase ?m t = Inside op l" using Blocked Inl assms(2) by simp
    from inside_returns [OF linear_turn [OF assms(1)] this] obtain k where
      "phase (foldl (take_turn enter access) ?m (replicate k (Step t))) t = Resting" by blast
    then show ?thesis by (intro exI [of _ "Suc k"]) simp
  qed
qed

lemma call_returns:
  assumes "linear s0 m"
  shows "\<exists>h j k. phase (foldl (take_turn enter access) m (replicate j (Step h) @ replicate k (Step t))) t = Resting"
proof (cases "holder m")
  case None
  from free_returns [OF assms None, of t] obtain k where
    "phase (foldl (take_turn enter access) m (replicate k (Step t))) t = Resting" by blast
  then show ?thesis by (intro exI [of _ t] exI [of _ 0] exI [of _ k]) simp
next
  case (Some h)
  obtain s where "explained access meaning s m" using assms by (auto simp: linear_def)
  then obtain op l where "phase m h = Inside op l" using Some by (auto simp: explained_def)
  from inside_returns [OF assms this] obtain j where
    "holder (foldl (take_turn enter access) m (replicate j (Step h))) = None" by blast
  from free_returns [OF history.run_inv [OF assms] this, of t] obtain k where
    "phase (foldl (take_turn enter access) (foldl (take_turn enter access) m (replicate j (Step h))) (replicate k (Step t))) t = Resting" by blast
  then show ?thesis by (intro exI [of _ h] exI [of _ j] exI [of _ k]) simp
qed

end

end
