(* ===== verification/Locked_Tables.thy ===== *)
theory Locked_Tables
  imports Locked_Objects Relay_Core Rendezvous_Core
begin

text \<open>
  The two thread-safe tables of the servers, access by access: \<open>InMemoryRegistry\<close>
  (\<open>server/rendezvous/registry_store.cpp\<close>) and \<open>InMemoryAllocationTable\<close>
  (\<open>server/relay/allocation_table.cpp\<close>). The methods in \<open>Rendezvous_Core\<close> and \<open>Relay_Core\<close> are one step each; here a
  step is one read or write of the map or of an element, made through the iterator or the reference that
  the code holds, so that an element erased meanwhile would be an undefined access. Both are shown to be what
  their headers call them, thread-safe, and the one-step methods to be what every thread sees.
\<close>

section \<open>Iterators\<close>

text \<open>An iterator is the key of its element; erasing an element leaves the others valid, as for \<open>unordered_map\<close>.\<close>

definition first_key :: "('k \<times> 'v) list \<Rightarrow> 'k option" where
  "first_key t = (case t of [] \<Rightarrow> None | (k, _) # _ \<Rightarrow> Some k)"

fun next_key :: "'k \<Rightarrow> ('k \<times> 'v) list \<Rightarrow> 'k option" where
  "next_key k [] = None"
| "next_key k ((k', v) # t) = (if k' = k then first_key t else next_key k t)"

text \<open>One turn of the loop of \<open>expire\<close>: erase the element and go on behind it, or step over it.\<close>

definition visit :: "('v \<Rightarrow> bool) \<Rightarrow> 'k \<Rightarrow> ('k \<times> 'v) list \<Rightarrow> (('k \<times> 'v) list \<times> 'k option \<times> nat) option" where
  "visit stale k t =
     (case map_of t k of
        None \<Rightarrow> None
      | Some v \<Rightarrow> Some (if stale v then (AList.delete k t, next_key k t, 1) else (t, next_key k t, 0)))"

lemma visit_element:
  assumes "keys_ok (pre @ (k, v) # post)"
  shows "visit stale k (pre @ (k, v) # post) = Some (pre @ (if stale v then post else (k, v) # post), first_key post, if stale v then 1 else 0)"
proof -
  have notin: "k \<notin> fst ` set pre" "k \<notin> fst ` set post" using assms by auto
  have "map_of (pre @ (k, v) # post) k = Some v" using notin by (simp add: map_of_eq_None_iff map_add_Some_iff)
  moreover have "next_key k (pre @ (k, v) # post) = first_key post" using notin(1) by (induction pre) auto
  moreover have "AList.delete k (pre @ (k, v) # post) = pre @ post"
    using delete_id [OF notin(1)] delete_id [OF notin(2)] by (simp add: AList.delete_eq)
  ultimately show ?thesis by (simp add: visit_def)
qed

text \<open>The loop over the rest of a table, for any critical section whose point \<open>at it c\<close> is its head.\<close>

lemma scan_loop:
  assumes head: "\<And>it c t. access (at it c) t =
      (case it of
         None \<Rightarrow> Some (t, Inr (result c))
       | Some k \<Rightarrow> (case visit stale k t of None \<Rightarrow> None | Some (t', it', n) \<Rightarrow> Some (t', Inl (at it' (c + n)))))"
  shows "keys_ok (pre @ post) \<Longrightarrow> run_alone access (Suc (length post)) (at (first_key post) c) (pre @ post)
     = Some (result (c + (length post - length (keep (\<lambda>v. \<not> stale v) post))), pre @ keep (\<lambda>v. \<not> stale v) post)"
proof (induction post arbitrary: pre c)
  case Nil
  then show ?case by (simp add: head first_key_def keep_def)
next
  case (Cons kv post)
  obtain k v where kv: "kv = (k, v)" by (cases kv)
  have ok: "keys_ok (pre @ (k, v) # post)" using Cons.prems kv by simp
  note v = visit_element [OF ok, of stale]
  have l: "length (keep (\<lambda>v. \<not> stale v) post) \<le> length post" by (rule length_keep)
  show ?case
  proof (cases "stale v")
    case True
    have "keys_ok (pre @ post)" using ok by simp
    from Cons.IH [OF this, of "c + 1"] show ?thesis
      using True v l by (simp add: head kv first_key_def [of "(k, v) # post"] keep_def Suc_diff_le)
  next
    case False
    have "keys_ok ((pre @ [(k, v)]) @ post)" using ok by simp
    from Cons.IH [OF this, of c] show ?thesis
      using False v by (simp add: head kv first_key_def [of "(k, v) # post"] keep_def)
  qed
qed

lemma update_update: "AList.update k v (AList.update k w t) = AList.update k v t"
  by (induction t) auto

section \<open>The registry\<close>

datatype registry_call = CallUpsert peer_record | CallLookup redesk_id | CallExpire int int | CallSize

datatype registry_result = StatusResult status | RecordResult "peer_record option" | CountResult nat

datatype registry_point =
    UpsertFind peer_record
  | UpsertCompare peer_record
  | UpsertSlot peer_record
  | UpsertAssign peer_record
  | LookupFind redesk_id
  | LookupCopy redesk_id
  | ExpireBegin int int
  | ExpireAt int int "redesk_id option" nat
  | ReadSize

text \<open>The checks of \<open>upsert\<close> before the lock; the other methods lock at once.\<close>

fun registry_enter :: "registry_call \<Rightarrow> registry_point + registry_result" where
  "registry_enter (CallUpsert rec) =
     (if pid rec = [] then Inr (StatusResult (error_status InvalidArgument ''empty REDesk-ID''))
      else if length (static_key rec) \<noteq> kStaticPubKeyLen then
        Inr (StatusResult (error_status InvalidArgument ''static pubkey must be 32 bytes (X25519)''))
      else Inl (UpsertFind rec))"
| "registry_enter (CallLookup i) = Inl (LookupFind i)"
| "registry_enter (CallExpire now ttl) = Inl (ExpireBegin now ttl)"
| "registry_enter CallSize = Inl ReadSize"

fun registry_access :: "registry_point \<Rightarrow> registry \<Rightarrow> (registry \<times> (registry_point + registry_result)) option" where
  "registry_access (UpsertFind rec) reg =
     Some (reg, Inl (if map_of reg (pid rec) = None then UpsertSlot rec else UpsertCompare rec))"
| "registry_access (UpsertCompare rec) reg =
     (case map_of reg (pid rec) of
        None \<Rightarrow> None
      | Some prior \<Rightarrow>
          Some (reg, if last_seen_unix_s rec - last_seen_unix_s prior < kSquatGuardWindowS \<and> static_key prior \<noteq> static_key rec
            then Inr (StatusResult (error_status PermissionDenied ''REDesk-ID held by a live peer with a different key''))
            else Inl (UpsertSlot rec)))"
| "registry_access (UpsertSlot rec) reg =
     Some (if map_of reg (pid rec) = None then AList.update (pid rec) default_peer_record reg else reg, Inl (UpsertAssign rec))"
| "registry_access (UpsertAssign rec) reg =
     (case map_of reg (pid rec) of None \<Rightarrow> None | Some _ \<Rightarrow> Some (AList.update (pid rec) rec reg, Inr (StatusResult success)))"
| "registry_access (LookupFind i) reg = Some (reg, if map_of reg i = None then Inr (RecordResult None) else Inl (LookupCopy i))"
| "registry_access (LookupCopy i) reg = (case map_of reg i of None \<Rightarrow> None | Some r \<Rightarrow> Some (reg, Inr (RecordResult (Some r))))"
| "registry_access (ExpireBegin now ttl) reg = Some (reg, Inl (ExpireAt now ttl (first_key reg) 0))"
| "registry_access (ExpireAt now ttl it removed) reg =
     (case it of
        None \<Rightarrow> Some (reg, Inr (CountResult removed))
      | Some k \<Rightarrow>
          (case visit (\<lambda>r. now - last_seen_unix_s r > ttl) k reg of
             None \<Rightarrow> None
           | Some (reg', it', n) \<Rightarrow> Some (reg', Inl (ExpireAt now ttl it' (removed + n)))))"
| "registry_access ReadSize reg = Some (reg, Inr (CountResult (length reg)))"

fun registry_meaning :: "registry_call \<Rightarrow> registry \<Rightarrow> registry_result \<times> registry" where
  "registry_meaning (CallUpsert rec) reg = (case upsert rec reg of (st, reg') \<Rightarrow> (StatusResult st, reg'))"
| "registry_meaning (CallLookup i) reg = (RecordResult (lookup reg i), reg)"
| "registry_meaning (CallExpire now ttl) reg = (case expire_records now ttl reg of (n, reg') \<Rightarrow> (CountResult n, reg'))"
| "registry_meaning CallSize reg = (CountResult (registry_size reg), reg)"

lemmas registry_scan = scan_loop [where access = registry_access and result = CountResult, OF registry_access.simps(8)]

lemma registry_sections:
  assumes "keys_ok reg" and "registry_enter op = Inl l"
  shows "\<exists>n. run_alone registry_access n l reg = Some (registry_meaning op reg)"
proof (cases op)
  case (CallUpsert rec)
  then have l: "l = UpsertFind rec" and args: "pid rec \<noteq> []" "length (static_key rec) = kStaticPubKeyLen"
    using assms(2) by (auto split: if_splits)
  show ?thesis
    unfolding l CallUpsert
    by (intro exI [of _ 4]) (simp add: upsert_def args Let_def update_update split: option.split)
next
  case (CallLookup i)
  then show ?thesis
    using assms(2) by (intro exI [of _ 2]) (auto simp: lookup_def split: option.split)
next
  case (CallExpire now ttl)
  then have l: "l = ExpireBegin now ttl" using assms(2) by simp
  show ?thesis
    unfolding l CallExpire using registry_scan [of "[]" reg now ttl 0] assms(1)
    by (intro exI [of _ "Suc (Suc (length reg))"]) (simp add: expire_records_def Let_def)
next
  case CallSize
  then show ?thesis using assms(2) by (intro exI [of _ 1]) (auto simp: registry_size_def)
qed

lemma registry_meaning_ok: "keys_ok reg \<Longrightarrow> keys_ok (snd (registry_meaning op reg))"
  by (cases op) (auto simp: upsert_def expire_records_def Let_def split: option.split)

interpretation locked_registry: critical_sections registry_enter registry_access registry_meaning keys_ok
proof
  show "registry_enter op = Inr r \<Longrightarrow> registry_meaning op reg = (r, reg)" for op r reg
    by (cases op) (auto simp: upsert_def split: if_splits)
qed (simp_all add: registry_sections registry_meaning_ok)

section \<open>The allocation table\<close>

record route_args =
  ra_token :: session_token
  ra_src :: endpoint
  ra_bytes :: nat
  ra_now :: int

datatype table_call = CallAllocate session_token int | CallRoute route_args | CallSweep int int | CallCount

datatype table_result = AllocateResult status | RouteResult "endpoint result" | NumberResult nat

datatype table_point =
    AllocateSlot session_token int
  | AllocateTest session_token int
  | AllocateToken session_token int
  | AllocateCreated session_token int
  | AllocateActivity session_token int
  | RouteFind route_args
  | RouteActivity route_args
  | RouteMatchA route_args
  | RouteMatchB route_args
  | RouteFreeA route_args
  | RouteFreeB route_args
  | RouteEndpoint leg_name route_args
  | RouteBound leg_name route_args
  | RouteCount leg_name route_args
  | RoutePeer leg_name route_args
  | RouteReply leg_name route_args
  | SweepBegin int int
  | SweepAt int int "session_token option" nat
  | ReadCount

fun table_enter :: "table_call \<Rightarrow> table_point + table_result" where
  "table_enter (CallAllocate tok now) =
     (if tok = [] then Inr (AllocateResult (error_status InvalidArgument ''empty session token'')) else Inl (AllocateSlot tok now))"
| "table_enter (CallRoute a) = Inl (RouteFind a)"
| "table_enter (CallSweep now ttl) = Inl (SweepBegin now ttl)"
| "table_enter CallCount = Inl ReadCount"

text \<open>Reading and writing through a reference to the element of a token, and a leg of an allocation.\<close>

definition at_element :: "session_token \<Rightarrow> allocation_table \<Rightarrow> (allocation \<Rightarrow> table_point + table_result) \<Rightarrow> (allocation_table \<times> (table_point + table_result)) option" where
  "at_element tok t f = (case map_of t tok of None \<Rightarrow> None | Some al \<Rightarrow> Some (t, f al))"

definition write_element :: "session_token \<Rightarrow> allocation_table \<Rightarrow> (allocation \<Rightarrow> allocation) \<Rightarrow> table_point + table_result \<Rightarrow> (allocation_table \<times> (table_point + table_result)) option" where
  "write_element tok t f next_point = (case map_of t tok of None \<Rightarrow> None | Some al \<Rightarrow> Some (AList.update tok (f al) t, next_point))"

fun leg_of :: "leg_name \<Rightarrow> allocation \<Rightarrow> leg" where
  "leg_of LegA al = leg_a al"
| "leg_of LegB al = leg_b al"

fun peer_of :: "leg_name \<Rightarrow> leg_name" where
  "peer_of LegA = LegB"
| "peer_of LegB = LegA"

fun set_leg :: "leg_name \<Rightarrow> (leg \<Rightarrow> leg) \<Rightarrow> allocation \<Rightarrow> allocation" where
  "set_leg LegA f al = al\<lparr>leg_a := f (leg_a al)\<rparr>"
| "set_leg LegB f al = al\<lparr>leg_b := f (leg_b al)\<rparr>"

fun table_access :: "table_point \<Rightarrow> allocation_table \<Rightarrow> (allocation_table \<times> (table_point + table_result)) option" where
  "table_access (AllocateSlot tok now) t =
     Some (if map_of t tok = None then AList.update tok default_allocation t else t, Inl (AllocateTest tok now))"
| "table_access (AllocateTest tok now) t =
     at_element tok t (\<lambda>al. if created_unix_s al = 0 then Inl (AllocateToken tok now) else Inr (AllocateResult success))"
| "table_access (AllocateToken tok now) t = write_element tok t (\<lambda>al. al\<lparr>token := tok\<rparr>) (Inl (AllocateCreated tok now))"
| "table_access (AllocateCreated tok now) t = write_element tok t (\<lambda>al. al\<lparr>created_unix_s := now\<rparr>) (Inl (AllocateActivity tok now))"
| "table_access (AllocateActivity tok now) t =
     write_element tok t (\<lambda>al. al\<lparr>last_activity_unix_s := now\<rparr>) (Inr (AllocateResult success))"
| "table_access (RouteFind a) t =
     Some (t, if map_of t (ra_token a) = None then Inr (RouteResult (fail InvalidArgument ''unknown session token'')) else Inl (RouteActivity a))"
| "table_access (RouteActivity a) t = write_element (ra_token a) t (\<lambda>al. al\<lparr>last_activity_unix_s := ra_now a\<rparr>) (Inl (RouteMatchA a))"
| "table_access (RouteMatchA a) t = at_element (ra_token a) t
     (\<lambda>al. Inl (if bound (leg_a al) \<and> leg_endpoint (leg_a al) = ra_src a then RouteCount LegA a else RouteMatchB a))"
| "table_access (RouteMatchB a) t = at_element (ra_token a) t
     (\<lambda>al. Inl (if bound (leg_b al) \<and> leg_endpoint (leg_b al) = ra_src a then RouteCount LegB a else RouteFreeA a))"
| "table_access (RouteFreeA a) t = at_element (ra_token a) t
     (\<lambda>al. Inl (if \<not> bound (leg_a al) then RouteEndpoint LegA a else RouteFreeB a))"
| "table_access (RouteFreeB a) t = at_element (ra_token a) t
     (\<lambda>al. if \<not> bound (leg_b al) then Inl (RouteEndpoint LegB a)
       else Inr (RouteResult (fail PermissionDenied ''session legs already bound to other peers'')))"
| "table_access (RouteEndpoint l a) t = write_element (ra_token a) t (set_leg l (leg_endpoint_update (\<lambda>_. ra_src a))) (Inl (RouteBound l a))"
| "table_access (RouteBound l a) t = write_element (ra_token a) t (set_leg l (bound_update (\<lambda>_. True))) (Inl (RouteCount l a))"
| "table_access (RouteCount l a) t =
     write_element (ra_token a) t (set_leg l (bytes_forwarded_update (\<lambda>n. n + of_nat (ra_bytes a)))) (Inl (RoutePeer l a))"
| "table_access (RoutePeer l a) t = at_element (ra_token a) t
     (\<lambda>al. if \<not> bound (leg_of (peer_of l) al) then Inr (RouteResult (fail Again ''peer leg not yet bound'')) else Inl (RouteReply l a))"
| "table_access (RouteReply l a) t = at_element (ra_token a) t (\<lambda>al. Inr (RouteResult (good (leg_endpoint (leg_of (peer_of l) al)))))"
| "table_access (SweepBegin now ttl) t = Some (t, Inl (SweepAt now ttl (first_key t) 0))"
| "table_access (SweepAt now ttl it removed) t =
     (case it of
        None \<Rightarrow> Some (t, Inr (NumberResult removed))
      | Some k \<Rightarrow>
          (case visit (\<lambda>al. now - last_activity_unix_s al > ttl) k t of
             None \<Rightarrow> None
           | Some (t', it', n) \<Rightarrow> Some (t', Inl (SweepAt now ttl it' (removed + n)))))"
| "table_access ReadCount t = Some (t, Inr (NumberResult (length t)))"

fun table_meaning :: "table_call \<Rightarrow> allocation_table \<Rightarrow> table_result \<times> allocation_table" where
  "table_meaning (CallAllocate tok now) t = (case allocate tok now t of (st, t') \<Rightarrow> (AllocateResult st, t'))"
| "table_meaning (CallRoute a) t = (case route (ra_token a) (ra_src a) (ra_bytes a) (ra_now a) t of (r, t') \<Rightarrow> (RouteResult r, t'))"
| "table_meaning (CallSweep now ttl) t = (case expire_allocations now ttl t of (n, t') \<Rightarrow> (NumberResult n, t'))"
| "table_meaning CallCount t = (NumberResult (table_size t), t)"

lemmas table_scan = scan_loop [where access = table_access and result = NumberResult, OF table_access.simps(18)]

lemma allocate_section:
  assumes "tok \<noteq> []"
  shows "run_alone table_access 5 (AllocateSlot tok now) t = Some (table_meaning (CallAllocate tok now) t)"
  using assms
  by (cases "map_of t tok")
    (auto simp: allocate_def Let_def at_element_def write_element_def update_update default_allocation_def update_triv)

lemma route_section: "run_alone table_access 11 (RouteFind a) t = Some (table_meaning (CallRoute a) t)"
proof (cases "map_of t (ra_token a)")
  case None
  then show ?thesis by (simp add: route_def)
next
  case (Some al)
  then show ?thesis
    by (cases "choose_leg (al\<lparr>last_activity_unix_s := ra_now a\<rparr>) (ra_src a)"; cases al; cases "leg_a al"; cases "leg_b al")
      (auto simp: route_def choose_leg_def touch_leg_def Let_def at_element_def write_element_def update_update split: if_splits)
qed

lemma table_sections:
  assumes "keys_ok t" and "table_enter op = Inl l"
  shows "\<exists>n. run_alone table_access n l t = Some (table_meaning op t)"
proof (cases op)
  case (CallAllocate tok now)
  then have l: "l = AllocateSlot tok now" and tok: "tok \<noteq> []" using assms(2) by (auto split: if_splits)
  show ?thesis unfolding l CallAllocate using allocate_section [OF tok] by blast
next
  case (CallRoute a)
  then have l: "l = RouteFind a" using assms(2) by simp
  show ?thesis unfolding l CallRoute using route_section by blast
next
  case (CallSweep now ttl)
  then have l: "l = SweepBegin now ttl" using assms(2) by simp
  show ?thesis
    unfolding l CallSweep using table_scan [of "[]" t now ttl 0] assms(1)
    by (intro exI [of _ "Suc (Suc (length t))"]) (simp add: expire_allocations_def Let_def)
next
  case CallCount
  then show ?thesis using assms(2) by (intro exI [of _ 1]) (auto simp: table_size_def)
qed

lemma table_meaning_ok: "keys_ok t \<Longrightarrow> keys_ok (snd (table_meaning op t))"
  by (cases op) (auto simp: allocate_def route_def expire_allocations_def Let_def split: option.split leg_name.split)

interpretation locked_table: critical_sections table_enter table_access table_meaning keys_ok
proof
  show "table_enter op = Inr r \<Longrightarrow> table_meaning op t = (r, t)" for op r t
    by (cases op) (auto simp: allocate_def split: if_splits)
qed (simp_all add: table_sections table_meaning_ok)

section \<open>Any number of threads on one table\<close>

definition registry_threads :: "registry_call turn list \<Rightarrow> (registry, registry_call, registry_point, registry_result) machine" where
  "registry_threads is = foldl (take_turn registry_enter registry_access) (idle_machine []) is"

definition table_threads :: "table_call turn list \<Rightarrow> (allocation_table, table_call, table_point, table_result) machine" where
  "table_threads is = foldl (take_turn table_enter table_access) (idle_machine []) is"

lemma threads_linear: "locked_registry.linear [] (registry_threads is)" "locked_table.linear [] (table_threads js)"
  unfolding registry_threads_def table_threads_def
  by (rule locked_registry.linear_run, simp) (rule locked_table.linear_run, simp)

text \<open>C17: The tables of both servers are thread-safe: whatever threads call them and however the single reads and
  writes of the calls are interleaved, the results of the calls are those of running them one after the other in
  the order in which they return, the table is in the state this leaves whenever nobody holds the mutex, and no
  iterator or reference is used after its element was erased.\<close>

theorem tables_are_thread_safe:
  "(\<exists>reg. one_by_one registry_meaning [] (returns (events (registry_threads is))) = Some reg
      \<and> explained registry_access registry_meaning reg (registry_threads is)) \<and> \<not> undefined_access (registry_threads is)
   \<and> (\<exists>t. one_by_one table_meaning [] (returns (events (table_threads js))) = Some t
      \<and> explained table_access table_meaning t (table_threads js)) \<and> \<not> undefined_access (table_threads js)"
  using threads_linear(1) [of "is"] threads_linear(2) [of js] unfolding locked_registry.linear_def locked_table.linear_def by blast

text \<open>And no call waits for ever: wherever the threads are, the steps of one other thread (the one that holds the
  mutex) and then the thread's own bring every thread out of its call.\<close>

theorem table_calls_return:
  "(\<exists>h j k. phase (registry_threads (is @ replicate j (Step h) @ replicate k (Step t))) t = Resting)
   \<and> (\<exists>h j k. phase (table_threads (js @ replicate j (Step h) @ replicate k (Step t))) t = Resting)"
  using locked_registry.call_returns [OF threads_linear(1), of "is" t] locked_table.call_returns [OF threads_linear(2), of js t]
  unfolding registry_threads_def table_threads_def by (simp only: foldl_append)

text \<open>Two threads race to register one fresh id under different keys: the loser is refused.\<close>

lemma race_for_an_id:
  "returns (events (registry_threads
      ([Call 1 (CallUpsert (default_peer_record\<lparr>pid := [7], static_key := replicate 32 1\<rparr>)),
        Call 2 (CallUpsert (default_peer_record\<lparr>pid := [7], static_key := replicate 32 2\<rparr>))]
       @ concat (replicate 4 [Step 1, Step 2]) @ replicate 4 (Step 2))))
   = [(CallUpsert (default_peer_record\<lparr>pid := [7], static_key := replicate 32 1\<rparr>), StatusResult success),
      (CallUpsert (default_peer_record\<lparr>pid := [7], static_key := replicate 32 2\<rparr>),
       StatusResult (error_status PermissionDenied ''REDesk-ID held by a live peer with a different key''))]"
  by (simp add: registry_threads_def idle_machine_def return_from_def default_peer_record_def kStaticPubKeyLen_def
      kSquatGuardWindowS_def eval_nat_numeral)

end
