(* ===== verification/Log_Threads.thy ===== *)
theory Log_Threads
  imports Logging Interfaces
begin

text \<open>
  The process-wide logger of \<open>core/common/logging.h\<close> and \<open>logging.cpp\<close> under threads: \<open>REDESK_LOG\<close>
  statements in any number of threads, and \<open>setLogger\<close> meanwhile. A sink lives while the slot or a
  caller's \<open>shared_ptr\<close> owns it. \<open>logger()\<close> hands out a plain reference, read under the slot's mutex and
  used after it is released; each use of a reference is a step of its own, and a use of a sink that is gone
  sets a flag. \<open>logger()\<close> and \<open>setLogger\<close> hold the slot's mutex throughout and are one step each. The sinks are
  \<open>StderrLogger\<close>s; the time of day a line shows is an argument of the step that reads the clock.
\<close>

record log_statement =
  ls_level :: log_level
  ls_category :: string
  ls_message :: string
  ls_file :: "string option"
  ls_line :: nat

text \<open>Where a thread is in \<open>REDESK_LOG(level, category) << message\<close>: outside, about to ask the gate of the sink it
  got, about to get the sink again in \<open>~LogLine\<close>, about to call \<open>log\<close> on it, waiting for the sink's mutex with the
  time stamp formatted, holding it.\<close>

datatype log_point =
    Outside
  | AskGate nat log_statement
  | Flush log_statement
  | CallLog nat log_statement
  | LockSink nat log_statement string
  | WriteLine nat log_statement string

record log_world =
  slot :: nat
  min_level_of :: "nat \<Rightarrow> log_level"
  owners :: "nat \<Rightarrow> nat"
  sinks_made :: nat
  sink_mutex :: "nat \<Rightarrow> bool"
  log_thread :: "nat \<Rightarrow> log_point"
  printed :: "(nat \<times> log_statement \<times> string) list"
  dangling_use :: bool

definition log_start :: log_world where
  "log_start = \<lparr>slot = 0, min_level_of = (\<lambda>_. LInfo), owners = (\<lambda>_. 0), sinks_made = 1, sink_mutex = (\<lambda>_. False),
     log_thread = (\<lambda>_. Outside), printed = [], dangling_use = False\<rparr>"

definition alive :: "log_world \<Rightarrow> nat \<Rightarrow> bool" where
  "alive w s \<longleftrightarrow> s < sinks_made w \<and> (slot w = s \<or> owners w s > 0)"

text \<open>\<open>makeStderrLogger\<close> called by a thread that keeps the pointer, the end of such a pointer, and \<open>setLogger\<close> with a sink
  the caller has a pointer to (\<open>keeps\<close> tells whether it keeps one) or with null.\<close>

definition make_sink :: "log_level \<Rightarrow> log_world \<Rightarrow> log_world" where
  "make_sink lv w = w\<lparr>min_level_of := (min_level_of w)(sinks_made w := lv), owners := (owners w)(sinks_made w := 1),
     sinks_made := sinks_made w + 1\<rparr>"

definition drop_pointer :: "nat \<Rightarrow> log_world \<Rightarrow> log_world" where
  "drop_pointer s w = w\<lparr>owners := (owners w)(s := owners w s - 1)\<rparr>"

definition install_sink :: "nat option \<Rightarrow> bool \<Rightarrow> log_world \<Rightarrow> log_world" where
  "install_sink sink keeps w =
     (case sink of
        None \<Rightarrow> (let w' = make_sink LInfo w in drop_pointer (sinks_made w) (w'\<lparr>slot := sinks_made w\<rparr>))
      | Some s \<Rightarrow> if owners w s = 0 then w else if keeps then w\<lparr>slot := s\<rparr> else drop_pointer s (w\<lparr>slot := s\<rparr>))"

text \<open>The next step of a thread.\<close>

definition at_point :: "nat \<Rightarrow> log_point \<Rightarrow> log_world \<Rightarrow> log_world" where
  "at_point t p w = w\<lparr>log_thread := (log_thread w)(t := p)\<rparr>"

definition go :: "nat \<Rightarrow> string \<Rightarrow> log_world \<Rightarrow> log_world" where
  "go t now w =
     (case log_thread w t of
        Outside \<Rightarrow> w
      | AskGate s st \<Rightarrow>
          if \<not> alive w s then w\<lparr>dangling_use := True\<rparr>
          else at_point t (if isEnabled (\<lambda>_ _. True) (stderr_logger (min_level_of w s)) (ls_level st) then Flush st else Outside) w
      | Flush st \<Rightarrow> at_point t (CallLog (slot w) st) w
      | CallLog s st \<Rightarrow>
          if \<not> alive w s then w\<lparr>dangling_use := True\<rparr>
          else at_point t (if isEnabled (\<lambda>_ _. True) (stderr_logger (min_level_of w s)) (ls_level st) then LockSink s st now else Outside) w
      | LockSink s st ts \<Rightarrow>
          if \<not> alive w s then w\<lparr>dangling_use := True\<rparr>
          else if sink_mutex w s then w
          else at_point t (WriteLine s st ts) (w\<lparr>sink_mutex := (sink_mutex w)(s := True)\<rparr>)
      | WriteLine s st ts \<Rightarrow>
          if \<not> alive w s then w\<lparr>dangling_use := True\<rparr>
          else at_point t Outside (w\<lparr>sink_mutex := (sink_mutex w)(s := False),
            printed := printed w @ [(t, st, the (stderr_log (min_level_of w s) ts (ls_level st) (ls_category st) (ls_message st) (ls_file st) (ls_line st)))]\<rparr>))"

datatype log_act = Say nat log_statement | Go nat string | MakeSink log_level | DropPointer nat | SetLogger "nat option" bool

fun log_act_step :: "log_world \<Rightarrow> log_act \<Rightarrow> log_world" where
  "log_act_step w (Say t st) = (case log_thread w t of Outside \<Rightarrow> at_point t (AskGate (slot w) st) w | _ \<Rightarrow> w)"
| "log_act_step w (Go t now) = go t now w"
| "log_act_step w (MakeSink lv) = make_sink lv w"
| "log_act_step w (DropPointer s) = drop_pointer s w"
| "log_act_step w (SetLogger s keeps) = install_sink s keeps w"

text \<open>The sink a thread holds a reference to.\<close>

fun referred :: "log_point \<Rightarrow> nat option" where
  "referred (AskGate s st) = Some s"
| "referred (CallLog s st) = Some s"
| "referred (LockSink s st ts) = Some s"
| "referred (WriteLine s st ts) = Some s"
| "referred Outside = None"
| "referred (Flush st) = None"

text \<open>C18: A log statement and a \<open>setLogger\<close> in another thread: a thread has asked \<open>logger()\<close> for the sink, or is anywhere else in
  the statement with a reference to it, and no caller has kept a pointer to that sink, as nobody can to the
  default one. Then whatever sink another thread now installs, the next use of the reference is a use of a
  destroyed object.\<close>

theorem logger_reference_dangles:
  assumes "referred (log_thread w t) = Some (slot w)" and "owners w (slot w) = 0"
    and "slot w < sinks_made w" and "slot (install_sink s keeps w) \<noteq> slot w"
  shows "dangling_use (go t now (install_sink s keeps w))"
proof -
  have thread: "log_thread (install_sink s keeps w) t = log_thread w t"
    by (simp add: install_sink_def make_sink_def drop_pointer_def Let_def split: option.split)
  have "\<not> alive (install_sink s keeps w) (slot w)"
    using assms(2-4) by (auto simp: alive_def install_sink_def make_sink_def drop_pointer_def Let_def split: option.splits if_splits)
  then show ?thesis
    using assms(1) by (cases "log_thread w t") (simp_all add: go_def thread)
qed

theorem logger_reference_dangles_witness:
  "dangling_use (go 1 ''12:00:00.000'' (install_sink None False
     (log_act_step log_start (Say 1 \<lparr>ls_level = LWarn, ls_category = ''capture'', ls_message = ''lost'', ls_file = None, ls_line = 7\<rparr>))))"
  by (rule logger_reference_dangles)
    (simp_all add: log_start_def at_point_def install_sink_def make_sink_def drop_pointer_def Let_def)

section \<open>What a program can rely on\<close>

text \<open>A program in which sinks are replaced, and pointers to them given up, only while no thread is in the middle of a
  statement with a reference.\<close>

definition nobody_refers :: "log_world \<Rightarrow> bool" where
  "nobody_refers w \<longleftrightarrow> (\<forall>t. referred (log_thread w t) = None)"

fun calm :: "log_world \<Rightarrow> log_act list \<Rightarrow> bool" where
  "calm w [] = True"
| "calm w (a # as) = ((case a of SetLogger s k \<Rightarrow> nobody_refers w | DropPointer s \<Rightarrow> nobody_refers w | _ \<Rightarrow> True) \<and> calm (log_act_step w a) as)"

definition sound :: "log_world \<Rightarrow> bool" where
  "sound w \<longleftrightarrow> slot w < sinks_made w \<and> (\<forall>s. owners w s > 0 \<longrightarrow> s < sinks_made w)
     \<and> (\<forall>t s. referred (log_thread w t) = Some s \<longrightarrow> alive w s) \<and> \<not> dangling_use w"

lemmas log_defs = at_point_def make_sink_def drop_pointer_def install_sink_def

lemma sound_start: "sound log_start"
  by (simp add: sound_def log_start_def)

lemma alive_slot: "sound w \<Longrightarrow> alive w (slot w)"
  by (simp add: sound_def alive_def)

lemma sound_at_point: "sound w \<Longrightarrow> (\<And>s. referred p = Some s \<Longrightarrow> alive w s) \<Longrightarrow> sound (at_point t p w)"
  by (auto simp: sound_def at_point_def alive_def)

lemma sound_ghosts: "sound (w\<lparr>sink_mutex := m, printed := pr\<rparr>) = sound w" "sound (w\<lparr>sink_mutex := m\<rparr>) = sound w"
  by (simp_all add: sound_def alive_def)

lemma alive_ghosts [simp]: "alive (w\<lparr>sink_mutex := m, printed := pr\<rparr>) s = alive w s" "alive (w\<lparr>sink_mutex := m\<rparr>) s = alive w s"
  by (simp_all add: alive_def)

lemma sound_refers: "sound w \<Longrightarrow> referred (log_thread w t) = Some s \<Longrightarrow> alive w s"
  by (simp add: sound_def)

lemma sound_go: "sound w \<Longrightarrow> sound (go t now w)"
  using sound_refers [of w t] alive_slot [of w]
  by (cases "log_thread w t") (auto simp: go_def sound_ghosts intro!: sound_at_point)

lemma sound_act:
  assumes "sound w" and "calm w [a]"
  shows "sound (log_act_step w a)"
proof (cases a)
  case (Say t st)
  then show ?thesis using assms(1) alive_slot by (auto intro!: sound_at_point split: log_point.split)
next
  case (Go t now)
  then show ?thesis using assms(1) sound_go by simp
next
  case (MakeSink lv)
  then show ?thesis using assms(1) by (auto simp: sound_def make_sink_def alive_def less_Suc_eq)
next
  case (DropPointer s)
  then show ?thesis using assms by (auto simp: sound_def drop_pointer_def nobody_refers_def)
next
  case (SetLogger s k)
  then show ?thesis
    using assms by (auto simp: sound_def log_defs nobody_refers_def less_Suc_eq Let_def split: option.split)
qed

lemma sound_run: "sound w \<Longrightarrow> calm w as \<Longrightarrow> sound (foldl log_act_step w as)"
proof (induction as arbitrary: w)
  case (Cons a as)
  then show ?case using sound_act [of w a] by simp
qed simp

text \<open>Such a program never uses a destroyed sink.\<close>

theorem calm_programs_never_dangle: "calm log_start as \<Longrightarrow> \<not> dangling_use (foldl log_act_step log_start as)"
  using sound_run [OF sound_start] by (simp add: sound_def)

section \<open>What is printed\<close>

text \<open>The statements a thread has made (one it begins inside another of its own is no statement of this model), and its lines.\<close>

fun stated :: "nat \<Rightarrow> log_world \<Rightarrow> log_act list \<Rightarrow> log_statement list" where
  "stated t w [] = []"
| "stated t w (a # as) = (case a of Say t' st \<Rightarrow> if t' = t \<and> log_thread w t = Outside then [st] else [] | _ \<Rightarrow> []) @ stated t (log_act_step w a) as"

definition lines_of :: "nat \<Rightarrow> log_world \<Rightarrow> log_statement list" where
  "lines_of t w = map (\<lambda>(_, st, _). st) (filter (\<lambda>(t', _, _). t' = t) (printed w))"

definition passes :: "log_statement \<Rightarrow> bool" where
  "passes st \<longleftrightarrow> LInfo \<le> ls_level st"

fun pending :: "log_point \<Rightarrow> log_statement list" where
  "pending Outside = []"
| "pending (AskGate s st) = filter passes [st]"
| "pending (Flush st) = [st]"
| "pending (CallLog s st) = filter passes [st]"
| "pending (LockSink s st ts) = [st]"
| "pending (WriteLine s st ts) = [st]"

text \<open>Without \<open>setLogger\<close> the one sink is the default one.\<close>

fun no_set_logger :: "log_act \<Rightarrow> bool" where
  "no_set_logger (SetLogger s k) = False"
| "no_set_logger a = True"

fun point_ok :: "log_point \<Rightarrow> bool" where
  "point_ok Outside = True"
| "point_ok (AskGate s st) = (s = 0)"
| "point_ok (Flush st) = passes st"
| "point_ok (CallLog s st) = (s = 0)"
| "point_ok (LockSink s st ts) = (s = 0 \<and> passes st)"
| "point_ok (WriteLine s st ts) = (s = 0 \<and> passes st)"

definition line_ok :: "nat \<times> log_statement \<times> string \<Rightarrow> bool" where
  "line_ok x = (case x of (t, st, l) \<Rightarrow>
     \<exists>ts. stderr_log LInfo ts (ls_level st) (ls_category st) (ls_message st) (ls_file st) (ls_line st) = Some l)"

definition default_only :: "log_world \<Rightarrow> bool" where
  "default_only w \<longleftrightarrow> slot w = 0 \<and> 0 < sinks_made w \<and> min_level_of w 0 = LInfo \<and> \<not> dangling_use w
     \<and> (\<forall>t. point_ok (log_thread w t)) \<and> list_all line_ok (printed w)"

lemma passes_gate: "isEnabled (\<lambda>_ _. True) (stderr_logger LInfo) (ls_level st) = passes st"
  by (simp add: isEnabled_def passes_def less_eq_log_level_def)

lemma line_ok_written:
  "passes st \<Longrightarrow> line_ok (t, st, the (stderr_log LInfo ts (ls_level st) (ls_category st) (ls_message st) (ls_file st) (ls_line st)))"
  by (auto simp: line_ok_def stderr_log_def passes_gate)

lemma default_alive: "default_only w \<Longrightarrow> alive w 0"
  by (simp add: default_only_def alive_def)

lemma default_point: "default_only w \<Longrightarrow> point_ok (log_thread w t)"
  by (simp add: default_only_def)

lemma default_at_point: "default_only w \<Longrightarrow> point_ok p \<Longrightarrow> default_only (at_point t p w)"
  by (auto simp: default_only_def at_point_def)

lemma default_move:
  "default_only w \<Longrightarrow> point_ok p \<Longrightarrow> pending p = pending (log_thread w t)
   \<Longrightarrow> default_only (at_point t p w) \<and> (\<forall>u. lines_of u (at_point t p w) @ pending (log_thread (at_point t p w) u) = lines_of u w @ pending (log_thread w u))"
  by (auto simp: default_at_point lines_of_def) (simp_all add: at_point_def)

lemma default_go:
  assumes "default_only w"
  shows "default_only (go t now w) \<and> (\<forall>u. lines_of u (go t now w) @ pending (log_thread (go t now w) u) = lines_of u w @ pending (log_thread w u))"
proof -
  note d = default_alive [OF assms] default_point [OF assms, of t]
  have l: "min_level_of w 0 = LInfo" "slot w = 0" using assms by (simp_all add: default_only_def)
  show ?thesis
  proof (cases "log_thread w t")
    case (WriteLine s st ts)
    then have "s = 0" "passes st" using d by simp_all
    then show ?thesis
      using WriteLine d l assms by (auto simp: go_def at_point_def default_only_def lines_of_def line_ok_written)
  next
    case (LockSink s st ts)
    then show ?thesis
      using d l assms by (auto simp: go_def at_point_def default_only_def lines_of_def)
  next
    case Outside
    then show ?thesis using assms by (simp add: go_def)
  next
    case (AskGate s st)
    have "go t now w = at_point t (if passes st then Flush st else Outside) w"
      using AskGate d l by (simp add: go_def passes_gate)
    with AskGate assms show ?thesis by (simp add: default_move)
  next
    case (Flush st)
    have "go t now w = at_point t (CallLog 0 st) w" using Flush l by (simp add: go_def)
    with Flush d assms show ?thesis by (simp add: default_move)
  next
    case (CallLog s st)
    have "go t now w = at_point t (if passes st then LockSink 0 st now else Outside) w"
      using CallLog d l by (simp add: go_def passes_gate)
    with CallLog assms show ?thesis by (simp add: default_move)
  qed
qed

lemma default_act:
  assumes "default_only w" and "no_set_logger a"
  shows "default_only (log_act_step w a) \<and> (\<forall>u. lines_of u (log_act_step w a) @ pending (log_thread (log_act_step w a) u)
     = lines_of u w @ pending (log_thread w u) @ filter passes (stated u w [a]))"
proof (cases a)
  case (Say t st)
  have "slot w = 0" using assms(1) by (simp add: default_only_def)
  then show ?thesis
    using Say assms(1) by (cases "log_thread w t") (auto simp: at_point_def default_only_def lines_of_def)
next
  case (Go t now)
  then show ?thesis using default_go [OF assms(1)] by simp
next
  case (MakeSink lv)
  then show ?thesis using assms(1) by (auto simp: default_only_def make_sink_def lines_of_def)
next
  case (DropPointer s)
  then show ?thesis using assms(1) by (auto simp: default_only_def drop_pointer_def lines_of_def)
next
  case (SetLogger s k)
  then show ?thesis using assms(2) by simp
qed

lemma default_run:
  "default_only w \<Longrightarrow> list_all no_set_logger as \<Longrightarrow> default_only (foldl log_act_step w as)
   \<and> lines_of t (foldl log_act_step w as) @ pending (log_thread (foldl log_act_step w as) t)
     = lines_of t w @ pending (log_thread w t) @ filter passes (stated t w as)"
proof (induction as arbitrary: w)
  case (Cons a as)
  then show ?case using default_act [of w a] by simp
qed simp

text \<open>In a program that leaves the default logger in place, whatever its threads log and however they are
  interleaved: each thread's lines are exactly its statements of level \<open>Info\<close> or above, in its order, once each, but for the
  one it may be in the middle of; every line is whole, as one call formats it; and no sink is used that is gone.\<close>

theorem default_logger_exact:
  assumes "list_all no_set_logger as"
  shows "lines_of t (foldl log_act_step log_start as) @ pending (log_thread (foldl log_act_step log_start as) t)
      = filter passes (stated t log_start as)
    \<and> list_all line_ok (printed (foldl log_act_step log_start as)) \<and> \<not> dangling_use (foldl log_act_step log_start as)"
proof -
  have "default_only log_start" by (simp add: default_only_def log_start_def)
  moreover have "lines_of t log_start @ pending (log_thread log_start t) = []" by (simp add: lines_of_def log_start_def)
  ultimately show ?thesis using default_run [of log_start as t] assms by (auto simp: default_only_def)
qed

end
