(* ===== verification/Reference_Backends.thy ===== *)
theory Reference_Backends
  imports Codec_Proofs Crypto_Core Wire_Protocol Ipc_Protocol
begin

text \<open>
  The reference back ends of the test suite (\<open>src/tests/stub_backends.h\<close>): the behaviour the tests
  expect of codec, Noise session, transport and permission gate, which the core back ends are meant to
  replace one for one. Each is modelled as written, what its tests check is stated for all inputs,
  and where the core back end has the same contract the two are compared. A modulo by the length of an empty
  key is undefined in C++; the cipher returns \<open>None\<close> there.
\<close>

section \<open>The codec\<close>

definition kStubCodecMagic :: u32 where "kStubCodecMagic = 0x52455343"

definition ref_encode :: "video_frame \<Rightarrow> encoded_packet result" where
  "ref_encode f = good \<lparr>packet_data = le_bytes 4 kStubCodecMagic @ le_bytes 4 (width (frame_size f)) @ le_bytes 4 (height (frame_size f))
       @ le_bytes 4 (format f) @ le_bytes 4 (of_nat (length (cpu_pixels f)) :: u32) @ cpu_pixels f,
     packet_timestamp_us = timestamp_us f, keyframe = True\<rparr>"

definition ref_decode :: "encoded_packet \<Rightarrow> video_frame result" where
  "ref_decode p =
     (let d = packet_data p in
      if length d < 20 then fail InvalidArgument ''stub packet too small''
      else if (field 0 4 d :: u32) \<noteq> kStubCodecMagic then fail InvalidArgument ''stub codec magic mismatch''
      else if 20 + unat (field 16 4 d :: u32) \<noteq> length d then fail InvalidArgument ''stub payload length mismatch''
      else good (default_frame\<lparr>frame_size := \<lparr>width = field 4 4 d, height = field 8 4 d\<rparr>, format := field 12 4 d,
             cpu_pixels := drop 20 d, timestamp_us := packet_timestamp_us p\<rparr>))"

lemma ref_fields:
  assumes "d = le_bytes 4 a @ le_bytes 4 b @ le_bytes 4 c @ le_bytes 4 e @ le_bytes 4 (n :: u32) @ px"
  shows "field 0 4 d = (a :: u32)" "field 4 4 d = (b :: u32)" "field 8 4 d = (c :: u32)" "field 12 4 d = (e :: u32)"
    "field 16 4 d = n" "drop 20 d = px" "length d = 20 + length px"
  by (simp_all add: assms field_def of_le_le_bytes)

lemma reference_codec_core:
  assumes "length (cpu_pixels f) < 2 ^ 32"
  shows "(case ref_encode f of Inl s \<Rightarrow> Inl s | Inr p \<Rightarrow> ref_decode p) = good (carried f)"
proof -
  have "unat (of_nat (length (cpu_pixels f)) :: u32) = length (cpu_pixels f)"
    using assms by (simp add: unsigned_of_nat take_bit_nat_eq_self)
  then show ?thesis
    by (simp add: ref_encode_def ref_decode_def carried_def Let_def ref_fields [OF refl])
qed

text \<open>The reference pair gives back every frame with fewer than \<open>2 ^ 32\<close> bytes of pixels.\<close>

theorem reference_codec_roundtrip:
  assumes "length (cpu_pixels f) < 2 ^ 32"
  shows "(case ref_encode f of Inl s \<Rightarrow> Inl s | Inr p \<Rightarrow> ref_decode p) = good (carried f)"
  by (rule reference_codec_core [OF assms])

theorem reference_codec_roundtrip_witness:
  "(case ref_encode demo_frame of Inl s \<Rightarrow> Inl s | Inr p \<Rightarrow> ref_decode p) = good (carried demo_frame)"
  by (rule reference_codec_roundtrip) (simp add: demo_frame_def)

text \<open>A frame of any size, as the core decoder takes it from the core encoder's packet and the reference decoder
  from the reference encoder's: the length fields hold the number of pixel bytes modulo \<open>2 ^ 32\<close>.\<close>

lemma core_decoder_any_size:
  assumes "fst (snd (enc_encode f e)) = Some p"
  shows "snd (dec_decode p d) = (if dec_frame_cb d
     then Some ((carried f)\<lparr>cpu_pixels := take (length (cpu_pixels f) mod 2 ^ 32) (cpu_pixels f)\<rparr>) else None)"
proof -
  have p: "p = \<lparr>packet_data = header_bytes (encode_header (enc_force_keyframe e \<or> enc_first_frame e) f) @ cpu_pixels f,
      packet_timestamp_us = timestamp_us f, keyframe = enc_force_keyframe e \<or> enc_first_frame e\<rparr>"
    using assms by (simp add: enc_encode_emits)
  have n: "unat (word_of_nat (length (cpu_pixels f)) :: u32) = length (cpu_pixels f) mod 2 ^ 32"
    by (simp add: unsigned_of_nat take_bit_eq_mod)
  have "\<not> length (cpu_pixels f) < length (cpu_pixels f) mod 2 ^ 32" by (simp add: not_less)
  then show ?thesis
    unfolding p by (simp add: dec_decode_def sizeof_StubHeader_def header_roundtrip n carried_def encode_header_def Let_def)
qed

lemma reference_decoder_any_size:
  assumes "ref_encode f = Inr q"
  shows "ref_decode q = (if length (cpu_pixels f) < 2 ^ 32 then good (carried f)
     else fail InvalidArgument ''stub payload length mismatch'')"
proof (cases "length (cpu_pixels f) < 2 ^ 32")
  case True
  with reference_codec_core [OF True] assms show ?thesis by simp
next
  case False
  have q: "packet_data q = le_bytes 4 kStubCodecMagic @ le_bytes 4 (width (frame_size f)) @ le_bytes 4 (height (frame_size f))
       @ le_bytes 4 (format f) @ le_bytes 4 (of_nat (length (cpu_pixels f)) :: u32) @ cpu_pixels f"
    using assms by (auto simp: ref_encode_def good_def)
  have "length (cpu_pixels f) mod 2 ^ 32 < 2 ^ 32" by simp
  with False have "length (cpu_pixels f) mod 2 ^ 32 \<noteq> length (cpu_pixels f)" by linarith
  then have "unat (of_nat (length (cpu_pixels f)) :: u32) \<noteq> length (cpu_pixels f)"
    by (simp add: unsigned_of_nat take_bit_eq_mod)
  with False show ?thesis by (simp add: ref_decode_def Let_def ref_fields [OF q])
qed

lemma carried_any_size:
  "length (cpu_pixels f) < 2 ^ 32 \<Longrightarrow> (carried f)\<lparr>cpu_pixels := take (length (cpu_pixels f) mod 2 ^ 32) (cpu_pixels f)\<rparr> = carried f"
  by (simp add: carried_def)

text \<open>C29: The core codec against the reference one, for every frame that the core encoder accepts. If the frame
  has fewer than \<open>2 ^ 32\<close> bytes of pixels and the core decoder has its frame callback, the core decoder
  rebuilds from the core packet exactly the frame the reference pair rebuilds. From \<open>2 ^ 32\<close> bytes on the two
  part: both encoders still accept the frame and truncate its length field, the core decoder then
  delivers a frame with the pixels cut to the length modulo \<open>2 ^ 32\<close>, and the reference decoder refuses
  its own encoder's packet. Without a callback the core decoder delivers nothing. At every size neither decoder
  takes the other's packets.\<close>

theorem core_codec_matches_reference:
  assumes "fst (snd (enc_encode f e)) = Some p" and "ref_encode f = Inr q"
  shows "(if \<not> dec_frame_cb d then snd (dec_decode p d) = None
      else if length (cpu_pixels f) < 2 ^ 32 then map_option Inr (snd (dec_decode p d)) = Some (ref_decode q)
      else map_option cpu_pixels (snd (dec_decode p d)) = Some (take (length (cpu_pixels f) mod 2 ^ 32) (cpu_pixels f))
        \<and> ref_decode q = fail InvalidArgument ''stub payload length mismatch'')
    \<and> snd (dec_decode q d) = None \<and> result_status (ref_decode p) = error_status InvalidArgument ''stub codec magic mismatch''"
proof -
  have p: "p = \<lparr>packet_data = header_bytes (encode_header (enc_force_keyframe e \<or> enc_first_frame e) f) @ cpu_pixels f,
      packet_timestamp_us = timestamp_us f, keyframe = enc_force_keyframe e \<or> enc_first_frame e\<rparr>"
    using assms(1) by (simp add: enc_encode_emits)
  have "(field 0 4 (packet_data p) :: u32) = kStubMagic"
    by (simp add: p header_bytes_def field_def of_le_le_bytes)
  then have m: "result_status (ref_decode p) = error_status InvalidArgument ''stub codec magic mismatch''"
    by (simp add: ref_decode_def p kStubMagic_def kStubCodecMagic_def)
  have q: "packet_data q = le_bytes 4 kStubCodecMagic @ le_bytes 4 (width (frame_size f)) @ le_bytes 4 (height (frame_size f))
       @ le_bytes 4 (format f) @ le_bytes 4 (of_nat (length (cpu_pixels f)) :: u32) @ cpu_pixels f"
    using assms(2) by (auto simp: ref_encode_def good_def)
  have "sh_magic (header_of_bytes (take sizeof_StubHeader (packet_data q))) = kStubCodecMagic"
    by (simp add: header_of_bytes_def field_def q of_le_le_bytes sizeof_StubHeader_def)
  then have "snd (dec_decode q d) = None"
    by (simp add: dec_decode_def kStubMagic_def kStubCodecMagic_def Let_def)
  with m core_decoder_any_size [OF assms(1), of d] reference_decoder_any_size [OF assms(2)] carried_any_size [of f] show ?thesis
    by (simp add: good_def)
qed

theorem core_codec_matches_reference_witness:
  "map_option Inr (snd (dec_decode (the (fst (snd (enc_encode demo_frame demo_encoder)))) \<lparr>dec_codec = H264, dec_frame_cb = True\<rparr>))
     = Some (ref_decode (projr (ref_encode demo_frame)))"
proof -
  have a: "fst (snd (enc_encode demo_frame demo_encoder)) = Some (the (fst (snd (enc_encode demo_frame demo_encoder))))"
    by (simp add: enc_encode_def demo_encoder_def demo_frame_def createVideoEncoder_def enc_setPacketCallback_def default_frame_def)
  have b: "ref_encode demo_frame = Inr (projr (ref_encode demo_frame))" by (simp add: ref_encode_def good_def)
  have c: "length (cpu_pixels demo_frame) < 2 ^ 32" by (simp add: demo_frame_def)
  from core_codec_matches_reference [OF a b, of "\<lparr>dec_codec = H264, dec_frame_cb = True\<rparr>"] c show ?thesis by simp
qed

section \<open>The Noise session\<close>

record ref_noise =
  rn_role :: handshake_role
  transcript :: "byte list"
  rn_key :: "byte list"
  rn_hash :: "byte list"
  rn_established :: bool
  rounds_seen :: nat
  msgs_sent :: nat
  rn_send_nonce :: u32

definition new_ref_noise :: "handshake_role \<Rightarrow> ref_noise" where
  "new_ref_noise r = \<lparr>rn_role = r, transcript = [], rn_key = [], rn_hash = [], rn_established = False, rounds_seen = 0,
     msgs_sent = 0, rn_send_nonce = 0\<rparr>"

definition role_code :: "handshake_role \<Rightarrow> byte" where
  "role_code r = (case r of Initiator \<Rightarrow> 0 | Responder \<Rightarrow> 1)"

fun hash_bytes :: "nat \<Rightarrow> u64 \<Rightarrow> byte list" where
  "hash_bytes 0 h = []"
| "hash_bytes (Suc n) h = (let h' = (h XOR drop_bit 7 h) * 1099511628211 in ucast (h' AND 0xFF) # hash_bytes n h')"

definition deriveKey :: "ref_noise \<Rightarrow> ref_noise" where
  "deriveKey s =
     (if rn_key s \<noteq> [] then s
      else (let h = fnv1a (transcript s)
            in s\<lparr>rn_key := map (\<lambda>i. ucast (drop_bit ((i mod 8) * 8) h AND 0xFF)) [0..<16], rn_hash := hash_bytes 32 h\<rparr>))"

definition handshake_message :: "handshake_role \<Rightarrow> byte list" where
  "handshake_message r = [88, 75, (case r of Initiator \<Rightarrow> 105 | Responder \<Rightarrow> 114), role_code r]"

definition writeHandshake :: "byte list \<Rightarrow> ref_noise \<Rightarrow> byte list \<times> ref_noise" where
  "writeHandshake incoming s =
     (let s = (if incoming \<noteq> [] then s\<lparr>transcript := transcript s @ incoming, rounds_seen := rounds_seen s + 1\<rparr> else s);
          (out, s) = (case rn_role s of
            Initiator \<Rightarrow>
              (if msgs_sent s = 0
               then (handshake_message Initiator, s\<lparr>transcript := transcript s @ handshake_message Initiator, msgs_sent := 1\<rparr>)
               else if rounds_seen s \<ge> 1 then ([], s\<lparr>rn_established := True\<rparr>) else ([], s))
          | Responder \<Rightarrow>
              (if rounds_seen s \<ge> 1 \<and> msgs_sent s = 0
               then (handshake_message Responder, s\<lparr>transcript := transcript s @ handshake_message Responder, msgs_sent := 1,
                      rn_established := True\<rparr>)
               else ([], s)))
      in (out, if rn_established s then deriveKey s else s))"

definition ref_mask :: "byte list \<Rightarrow> byte \<Rightarrow> byte list \<Rightarrow> byte list" where
  "ref_mask key nonce bs = map (\<lambda>i. bs ! i XOR key ! (i mod length key) XOR nonce) [0..<length bs]"

definition ref_encrypt :: "byte list \<Rightarrow> ref_noise \<Rightarrow> (byte list \<times> ref_noise) option" where
  "ref_encrypt pt s =
     (if rn_key s = [] \<and> pt \<noteq> [] then None
      else Some (ucast (rn_send_nonce s) # ref_mask (rn_key s) (ucast (rn_send_nonce s)) pt,
                 s\<lparr>rn_send_nonce := rn_send_nonce s + 1\<rparr>))"

definition ref_decrypt :: "byte list \<Rightarrow> ref_noise \<Rightarrow> byte list result option" where
  "ref_decrypt ct s =
     (case ct of [] \<Rightarrow> Some (fail InvalidArgument ''empty ciphertext'')
      | nonce # body \<Rightarrow> if rn_key s = [] \<and> body \<noteq> [] then None else Some (good (ref_mask (rn_key s) nonce body)))"

text \<open>\<open>runHandshake\<close> of \<open>src/tests/test_crypto_handshake.cpp\<close>: at most eight rounds.\<close>

fun handshake_rounds :: "nat \<Rightarrow> byte list \<Rightarrow> ref_noise \<Rightarrow> ref_noise \<Rightarrow> bool \<times> ref_noise \<times> ref_noise" where
  "handshake_rounds 0 m i r = (rn_established i \<and> rn_established r, i, r)"
| "handshake_rounds (Suc n) m i r =
     (let (to_r, i) = writeHandshake m i; (to_i, r) = writeHandshake to_r r
      in if rn_established i \<and> rn_established r then (True, i, r) else handshake_rounds n to_i i r)"

definition runHandshake :: "bool \<times> ref_noise \<times> ref_noise" where
  "runHandshake = handshake_rounds 8 [] (new_ref_noise Initiator) (new_ref_noise Responder)"

lemma deriveKey_fields [simp]:
  "rn_established (deriveKey s) = rn_established s" "rn_role (deriveKey s) = rn_role s" "transcript (deriveKey s) = transcript s"
  "msgs_sent (deriveKey s) = msgs_sent s" "rounds_seen (deriveKey s) = rounds_seen s" "rn_send_nonce (deriveKey s) = rn_send_nonce s"
  "rn_key (deriveKey s) \<noteq> []"
  by (simp_all add: deriveKey_def Let_def)

lemma deriveKey_again [simp]: "rn_key s \<noteq> [] \<Longrightarrow> deriveKey s = s"
  by (simp add: deriveKey_def)

lemma handshake_rounds_numeral:
  "handshake_rounds (numeral k) m i r =
     (let (to_r, i) = writeHandshake m i; (to_i, r) = writeHandshake to_r r
      in if rn_established i \<and> rn_established r then (True, i, r) else handshake_rounds (pred_numeral k) to_i i r)"
  by (simp add: numeral_eq_Suc)

text \<open>Both ends derive from the same transcript.\<close>

definition both_messages :: "byte list" where
  "both_messages = handshake_message Initiator @ handshake_message Responder"

lemma handshake_runs:
  "\<exists>i r. runHandshake = (True, i, r) \<and> transcript i = both_messages \<and> transcript r = both_messages
     \<and> rn_key i = rn_key r \<and> rn_hash i = rn_hash r \<and> length (rn_key i) = 16 \<and> length (rn_hash i) = 32
     \<and> rn_established i \<and> rn_established r"
proof -
  have len: "length (hash_bytes n h) = n" for n h by (induction n arbitrary: h) (simp_all add: Let_def)
  show ?thesis
    by (simp add: runHandshake_def handshake_rounds_numeral writeHandshake_def new_ref_noise_def handshake_message_def
        both_messages_def deriveKey_def Let_def len)
qed

text \<open>Masking twice with the same key and nonce gives back the bytes.\<close>

lemma length_ref_mask [simp]: "length (ref_mask key nonce bs) = length bs"
  by (simp add: ref_mask_def)

lemma ref_mask_twice: "ref_mask key nonce (ref_mask key nonce bs) = bs"
proof (rule nth_equalityI)
  fix i assume "i < length (ref_mask key nonce (ref_mask key nonce bs))"
  then have i: "i < length bs" by simp
  let ?k = "key ! (i mod length key)"
  have "ref_mask key nonce (ref_mask key nonce bs) ! i = (bs ! i XOR ?k XOR nonce) XOR ?k XOR nonce"
    using i by (simp add: ref_mask_def)
  also have "\<dots> = bs ! i" by (rule bit_eqI) (auto simp: bit_xor_iff)
  finally show "ref_mask key nonce (ref_mask key nonce bs) ! i = bs ! i" .
qed simp

lemma ref_channel:
  assumes "rn_key s = rn_key t" and "rn_key t \<noteq> []"
  shows "\<exists>ct. ref_encrypt pt s = Some (ct, s\<lparr>rn_send_nonce := rn_send_nonce s + 1\<rparr>) \<and> length ct = length pt + 1
    \<and> ref_decrypt ct t = Some (good pt)"
  using assms by (simp add: ref_encrypt_def ref_decrypt_def ref_mask_twice)

text \<open>A sequence of messages from one end to the other.\<close>

fun ref_talk :: "byte list list \<Rightarrow> ref_noise \<Rightarrow> ref_noise \<Rightarrow> byte list result option list" where
  "ref_talk [] s t = []"
| "ref_talk (m # ms) s t =
     (case ref_encrypt m s of None \<Rightarrow> None # ref_talk ms s t
      | Some (ct, s') \<Rightarrow> ref_decrypt ct t # ref_talk ms s' t)"

lemma ref_talk_all:
  "rn_key s = rn_key t \<Longrightarrow> rn_key t \<noteq> [] \<Longrightarrow> ref_talk ms s t = map (Some \<circ> good) ms"
proof (induction ms arbitrary: s)
  case (Cons m ms)
  from ref_channel [OF Cons.prems, of m] obtain ct where
    ct: "ref_encrypt m s = Some (ct, s\<lparr>rn_send_nonce := rn_send_nonce s + 1\<rparr>)" "ref_decrypt ct t = Some (good m)" by blast
  from Cons.IH [of "s\<lparr>rn_send_nonce := rn_send_nonce s + 1\<rparr>"] Cons.prems ct show ?case by simp
qed simp

text \<open>What the tests ask of a Noise session holds of the reference session for every message: the handshake
  completes on both ends within the eight rounds, both ends then hold the same 32-byte handshake hash, and every
  sequence of messages either end encrypts, the other decrypts to exactly these messages.\<close>

theorem reference_session_contract:
  "case runHandshake of (done, i, r) \<Rightarrow> done \<and> rn_established i \<and> rn_established r
     \<and> rn_hash i = rn_hash r \<and> length (rn_hash i) = 32
     \<and> ref_talk ms i r = map (Some \<circ> good) ms \<and> ref_talk ms r i = map (Some \<circ> good) ms"
proof -
  obtain i r where h: "runHandshake = (True, i, r)" "rn_key i = rn_key r" "rn_hash i = rn_hash r" "length (rn_key i) = 16"
    "length (rn_hash i) = 32" "rn_established i" "rn_established r" using handshake_runs by blast
  have "rn_key r \<noteq> []" using h(2,4) by auto
  then show ?thesis unfolding h(1) using h(2-) by (simp add: ref_talk_all)
qed

text \<open>The counter travels as one byte: the same message encrypted 256 messages later is the same
  ciphertext, where the test asks for distinct ones.\<close>

theorem reference_nonce_repeats:
  "map_option fst (ref_encrypt pt (s\<lparr>rn_send_nonce := n + 256\<rparr>)) = map_option fst (ref_encrypt pt (s\<lparr>rn_send_nonce := n\<rparr>))"
proof -
  have "(ucast (n + 256) :: byte) = ucast n"
    by (simp add: word_uint_eq_iff unsigned_ucast_eq uint_word_ariths take_bit_eq_mod mod_mod_cancel)
  then show ?thesis by (simp add: ref_encrypt_def)
qed

section \<open>The loopback transport\<close>

datatype side = SideA | SideB

fun far :: "side \<Rightarrow> side" where
  "far SideA = SideB"
| "far SideB = SideA"

record ref_end =
  re_linked :: bool
  re_handlers :: "wire_channel \<Rightarrow> bool"
  re_next_seq :: "wire_channel \<Rightarrow> u32"
  re_drop_budget :: "wire_channel \<Rightarrow> int"

record ref_loopback =
  re_ends :: "side \<Rightarrow> ref_end"
  re_delivered :: "(side \<times> frame_header \<times> byte list) list"

definition new_ref_loopback :: ref_loopback where
  "new_ref_loopback = \<lparr>re_ends = (\<lambda>_. \<lparr>re_linked = False, re_handlers = (\<lambda>_. False), re_next_seq = (\<lambda>_. 0), re_drop_budget = (\<lambda>_. 0)\<rparr>),
     re_delivered = []\<rparr>"

definition ref_link :: "ref_loopback \<Rightarrow> ref_loopback" where
  "ref_link t = t\<lparr>re_ends := (\<lambda>s. (re_ends t s)\<lparr>re_linked := True\<rparr>)\<rparr>"

definition onChannel :: "side \<Rightarrow> wire_channel \<Rightarrow> bool \<Rightarrow> ref_loopback \<Rightarrow> ref_loopback" where
  "onChannel s ch h t = t\<lparr>re_ends := (re_ends t)(s := (re_ends t s)\<lparr>re_handlers := (re_handlers (re_ends t s))(ch := h)\<rparr>)\<rparr>"

definition dropNextInbound :: "side \<Rightarrow> wire_channel \<Rightarrow> int \<Rightarrow> ref_loopback \<Rightarrow> ref_loopback" where
  "dropNextInbound s ch n t = t\<lparr>re_ends := (re_ends t)(s := (re_ends t s)\<lparr>re_drop_budget := (re_drop_budget (re_ends t s))(ch := n)\<rparr>)\<rparr>"

definition ref_header :: "wire_channel \<Rightarrow> message_type \<Rightarrow> u16 \<Rightarrow> u32 \<Rightarrow> byte list \<Rightarrow> frame_header" where
  "ref_header ch ty flags sq payload = default_frame_header\<lparr>fh_channel := ch, fh_type := ty, fh_flags := flags, fh_seq := sq,
     fh_length := of_nat (length payload)\<rparr>"

definition deliver :: "side \<Rightarrow> frame_header \<Rightarrow> byte list \<Rightarrow> ref_loopback \<Rightarrow> ref_loopback" where
  "deliver s h payload t = (if re_handlers (re_ends t s) (fh_channel h) then t\<lparr>re_delivered := re_delivered t @ [(s, h, payload)]\<rparr> else t)"

definition ref_send :: "side \<Rightarrow> wire_channel \<Rightarrow> message_type \<Rightarrow> byte list \<Rightarrow> u16 \<Rightarrow> ref_loopback \<Rightarrow> status \<times> ref_loopback" where
  "ref_send s ch ty payload flags t =
     (if \<not> re_linked (re_ends t s) then (error_status ConnectionLost ''loopback not linked'', t)
      else
        (let h = ref_header ch ty flags (re_next_seq (re_ends t s) ch) payload;
             t = t\<lparr>re_ends := (re_ends t)(s := (re_ends t s)\<lparr>re_next_seq := (re_next_seq (re_ends t s))(ch := re_next_seq (re_ends t s) ch + 1)\<rparr>)\<rparr>;
             b = re_drop_budget (re_ends t (far s)) ch
         in if reliabilityFor ch = kUnreliable \<and> b > 0
            then (success, dropNextInbound (far s) ch (b - 1) t)
            else (success, deliver (far s) h payload t)))"

section \<open>What the loopback owes its channels\<close>

type_synonym ref_message = "wire_channel \<times> message_type \<times> byte list \<times> u16"

definition send_one :: "side \<Rightarrow> ref_loopback \<Rightarrow> ref_message \<Rightarrow> ref_loopback" where
  "send_one s t m = (case m of (ch, ty, payload, flags) \<Rightarrow> snd (ref_send s ch ty payload flags t))"

text \<open>What arrived at one end on one channel, and the numbering of the messages of a channel.\<close>

definition arrived :: "side \<Rightarrow> wire_channel \<Rightarrow> ref_loopback \<Rightarrow> (frame_header \<times> byte list) list" where
  "arrived s ch t = map snd (filter (\<lambda>(x, h, p). x = s \<and> fh_channel h = ch) (re_delivered t))"

definition numbered :: "u32 \<Rightarrow> 'm list \<Rightarrow> (u32 \<times> 'm) list" where
  "numbered sq ms = zip (map (\<lambda>k. sq + of_nat k) [0..<length ms]) ms"

lemma numbered_Cons [simp]: "numbered sq [] = []" "numbered sq (m # ms) = (sq, m) # numbered (sq + 1) ms"
proof -
  have "map (\<lambda>k. sq + of_nat k) [0..<Suc n] = sq # map (\<lambda>k. sq + 1 + of_nat k) [0..<n]" for n
    by (simp only: upt_conv_Cons [of 0 "Suc n"] zero_less_Suc list.map flip: map_Suc_upt) (simp add: add.assoc)
  then show "numbered sq [] = []" "numbered sq (m # ms) = (sq, m) # numbered (sq + 1) ms"
    by (simp_all add: numbered_def)
qed

definition framed :: "u32 \<times> ref_message \<Rightarrow> frame_header \<times> byte list" where
  "framed x = (case x of (sq, ch, ty, payload, flags) \<Rightarrow> (ref_header ch ty flags sq payload, payload))"

text \<open>How many of the next messages the far end has been told to lose; channels other than unreliable ones lose none.\<close>

definition losses :: "side \<Rightarrow> wire_channel \<Rightarrow> ref_loopback \<Rightarrow> nat" where
  "losses s ch t = (if reliabilityFor ch = kUnreliable then nat (re_drop_budget (re_ends t (far s)) ch) else 0)"

definition ready_to :: "side \<Rightarrow> wire_channel \<Rightarrow> ref_loopback \<Rightarrow> bool" where
  "ready_to s ch t \<longleftrightarrow> re_linked (re_ends t s) \<and> re_handlers (re_ends t (far s)) ch"

lemma far_neq [simp]: "far s \<noteq> s" "s \<noteq> far s" "far (far s) = s"
  by (cases s; simp)+

lemma header_fields [simp]: "fh_channel (ref_header ch ty fl sq p) = ch" "fh_seq (ref_header ch ty fl sq p) = sq"
  by (simp_all add: ref_header_def)

lemma send_one_effect:
  assumes "ready_to s ch t"
  shows "ready_to s ch (send_one s t (c, ty, p, fl))"
    and "re_next_seq (re_ends (send_one s t (c, ty, p, fl)) s) ch = re_next_seq (re_ends t s) ch + (if c = ch then 1 else 0)"
    and "losses s ch (send_one s t (c, ty, p, fl)) = losses s ch t - (if c = ch then 1 else 0)"
    and "arrived (far s) ch (send_one s t (c, ty, p, fl)) = arrived (far s) ch t
      @ (if c = ch \<and> losses s ch t = 0 then [framed (re_next_seq (re_ends t s) ch, c, ty, p, fl)] else [])"
  using assms
  by (auto simp: ready_to_def send_one_def ref_send_def Let_def dropNextInbound_def deliver_def losses_def arrived_def framed_def)

lemma sends_arrive:
  "ready_to s ch t \<Longrightarrow> arrived (far s) ch (foldl (send_one s) t ms) = arrived (far s) ch t
     @ map framed (drop (losses s ch t) (numbered (re_next_seq (re_ends t s) ch) (filter (\<lambda>m. fst m = ch) ms)))"
proof (induction ms arbitrary: t)
  case (Cons m ms)
  obtain c ty p fl where m: "m = (c, ty, p, fl)" by (cases m)
  note eff = send_one_effect [OF Cons.prems, of c ty p fl]
  show ?case
    using Cons.IH [OF eff(1)] eff(2-4)
    by (cases "losses s ch t") (auto simp: m)
qed simp

text \<open>The reference loopback keeps every channel apart from every other: for any interleaving of sends, what
  arrives on a channel is exactly that channel's messages with consecutive sequence numbers and
  their lengths, in order, all of them on a reliable or partially reliable channel, and on an unreliable one all
  but as many of the first as the receiver was told to lose.\<close>

theorem reference_channel_contract:
  assumes "re_linked (re_ends t s)" and "re_handlers (re_ends t (far s)) ch"
  shows "arrived (far s) ch (foldl (send_one s) t ms) = arrived (far s) ch t
     @ map framed (drop (losses s ch t) (numbered (re_next_seq (re_ends t s) ch) (filter (\<lambda>m. fst m = ch) ms)))"
  using assms by (simp add: sends_arrive ready_to_def)

theorem reference_channel_contract_witness:
  "map snd (arrived SideB kAudio (foldl (send_one SideA) (dropNextInbound SideB kAudio 1 (onChannel SideB kAudio True (ref_link new_ref_loopback)))
      [(kAudio, kAudioFrame, [16], 0), (kInput, mtInputEvent, [1], 0), (kAudio, kAudioFrame, [32], 0)])) = [[32]]"
proof -
  let ?t = "dropNextInbound SideB kAudio 1 (onChannel SideB kAudio True (ref_link new_ref_loopback))"
  have "arrived (far SideA) kAudio (foldl (send_one SideA) ?t [(kAudio, kAudioFrame, [16], 0), (kInput, mtInputEvent, [1], 0), (kAudio, kAudioFrame, [32], 0)])
    = arrived (far SideA) kAudio ?t @ map framed (drop (losses SideA kAudio ?t) (numbered (re_next_seq (re_ends ?t SideA) kAudio)
        (filter (\<lambda>m. fst m = kAudio) [(kAudio, kAudioFrame, [16], 0), (kInput, mtInputEvent, [1], 0), (kAudio, kAudioFrame, [32], 0)])))"
    by (rule reference_channel_contract) (simp_all add: dropNextInbound_def onChannel_def ref_link_def new_ref_loopback_def)
  then show ?thesis
    by (simp add: arrived_def losses_def dropNextInbound_def onChannel_def ref_link_def new_ref_loopback_def framed_def)
qed

section \<open>The permission gate\<close>

datatype gate_action = Check | Grant | Revoke

record gate_entry =
  ge_fingerprint :: string
  ge_capability :: ipc_capability
  ge_allowed :: bool
  ge_action :: gate_action

record permission_gate =
  pg_grants :: "(string \<times> capability_set) list"
  pg_audit :: "gate_entry list"

definition new_gate :: permission_gate where
  "new_gate = \<lparr>pg_grants = [], pg_audit = []\<rparr>"

definition gate_log :: "string \<Rightarrow> ipc_capability \<Rightarrow> bool \<Rightarrow> gate_action \<Rightarrow> permission_gate \<Rightarrow> permission_gate" where
  "gate_log fp c a act g = g\<lparr>pg_audit := pg_audit g @ [\<lparr>ge_fingerprint = fp, ge_capability = c, ge_allowed = a, ge_action = act\<rparr>]\<rparr>"

definition gate_grant :: "string \<Rightarrow> ipc_capability \<Rightarrow> permission_gate \<Rightarrow> permission_gate" where
  "gate_grant fp c g = gate_log fp c True Grant
     (g\<lparr>pg_grants := AList.update fp (cap_grant c (case map_of (pg_grants g) fp of Some s \<Rightarrow> s | None \<Rightarrow> cap_none)) (pg_grants g)\<rparr>)"

definition gate_revoke :: "string \<Rightarrow> ipc_capability \<Rightarrow> permission_gate \<Rightarrow> permission_gate" where
  "gate_revoke fp c g = gate_log fp c False Revoke
     (case map_of (pg_grants g) fp of None \<Rightarrow> g | Some s \<Rightarrow> g\<lparr>pg_grants := AList.update fp (cap_revoke c s) (pg_grants g)\<rparr>)"

definition gate_check :: "string \<Rightarrow> ipc_capability \<Rightarrow> permission_gate \<Rightarrow> bool \<times> permission_gate" where
  "gate_check fp c g =
     (let allowed = (case map_of (pg_grants g) fp of None \<Rightarrow> False | Some s \<Rightarrow> cap_has s c)
      in (allowed, gate_log fp c allowed Check g))"

datatype gate_op = GGrant string ipc_capability | GRevoke string ipc_capability | GCheck string ipc_capability

fun gate_step :: "permission_gate \<Rightarrow> gate_op \<Rightarrow> permission_gate" where
  "gate_step g (GGrant fp c) = gate_grant fp c g"
| "gate_step g (GRevoke fp c) = gate_revoke fp c g"
| "gate_step g (GCheck fp c) = snd (gate_check fp c g)"

text \<open>The specification: the set of granted pairs, and the log that goes with it.\<close>

fun spec_step :: "(string \<times> ipc_capability) set \<Rightarrow> gate_op \<Rightarrow> (string \<times> ipc_capability) set" where
  "spec_step A (GGrant fp c) = insert (fp, c) A"
| "spec_step A (GRevoke fp c) = A - {(fp, c)}"
| "spec_step A (GCheck fp c) = A"

fun spec_log :: "(string \<times> ipc_capability) set \<Rightarrow> gate_op list \<Rightarrow> gate_entry list" where
  "spec_log A [] = []"
| "spec_log A (op # ops) = (case op of
       GGrant fp c \<Rightarrow> \<lparr>ge_fingerprint = fp, ge_capability = c, ge_allowed = True, ge_action = Grant\<rparr>
     | GRevoke fp c \<Rightarrow> \<lparr>ge_fingerprint = fp, ge_capability = c, ge_allowed = False, ge_action = Revoke\<rparr>
     | GCheck fp c \<Rightarrow> \<lparr>ge_fingerprint = fp, ge_capability = c, ge_allowed = (fp, c) \<in> A, ge_action = Check\<rparr>) # spec_log (spec_step A op) ops"

definition abs_gate :: "permission_gate \<Rightarrow> (string \<times> ipc_capability) set" where
  "abs_gate g = {(fp, c). case map_of (pg_grants g) fp of None \<Rightarrow> False | Some s \<Rightarrow> cap_has s c}"

lemma cap_cases: "\<not> cap_has cap_none d" "cap_has (cap_grant c s) d = (c = d \<or> cap_has s d)" "cap_has (cap_revoke c s) d = (c \<noteq> d \<and> cap_has s d)"
  using capability_toggles_independent [of d c s] by auto

lemma check_abs: "fst (gate_check fp c g) = ((fp, c) \<in> abs_gate g)"
  by (simp add: gate_check_def abs_gate_def Let_def)

lemma gate_log_fields [simp]: "pg_grants (gate_log fp c a act g) = pg_grants g"
  by (simp add: gate_log_def)

lemma abs_gate_step: "abs_gate (gate_step g op) = spec_step (abs_gate g) op"
  by (cases op) (auto simp: abs_gate_def gate_grant_def gate_revoke_def gate_check_def Let_def cap_cases split: option.splits if_splits)

lemma gate_step_log: "pg_audit (gate_step g op) = pg_audit g @ spec_log (abs_gate g) [op]"
  by (cases op) (auto simp: gate_grant_def gate_revoke_def gate_check_def gate_log_def abs_gate_def Let_def split: option.split)

lemma gate_run:
  "abs_gate (foldl gate_step g ops) = foldl spec_step (abs_gate g) ops
   \<and> pg_audit (foldl gate_step g ops) = pg_audit g @ spec_log (abs_gate g) ops"
  by (induction ops arbitrary: g) (simp_all add: abs_gate_step gate_step_log)

text \<open>The reference permission gate is a set of granted pairs with default deny: after any calls a check answers
  whether the pair of fingerprint and capability was granted and not revoked since, independently of
  every other pair, and the audit log holds every grant, revoke and check in order with its decision.\<close>

theorem reference_gate_contract:
  "fst (gate_check fp c (foldl gate_step new_gate ops)) = ((fp, c) \<in> foldl spec_step {} ops)
   \<and> pg_audit (foldl gate_step new_gate ops) = spec_log {} ops"
proof -
  have "abs_gate new_gate = {}" by (simp add: abs_gate_def new_gate_def)
  with gate_run [of new_gate ops] show ?thesis
    unfolding check_abs by (simp add: new_gate_def)
qed

end
