(* ===== verification/Test_Suite.thy ===== *)
theory Test_Suite
  imports Reference_Backends Codec_Tiers Ipc_Protocol
begin

text \<open>
  The test suite of the repository: the harness of \<open>src/tests/redesk_test.h\<close>, and the cases of the six test
  programs on the model's definitions. A case is the sequence of its assertions; what one computes
  before an assertion is in that assertion's condition. The cases are the authors' own expectations, so
  running them here checks the model against the code's behaviour as its authors saw it. The lines printed
  for a failed assertion, and the checks that a factory returned an object, are left out.
\<close>

section \<open>The harness\<close>

text \<open>An assertion is its macro and the value of what it tests: the condition, or whether the two arguments are
  equal.\<close>

datatype assertion =
    EXPECT_TRUE bool | EXPECT_FALSE bool | EXPECT_EQ bool | EXPECT_NE bool
  | ASSERT_TRUE bool | ASSERT_FALSE bool | ASSERT_EQ bool | ASSERT_NE bool

fun assertion_holds :: "assertion \<Rightarrow> bool" where
  "assertion_holds (EXPECT_TRUE c) = c"
| "assertion_holds (EXPECT_FALSE c) = (\<not> c)"
| "assertion_holds (EXPECT_EQ equal) = equal"
| "assertion_holds (EXPECT_NE equal) = (\<not> equal)"
| "assertion_holds (ASSERT_TRUE c) = c"
| "assertion_holds (ASSERT_FALSE c) = (\<not> c)"
| "assertion_holds (ASSERT_EQ equal) = equal"
| "assertion_holds (ASSERT_NE equal) = (\<not> equal)"

fun stops_case :: "assertion \<Rightarrow> bool" where
  "stops_case (ASSERT_TRUE _) = True"
| "stops_case (ASSERT_FALSE _) = True"
| "stops_case (ASSERT_EQ _) = True"
| "stops_case (ASSERT_NE _) = True"
| "stops_case _ = False"

record test_context =
  failures :: nat
  aborted :: bool

record test_case =
  suite :: string
  tc_name :: string
  fn :: "assertion list"

text \<open>A failed \<open>EXPECT\<close> is counted and the case goes on, a failed \<open>ASSERT\<close> is counted and returns from the case.\<close>

fun run_case :: "assertion list \<Rightarrow> test_context \<Rightarrow> test_context" where
  "run_case [] ctx = ctx"
| "run_case (a # as) ctx =
     (if assertion_holds a then run_case as ctx
      else (let ctx = ctx\<lparr>failures := failures ctx + 1\<rparr>
            in if stops_case a then ctx\<lparr>aborted := True\<rparr> else run_case as ctx))"

definition new_context :: test_context where
  "new_context = \<lparr>failures = 0, aborted = False\<rparr>"

definition full_name :: "test_case \<Rightarrow> string" where
  "full_name tc = suite tc @ ''.'' @ tc_name tc"

definition newline :: string where
  "newline = [char_of (10 :: nat)]"

fun run_cases :: "test_case list \<Rightarrow> nat \<Rightarrow> nat \<Rightarrow> nat \<times> nat \<times> string list" where
  "run_cases [] passed failed = (passed, failed, [])"
| "run_cases (tc # cases) passed failed =
     (let ctx = run_case (fn tc) new_context;
          run_line = ''[ RUN      ] '' @ full_name tc @ newline;
          (line, passed, failed) =
            (if failures ctx = 0 then (''[       OK ] '' @ full_name tc @ newline, passed + 1, failed)
             else (''[  FAILED  ] '' @ full_name tc @ '' ('' @ to_string (failures ctx) @ '' assertion failure(s))'' @ newline, passed, failed + 1));
          (p, f, out) = run_cases cases passed failed
      in (p, f, run_line # line # out))"

definition runAll :: "test_case list \<Rightarrow> int \<times> string list" where
  "runAll cases =
     (let (passed, failed, out) = run_cases cases 0 0
      in (if failed = 0 then 0 else 1,
          [''[==========] Running '' @ to_string (length cases) @ '' test(s).'' @ newline] @ out
          @ [''[==========] '' @ to_string passed @ '' passed, '' @ to_string failed @ '' failed.'' @ newline]))"

text \<open>What the harness promises: a case fails exactly when one of its assertions does, however many come after it.\<close>

lemma run_case_mono: "failures ctx \<le> failures (run_case as ctx)"
proof (induction as arbitrary: ctx)
  case (Cons a as)
  from Cons.IH [of "ctx\<lparr>failures := failures ctx + 1\<rparr>"] Cons.IH [of ctx] show ?case by (auto simp: Let_def)
qed simp

lemma run_case_failures: "failures (run_case as ctx) = failures ctx \<longleftrightarrow> list_all assertion_holds as"
proof (induction as arbitrary: ctx)
  case (Cons a as)
  from run_case_mono [of "ctx\<lparr>failures := failures ctx + 1\<rparr>" as] Cons.IH [of ctx] show ?case by (auto simp: Let_def)
qed simp

definition case_passes :: "test_case \<Rightarrow> bool" where
  "case_passes tc \<longleftrightarrow> list_all assertion_holds (fn tc)"

lemma run_case_passes: "failures (run_case (fn tc) new_context) = 0 \<longleftrightarrow> case_passes tc"
  using run_case_failures [of "fn tc" new_context] by (simp add: case_passes_def new_context_def)

lemma run_cases_counts:
  "\<exists>out. run_cases cases p f = (p + length (filter case_passes cases), f + length (filter (\<lambda>tc. \<not> case_passes tc) cases), out)"
proof (induction cases arbitrary: p f)
  case (Cons tc cases)
  show ?case
    using Cons.IH [of "if case_passes tc then p + 1 else p" "if case_passes tc then f else f + 1"]
    by (auto simp: Let_def run_case_passes split: prod.split)
qed simp

lemma runAll_exit: "fst (runAll cases) = 0 \<longleftrightarrow> list_all case_passes cases"
proof -
  obtain out where "run_cases cases 0 0 = (length (filter case_passes cases), length (filter (\<lambda>tc. \<not> case_passes tc) cases), out)"
    using run_cases_counts [of cases 0 0] by auto
  then show ?thesis by (auto simp: runAll_def filter_empty_conv list_all_iff)
qed

section \<open>Codec negotiation and wire framing\<close>

definition test_of :: "string \<Rightarrow> string \<Rightarrow> assertion list \<Rightarrow> test_case" where
  "test_of s n as = \<lparr>suite = s, tc_name = n, fn = as\<rparr>"

lemma test_of_passes [simp]: "case_passes (test_of s n as) = list_all assertion_holds as"
  by (simp add: test_of_def case_passes_def)

text \<open>\<open>src/tests/test_codec_negotiation.cpp\<close>\<close>

definition negotiation_tests :: "test_case list" where
  "negotiation_tests =
     (let full = [kH264High420, kHevc420, kHevc444, kAv1]; a = [kAv1, kH264High420]; b = [kHevc444, kH264High420, kAv1] in
      [test_of ''codec_negotiation'' ''picks_highest_common_tier'' [EXPECT_TRUE (negotiateTier full [kH264High420, kHevc420] = kHevc420)],
       test_of ''codec_negotiation'' ''both_full_ladder_yields_av1'' [EXPECT_TRUE (negotiateTier full full = kAv1)],
       test_of ''codec_negotiation'' ''floor_only_yields_floor'' [EXPECT_TRUE (negotiateTier floorCapabilities floorCapabilities = kH264High420)],
       test_of ''codec_negotiation'' ''order_independent'' [EXPECT_TRUE (negotiateTier a b = kAv1), EXPECT_TRUE (negotiateTier b a = kAv1)],
       test_of ''codec_negotiation'' ''no_common_tier_is_failure'' [EXPECT_TRUE (negotiateTier [kAv1] [kH264High420] = tierNone)],
       test_of ''codec_negotiation'' ''hevc444_preferred_over_hevc420''
         [EXPECT_TRUE (negotiateTier [kHevc420, kHevc444] [kHevc420, kHevc444] = kHevc444)]])"

text \<open>\<open>src/tests/test_proto_framing.cpp\<close>\<close>

definition framing_tests :: "test_case list" where
  "framing_tests =
     (let h = default_frame_header; budget = usablePayloadBudget kNoiseMessageMax; big = 200 * 1024;
          n = fragmentCount big budget; g = h\<lparr>fh_flags := flag_bits kFlagKeyframe OR flag_bits kFlagFragment\<rparr> in
      [test_of ''proto_framing'' ''header_size_is_pinned'' [EXPECT_EQ (sizeof_FrameHeader = 18), EXPECT_EQ (sizeof_IpcHeader = 8)],
       test_of ''proto_framing'' ''reliability_policy_matches_adr''
         [EXPECT_TRUE (reliabilityFor kVideo = kPartialReliable), EXPECT_TRUE (reliabilityFor kAudio = kUnreliable),
          EXPECT_TRUE (reliabilityFor kInput = kReliableOrdered), EXPECT_TRUE (reliabilityFor kControl = kReliableOrdered),
          EXPECT_TRUE (reliabilityFor kClipboard = kReliableOrdered), EXPECT_TRUE (reliabilityFor kFile = kReliableOrdered)],
       test_of ''proto_framing'' ''whole_message_detection''
         [EXPECT_TRUE (isWholeMessage h),
          EXPECT_FALSE (isWholeMessage (h\<lparr>fh_frag_count := 3, fh_flags := flag_bits kFlagFragment\<rparr>))],
       test_of ''proto_framing'' ''fragmentation_respects_noise_cap''
         [EXPECT_TRUE (budget > 0), EXPECT_TRUE (budget < kNoiseMessageMax),
          EXPECT_EQ (fragmentCount 100 budget = 1), EXPECT_EQ (fragmentCount budget budget = 1), EXPECT_EQ (fragmentCount (budget + 1) budget = 2),
          EXPECT_TRUE (n \<ge> 4), EXPECT_TRUE ((ucast n :: u32) * budget \<ge> big), EXPECT_TRUE ((ucast n - 1 :: u32) * budget < big)],
       test_of ''proto_framing'' ''flag_helpers''
         [EXPECT_TRUE (hasFlag g kFlagKeyframe), EXPECT_TRUE (hasFlag g kFlagFragment), EXPECT_FALSE (hasFlag g kFlagFec),
          EXPECT_FALSE (hasFlag g kFlagRetransmit)]])"

lemma negotiation_pass: "list_all case_passes negotiation_tests"
  by (simp add: negotiation_tests_def Let_def negotiateTier_def floorCapabilities_def codec_tier_code_def less_codec_tier_def
      del: code_less)

lemma framing_pass: "list_all case_passes framing_tests"
  by (simp add: framing_tests_def Let_def isWholeMessage_def hasFlag_def
      default_frame_header_def flag_bits_def usablePayloadBudget_def fragmentCount_def kNoiseMessageMax_def kAeadTagBytes_def)

section \<open>Codec and crypto\<close>

text \<open>\<open>src/tests/test_codec_roundtrip.cpp\<close>\<close>

definition makeFrame :: video_frame where
  "makeFrame = default_frame\<lparr>frame_size := \<lparr>width = 1280, height = 720\<rparr>, format := pixel_format_code NV12, timestamp_us := 42000,
     cpu_pixels := map (\<lambda>i. of_nat ((i * 7 + 3) mod 256)) [0..<64]\<rparr>"

definition roundtrip_tests :: "test_case list" where
  "roundtrip_tests =
     [test_of ''codec'' ''roundtrip_preserves_frame''
       (case ref_encode makeFrame of
          Inl _ \<Rightarrow> [ASSERT_TRUE False]
        | Inr p \<Rightarrow>
            [ASSERT_TRUE True, EXPECT_TRUE (keyframe p), EXPECT_EQ (packet_timestamp_us p = timestamp_us makeFrame), EXPECT_FALSE (packet_data p = [])]
            @ (case ref_decode p of
                 Inl _ \<Rightarrow> [ASSERT_TRUE False]
               | Inr got \<Rightarrow>
                   [ASSERT_TRUE True, EXPECT_EQ (width (frame_size got) = width (frame_size makeFrame)), EXPECT_EQ (height (frame_size got) = height (frame_size makeFrame)),
                    EXPECT_TRUE (format got = format makeFrame), EXPECT_EQ (timestamp_us got = timestamp_us makeFrame),
                    ASSERT_EQ (length (cpu_pixels got) = length (cpu_pixels makeFrame)), EXPECT_TRUE (cpu_pixels got = cpu_pixels makeFrame)])),
      test_of ''codec'' ''decode_rejects_garbage''
       (case ref_decode \<lparr>packet_data = [0, 1, 2], packet_timestamp_us = 0, keyframe = False\<rparr> of
          Inl st \<Rightarrow> [EXPECT_FALSE False, EXPECT_TRUE (code st = InvalidArgument)]
        | Inr _ \<Rightarrow> [EXPECT_FALSE True, EXPECT_TRUE False])]"

text \<open>\<open>src/tests/test_crypto_handshake.cpp\<close>: a cipher call that is undefined fails the case.\<close>

definition sealed :: "byte list \<Rightarrow> ref_noise \<Rightarrow> (byte list \<Rightarrow> ref_noise \<Rightarrow> assertion list) \<Rightarrow> assertion list" where
  "sealed msg s rest = (case ref_encrypt msg s of None \<Rightarrow> [ASSERT_TRUE False] | Some (ct, s') \<Rightarrow> rest ct s')"

definition read_ok :: "byte list \<Rightarrow> ref_noise \<Rightarrow> bool" where
  "read_ok ct t = (case ref_decrypt ct t of Some (Inr _) \<Rightarrow> True | _ \<Rightarrow> False)"

definition crypto_tests :: "test_case list" where
  "crypto_tests =
     (case runHandshake of (done, i, r) \<Rightarrow>
      [test_of ''crypto'' ''handshake_completes_and_binds''
         [ASSERT_TRUE done, EXPECT_TRUE (rn_established i), EXPECT_TRUE (rn_established r), EXPECT_FALSE (rn_hash i = []), EXPECT_TRUE (rn_hash i = rn_hash r)],
       test_of ''crypto'' ''aead_roundtrip_both_directions''
         (ASSERT_TRUE done # sealed (map of_char ''hello'') i (\<lambda>ct1 i'.
            [EXPECT_TRUE (ct1 \<noteq> map of_char ''hello''), ASSERT_TRUE (read_ok ct1 r), EXPECT_TRUE (ref_decrypt ct1 r = Some (Inr (map of_char ''hello'')))]
            @ sealed [0x00, 0xFF, 0x10, 0x20] r (\<lambda>ct2 _.
                [ASSERT_TRUE (read_ok ct2 i'), EXPECT_TRUE (ref_decrypt ct2 i' = Some (Inr [0x00, 0xFF, 0x10, 0x20]))]))),
       test_of ''crypto'' ''distinct_nonces_change_ciphertext''
         (ASSERT_TRUE done # sealed [1, 2, 3, 4] i (\<lambda>c1 i'. sealed [1, 2, 3, 4] i' (\<lambda>c2 _.
            [EXPECT_TRUE (c1 \<noteq> c2), ASSERT_TRUE (read_ok c1 r), ASSERT_TRUE (read_ok c2 r),
             EXPECT_TRUE (ref_decrypt c1 r = Some (Inr [1, 2, 3, 4])), EXPECT_TRUE (ref_decrypt c2 r = Some (Inr [1, 2, 3, 4]))])))])"

lemma roundtrip_pass: "list_all case_passes roundtrip_tests"
proof -
  have "length (cpu_pixels makeFrame) < 2 ^ 32" by (simp add: makeFrame_def)
  from reference_codec_core [OF this] obtain p where p: "ref_encode makeFrame = Inr p" "ref_decode p = good (carried makeFrame)"
    by (auto simp: ref_encode_def good_def)
  have "keyframe p \<and> packet_timestamp_us p = timestamp_us makeFrame \<and> packet_data p \<noteq> []"
    using p(1) by (auto simp: ref_encode_def good_def le_bytes_def)
  then show ?thesis
    using p(2) unfolding roundtrip_tests_def p(1) sum.case
    by (simp add: good_def carried_def default_frame_def ref_decode_def fail_def makeFrame_def)
qed

lemma sealed_passes:
  assumes "rn_key s = rn_key t" and "rn_key t \<noteq> []"
    and "\<And>ct. ref_encrypt msg s = Some (ct, s\<lparr>rn_send_nonce := rn_send_nonce s + 1\<rparr>) \<Longrightarrow> ref_decrypt ct t = Some (Inr msg)
      \<Longrightarrow> list_all assertion_holds (rest ct (s\<lparr>rn_send_nonce := rn_send_nonce s + 1\<rparr>))"
  shows "list_all assertion_holds (sealed msg s rest)"
proof -
  from ref_channel [OF assms(1,2), of msg] obtain ct where
    "ref_encrypt msg s = Some (ct, s\<lparr>rn_send_nonce := rn_send_nonce s + 1\<rparr>)" "ref_decrypt ct t = Some (Inr msg)"
    by (auto simp: good_def)
  with assms(3) show ?thesis by (simp add: sealed_def)
qed

lemma read_ok_plain: "ref_decrypt ct t = Some (Inr m) \<Longrightarrow> read_ok ct t"
  by (simp add: read_ok_def)

lemma sealed_bytes:
  "ref_encrypt pt s = Some (ct, s') \<Longrightarrow> length ct = Suc (length pt) \<and> hd ct = ucast (rn_send_nonce s)"
  by (auto simp: ref_encrypt_def split: if_splits)

lemma fresh_nonces:
  "runHandshake = (True, i, r) \<Longrightarrow> rn_send_nonce i = 0"
  by (auto simp: runHandshake_def handshake_rounds_numeral writeHandshake_def new_ref_noise_def handshake_message_def Let_def split: if_splits)

lemma crypto_pass: "list_all case_passes crypto_tests"
proof -
  obtain i r where h: "runHandshake = (True, i, r)" "rn_key i = rn_key r" "rn_hash i = rn_hash r" "length (rn_key i) = 16"
    "length (rn_hash i) = 32" "rn_established i" "rn_established r" using handshake_runs by blast
  have k: "rn_key r \<noteq> []" "rn_key i \<noteq> []" "rn_hash i \<noteq> []" using h(2,4,5) by auto
  let ?hello = "map of_char ''hello'' :: byte list" and ?m = "[0x00, 0xFF, 0x10, 0x20] :: byte list" and ?d = "[1, 2, 3, 4] :: byte list"
  have second: "list_all assertion_holds (sealed ?m r (\<lambda>ct2 _.
      [ASSERT_TRUE (read_ok ct2 i'), EXPECT_TRUE (ref_decrypt ct2 i' = Some (Inr ?m))]))" if "rn_key i' = rn_key i" for i'
    by (rule sealed_passes [of r i']) (use that h(2) k in \<open>simp_all add: read_ok_plain\<close>)
  have both: "list_all assertion_holds (sealed ?hello i (\<lambda>ct1 i'.
      [EXPECT_TRUE (ct1 \<noteq> ?hello), ASSERT_TRUE (read_ok ct1 r), EXPECT_TRUE (ref_decrypt ct1 r = Some (Inr ?hello))]
      @ sealed ?m r (\<lambda>ct2 _. [ASSERT_TRUE (read_ok ct2 i'), EXPECT_TRUE (ref_decrypt ct2 i' = Some (Inr ?m))])))"
    by (rule sealed_passes [of i r]) (use h(2) k second in \<open>auto simp: read_ok_plain dest!: sealed_bytes\<close>)
  have distinct: "list_all assertion_holds (sealed ?d i (\<lambda>c1 i'. sealed ?d i' (\<lambda>c2 _.
      [EXPECT_TRUE (c1 \<noteq> c2), ASSERT_TRUE (read_ok c1 r), ASSERT_TRUE (read_ok c2 r),
       EXPECT_TRUE (ref_decrypt c1 r = Some (Inr ?d)), EXPECT_TRUE (ref_decrypt c2 r = Some (Inr ?d))])))"
    using h(2) k fresh_nonces [OF h(1)]
    by (intro sealed_passes [of _ r]) (auto simp: read_ok_plain dest!: sealed_bytes)
  show ?thesis
    unfolding crypto_tests_def h(1) prod.case using both distinct h(3,6,7) k(3) by simp
qed

section \<open>Permissions and transport\<close>

text \<open>\<open>src/tests/test_session_permissions.cpp\<close>\<close>

definition kPeerFp :: string where "kPeerFp = ''BLAKE2b:ab12-cd34-ef56-7890''"
definition kOtherFp :: string where "kOtherFp = ''BLAKE2b:99zz-88yy-77xx-6666''"

text \<open>A run of checks of one peer, each with the answer the test expects.\<close>

fun expect_checks :: "string \<Rightarrow> (ipc_capability \<times> bool) list \<Rightarrow> permission_gate \<Rightarrow> assertion list" where
  "expect_checks fp [] g = []"
| "expect_checks fp ((c, b) # cs) g = (case gate_check fp c g of (answer, g') \<Rightarrow> (if b then EXPECT_TRUE answer else EXPECT_FALSE answer) # expect_checks fp cs g')"

definition permission_tests :: "test_case list" where
  "permission_tests =
     [test_of ''session_permissions'' ''default_deny''
        (expect_checks kPeerFp [(kControlInput, False), (capClipboard, False), (kFileTransfer, False), (kUacElevation, False)] new_gate),
      test_of ''session_permissions'' ''grant_allows_only_that_capability''
        (expect_checks kPeerFp [(kControlInput, True), (capClipboard, False), (kFileTransfer, False)] (gate_grant kPeerFp kControlInput new_gate)),
      test_of ''session_permissions'' ''grants_are_per_fingerprint''
        (let g = gate_grant kPeerFp kViewScreen new_gate in
         (case gate_check kPeerFp kViewScreen g of (b, g') \<Rightarrow> EXPECT_TRUE b # expect_checks kOtherFp [(kViewScreen, False)] g')),
      test_of ''session_permissions'' ''revoke_returns_to_deny''
        (case gate_check kPeerFp capClipboard (gate_grant kPeerFp capClipboard new_gate) of
           (b, g) \<Rightarrow> EXPECT_TRUE b # expect_checks kPeerFp [(capClipboard, False)] (gate_revoke kPeerFp capClipboard g)),
      test_of ''session_permissions'' ''audit_log_records_by_fingerprint''
        (let g = snd (gate_check kPeerFp kUacElevation (snd (gate_check kPeerFp kControlInput (gate_grant kPeerFp kControlInput new_gate))));
             log = pg_audit g in
         ASSERT_TRUE (length log \<ge> 3) # map (\<lambda>e. EXPECT_TRUE (ge_fingerprint e = kPeerFp)) log
         @ [EXPECT_TRUE (list_ex (\<lambda>e. ge_action e = Check \<and> ge_capability e = kControlInput \<and> ge_allowed e) log),
            EXPECT_TRUE (list_ex (\<lambda>e. ge_action e = Check \<and> ge_capability e = kUacElevation \<and> \<not> ge_allowed e) log)])]"

lemma permission_pass: "list_all case_passes permission_tests"
  by (simp add: permission_tests_def Let_def gate_check_def gate_grant_def gate_revoke_def gate_log_def new_gate_def cap_cases
      kPeerFp_def kOtherFp_def)

text \<open>\<open>src/tests/test_transport_loopback.cpp\<close>: the first endpoint is \<open>SideA\<close>, what a handler of the second
  collected is what arrived there on its channel.\<close>

definition linked :: "wire_channel list \<Rightarrow> ref_loopback" where
  "linked chs = fold (\<lambda>ch. onChannel SideB ch True) chs (ref_link new_ref_loopback)"

definition loopback_tests :: "test_case list" where
  "loopback_tests =
     [test_of ''transport'' ''delivers_on_correct_channel''
        (let (st, t) = ref_send SideA kInput mtInputEvent [0xAA, 0xBB] 0 (linked [kInput, kVideo]); input_rx = arrived SideB kInput t in
         [EXPECT_TRUE (status_ok st), ASSERT_EQ (length input_rx = 1), EXPECT_EQ (length (arrived SideB kVideo t) = 0),
          EXPECT_TRUE (fh_channel (fst (input_rx ! 0)) = kInput), EXPECT_TRUE (fh_type (fst (input_rx ! 0)) = mtInputEvent),
          ASSERT_EQ (length (snd (input_rx ! 0)) = 2), EXPECT_EQ (snd (input_rx ! 0) ! 0 = 0xAA), EXPECT_EQ (snd (input_rx ! 0) ! 1 = 0xBB)]),
      test_of ''transport'' ''reliable_channel_preserves_order''
        (let t = foldl (send_one SideA) (linked [kInput]) (map (\<lambda>i. (kInput, mtInputEvent, [of_nat i], 0)) [0..<5]);
             seqs = map (fh_seq \<circ> fst) (arrived SideB kInput t) in
         [EXPECT_TRUE (reliabilityFor kInput = kReliableOrdered), ASSERT_EQ (length seqs = 5)] @ map (\<lambda>i. EXPECT_EQ (seqs ! i = of_nat i)) [0..<5]),
      test_of ''transport'' ''input_not_blocked_by_file_transfer''
        (let t = foldl (send_one SideA) (linked [kFile, kInput])
               [(kFile, kFileChunk, replicate 4096 0x5A, 0), (kInput, mtInputEvent, [1], 0), (kFile, kFileChunk, replicate 4096 0x5A, 0)] in
         [EXPECT_EQ (length (arrived SideB kFile t) = 2), EXPECT_TRUE (arrived SideB kInput t \<noteq> [])]),
      test_of ''transport'' ''unreliable_channel_drops_late''
        (let t = foldl (send_one SideA) (dropNextInbound SideB kAudio 1 (linked [kAudio])) [(kAudio, kAudioFrame, [0x10], 0), (kAudio, kAudioFrame, [0x20], 0)] in
         [EXPECT_TRUE (reliabilityFor kAudio = kUnreliable), EXPECT_EQ (length (arrived SideB kAudio t) = 1)]),
      test_of ''transport'' ''send_without_link_fails''
        (let (st, _) = ref_send SideA kControl kKeepalive [] 0 new_ref_loopback in
         [EXPECT_FALSE (status_ok st), EXPECT_TRUE (code st = ConnectionLost)])]"

lemma onChannel_all:
  "re_handlers (re_ends (fold (\<lambda>ch. onChannel SideB ch True) chs t) SideB) ch = (re_handlers (re_ends t SideB) ch \<or> ch \<in> set chs)"
  "re_ends (fold (\<lambda>ch. onChannel SideB ch True) chs t) SideA = re_ends t SideA"
  "re_drop_budget (re_ends (fold (\<lambda>ch. onChannel SideB ch True) chs t) SideB) = re_drop_budget (re_ends t SideB)"
  "re_delivered (fold (\<lambda>ch. onChannel SideB ch True) chs t) = re_delivered t"
  by (induction chs arbitrary: t; simp add: onChannel_def; blast)+

lemma linked_ready:
  "ch \<in> set chs \<Longrightarrow> ready_to SideA ch (linked chs) \<and> re_next_seq (re_ends (linked chs) SideA) ch = 0
   \<and> re_drop_budget (re_ends (linked chs) SideB) ch = 0 \<and> arrived SideB ch (linked chs) = []"
  by (simp add: linked_def ready_to_def arrived_def onChannel_all) (simp add: ref_link_def new_ref_loopback_def)

text \<open>What arrives over a fresh link on a channel with a handler: all of its messages, in order.\<close>

lemma linked_arrives:
  assumes "ch \<in> set chs"
  shows "arrived SideB ch (foldl (send_one SideA) (linked chs) ms) = map framed (numbered 0 (filter (\<lambda>m. fst m = ch) ms))"
  using sends_arrive [of SideA ch "linked chs" ms] linked_ready [OF assms] by (simp add: losses_def)

lemma loopback_pass: "list_all case_passes loopback_tests"
proof -
  have none: "arrived SideB kVideo (snd (ref_send SideA kInput mtInputEvent p 0 (linked [kInput, kVideo]))) = []" for p
    using linked_arrives [of kVideo "[kInput, kVideo]" "[(kInput, mtInputEvent, p, 0)]"] by (simp add: send_one_def)
  have one: "arrived SideB kInput (snd (ref_send SideA kInput mtInputEvent p 0 (linked [kInput, kVideo]))) = [framed (0, kInput, mtInputEvent, p, 0)]" for p
    using linked_arrives [of kInput "[kInput, kVideo]" "[(kInput, mtInputEvent, p, 0)]"] by (simp add: send_one_def)
  have ok: "status_ok (fst (ref_send SideA kInput mtInputEvent p 0 (linked [kInput, kVideo])))" for p
    using linked_ready [of kInput "[kInput, kVideo]"] by (simp add: ref_send_def ready_to_def Let_def)
  have audio: "length (arrived SideB kAudio (foldl (send_one SideA) (dropNextInbound SideB kAudio 1 (linked [kAudio]))
      [(kAudio, kAudioFrame, [0x10], 0), (kAudio, kAudioFrame, [0x20], 0)])) = 1"
  proof -
    have "ready_to SideA kAudio (dropNextInbound SideB kAudio 1 (linked [kAudio]))" "losses SideA kAudio (dropNextInbound SideB kAudio 1 (linked [kAudio])) = 1"
      "arrived SideB kAudio (dropNextInbound SideB kAudio 1 (linked [kAudio])) = []"
      using linked_ready [of kAudio "[kAudio]"] by (simp_all add: ready_to_def losses_def arrived_def dropNextInbound_def)
    with sends_arrive [of SideA kAudio "dropNextInbound SideB kAudio 1 (linked [kAudio])" "[(kAudio, kAudioFrame, [0x10], 0), (kAudio, kAudioFrame, [0x20], 0)]"]
    show ?thesis by (simp del: foldl_Cons)
  qed
  show ?thesis
    unfolding loopback_tests_def
    using one none ok audio
    by (auto simp: Let_def split_beta framed_def linked_arrives ref_header_def default_frame_header_def ref_send_def new_ref_loopback_def
        upt_rec simp del: foldl_Cons)
qed

section \<open>The suite\<close>

definition test_programs :: "test_case list list" where
  "test_programs = [negotiation_tests, roundtrip_tests, crypto_tests, framing_tests, permission_tests, loopback_tests]"

text \<open>Every case of the repository's own test suite passes on the model, and passing means what it says: each of the six test
  programs exits with 0, and the harness exits with 0 exactly when no assertion of any of its cases fails,
  whatever comes after a failure.\<close>

theorem test_suite_passes:
  "map (\<lambda>p. fst (runAll p)) test_programs = replicate 6 0 \<and> (fst (runAll cases) = 0 \<longleftrightarrow> list_all case_passes cases)"
  using runAll_exit negotiation_pass roundtrip_pass crypto_pass framing_pass permission_pass loopback_pass
  by (simp add: test_programs_def numeral_eq_Suc)

end
