(* ===== verification/Spec2Isabelle.thy ===== *)
theory Spec2Isabelle
  imports Session_Table Crypto_Proofs Logging Wire_Protocol Codec_Proofs Transport_Proofs Ipc_Protocol
    Input_Core Capture_Core Net_Core Relay_Proofs Rendezvous_Proofs Net_Address Media_Path Local_Channel Ui_App
    Platform_Backends Capture_Cursor Ui_Screen Rendezvous_Reach Ipc_Shutdown Daemon_Process Session_Callbacks
    Transport_Nested Transport_Doubles Locked_Tables Log_Threads Test_Suite
begin

text \<open>
  REDesk is a remote desktop program: a privileged service captures, encodes and sends the screen, a
  UI talks to that service over a local socket, two peers meet through a rendezvous server and fall
  back to a relay server. This development models the C++ of the default build (the one with
  \<open>REDESK_USE_REAL_BACKENDS\<close> off) and proves what makes each part correct; where the
  code does not do what its comments promise, a theorem states what it does instead.

  Parts and theories, in the order of the code:

  \<^item> \<open>core/common\<close>: \<open>Common_Types\<close> (types.h: errors as
    \<open>status\<close>, \<open>Result<T>\<close> as a sum, frames and packets) and
    \<open>Logging\<close> (logging.h/.cpp: levels, the call site's file name, the line format),
    with \<open>Log_Threads\<close> (log statements in many threads while the sink is replaced).
  \<^item> \<open>proto\<close>: \<open>Wire_Protocol\<close> (transport.proto.h: header, flags,
    fragmentation arithmetic), \<open>Codec_Tiers\<close> (codec.proto.h),
    \<open>Ipc_Protocol\<close> (ipc.proto.h).
  \<^item> \<open>core/session\<close>: \<open>Session_Core\<close> holds the session manager
    (capability sets as words, sessions, TOFU pins, audit log); \<open>Session_Gate\<close> the
    abstract access-control machine it refines and the safety properties of its histories,
    \<open>Session_Table\<close> the well-formedness of its table of sessions,
    \<open>Session_Callbacks\<close> the manager whose callbacks call it back, to any depth.
  \<^item> \<open>core/crypto\<close>: \<open>Crypto_Core\<close> (the stub handshake, the keystream
    cipher, fingerprints, the key store) and \<open>Crypto_Proofs\<close>.
  \<^item> \<open>core/codec\<close>, \<open>core/transport\<close>, \<open>core/input\<close>,
    \<open>core/capture\<close>: \<open>Codec_Core\<close>, \<open>Codec_Proofs\<close>,
    \<open>Transport_Core\<close>, \<open>Transport_Proofs\<close>, \<open>Transport_Nested\<close>
    (receivers that answer from inside \<open>send\<close>), \<open>Transport_Doubles\<close> (the
    congestion controller in doubles equals the exact one), \<open>Input_Core\<close>,
    \<open>Capture_Core\<close>, \<open>Capture_Cursor\<close> (the circling cursor, in doubles),
    and \<open>Media_Path\<close>, which composes capture, codec and transport on the loopback pair.
  \<^item> \<open>server\<close>: \<open>Net_Core\<close> (common/net.h/.cpp: sockets over a table
    of open descriptors), \<open>Net_Address\<close> (net.cpp: endpoints and their socket address
    bytes), \<open>Relay_Core\<close> and \<open>Relay_Proofs\<close> (relay/: the allocation table,
    the datagram format, the loop), \<open>Rendezvous_Core\<close> and
    \<open>Rendezvous_Proofs\<close> (rendezvous/: control frames, registry, introducers, the loop),
    \<open>Rendezvous_Reach\<close> (what the loop guarantees a peer that keeps in touch), and
    \<open>Locked_Tables\<close> (both tables under a mutex, access by access, on
    \<open>Locked_Objects\<close>).
  \<^item> \<open>service\<close>: \<open>Ipc_Server\<close> (ipc_server.h/.cpp),
    \<open>Ipc_Shutdown\<close> (its accept thread, \<open>stop\<close> and the clients as three
    actors of a step relation, and the Windows placeholder), \<open>Service_Daemon\<close>
    (engine_contracts.h, engine_stubs.cpp, main.cpp, service_lifecycle.h/.cpp) and
    \<open>Daemon_Process\<close> (\<open>RunDaemonBody\<close> with the main thread, the accept
    thread and the clients interleaved).
  \<^item> \<open>platform\<close>: \<open>Platform_Backends\<close>, the factories of both builds
    and the placeholder backends, and \<open>Mac_Capturer\<close>, the ScreenCaptureKit capturer
    with the system's answers as arguments.
  \<^item> \<open>ui\<close>: \<open>Ui_Client\<close> (ServiceClient), \<open>Ui_Session\<close>
    (SessionController with its timers), \<open>Ui_Preview\<close> (LocalScreenSource, VideoItem),
    \<open>Ui_Screen\<close> (ScreenView and its letterbox), \<open>Ui_App\<close> (the object graph
    that main.cpp builds and the events that reach it). \<open>Local_Channel\<close> holds the facts
    on service frames read by the UI and the reverse.
  \<^item> \<open>tests\<close>: \<open>Reference_Backends\<close> (stub_backends.h: the back ends
    the tests run against, their contracts for all inputs, and the core codec compared with the
    reference one) and \<open>Test_Suite\<close> (redesk_test.h and the 26 cases of the six test
    programs, run on the model).

  State is a record with the members of the C++ class; a method is a function that returns its
  result and the updated record. \<open>std::map\<close> and \<open>std::unordered_map\<close> are
  association lists with distinct keys. Integers keep their width as words; a double is its value,
  and each operation on doubles rounds to 53 bits (\<open>Floating\<close>). What the environment
  decides is an argument: clock readings, system call results, chunks of a stream, the answers of
  \<open>QLocalSocket\<close>, libsodium's signature, \<open>inet_pton\<close> and
  \<open>inet_ntop\<close> (hypothesis \<open>inet_inverse\<close>: the one reads what the other
  printed). Callbacks and signals are collected in a log in the order they happen.

  \<open>Interfaces\<close> states the contracts between parts as locales, each interpreted on the
  model's own definitions: \<open>run_invariant\<close> and \<open>run_relation\<close> (from one
  call to any history of calls: session manager, noise session, loopback pair, congestion
  controller, rendezvous server, UI client), \<open>prefix_codec\<close> (self-delimiting frames:
  the codec packet stream, relay tokens, control frames, attestation fields, service requests, UI
  frames), \<open>keyed_store\<close> (clipboard, registry) and \<open>expiring_table\<close> (relay
  allocations, registry). \<open>callback_relation\<close> and its extension \<open>callback_history\<close>
  (\<open>Session_Callbacks\<close>) are what an elementary change of the session manager owes a
  relation that must survive nested calls, without and with the record of the calls made.
  \<open>critical_sections\<close> (\<open>Locked_Objects\<close>) is what the single accesses of a
  method under a mutex owe its one-step meaning (registry, allocation table). \<open>Prelude\<close>
  has the shared facts on association lists, little-endian bytes and decimal printing.

  What the groups of lemmas show. The session manager refines a machine that knows only which
  sessions are active with which capabilities, and sessions become active only through
  \<open>authorize\<close> under the ceiling, also when callbacks call the manager back. The relay
  refines a pairing machine over any sequence of datagrams, so it forwards only between the two
  endpoints of a token. The rendezvous registry holds only what was observed, and a live id keeps
  its key. Both servers also keep their promise over whole runs: a session in use is carried without
  loss, and a peer that renews its record stays reachable under its own key. The IPC server's
  threads cannot deadlock, and stop ends it for good. The tables of both servers are thread-safe: in
  any interleaving of their reads and writes the calls return what they return one after the other.
  The repository's own tests pass on the model. Decoders accept exactly the encodings of their
  encoders and lose nothing under any chunking of the stream. The congestion controller stays within
  its bounds. The service's process ends by itself unless a client prevents it. The UI starts a
  session only after its PIN was taken, unless a timer of an earlier session is still running, and
  always comes to rest. Negative results are stated as theorems too: a keepalive moves a peer's traffic, a stale UI
  timer connects without the PIN of that session, a frame of 4 GiB is delivered cut short, the cipher does not decrypt between two peers,
  service and UI cannot read each other's frames, one silent client keeps the IPC server from
  stopping, one that leaves too early ends the service by SIGPIPE, and replacing the log sink
  destroys it under a thread that is logging.

  Bounds. The only loops with a cap in the code are the service's run loop (180 ticks) and the
  fragment count (16 bits); the model keeps both. No fuel is used for the code's own loops: they
  recurse on their input or on a measure. \<open>decode_all\<close> takes fuel, and its lemmas show
  that the number of frames is enough. \<open>exec\<close> and \<open>send_nested\<close> (nested
  callbacks) take the depth of nesting followed; their theorems hold for every depth, and a client
  of the session manager that falls silent after \<open>k\<close> callbacks returns at depth \<open>k + 1\<close>.

  Not modelled: QML, packaging and build files, which are not code in the implementation language,
  the wording of diagnostics, and data races at the level of memory: steps of different threads are
  interleaved, but one step is atomic. Threads are modelled where the code shares state between
  them: the tables of the servers, the logger, the IPC server's accept thread, and the hand-over of
  frames to the GUI thread; every other operation runs on one thread.
\<close>

section \<open>The service and the UI on the local channel\<close>

text \<open>C26: The UI cannot read the service: of whatever the service writes on a connection in reply to a
  request, the first four bytes already make the UI's client signal a bad frame, hang up and end
  disconnected with no message delivered; fewer bytes just stay in its buffer.\<close>

theorem ui_rejects_service_replies:
  assumes "rx_buffer c = []" and "client_state c \<noteq> Disconnected"
  shows "let out = snd (ServeConnection cfg (Some HandleIpc) conn) in
    onReadyRead True out c =
      (if length out < 4 then c\<lparr>rx_buffer := out\<rparr>
       else c\<lparr>client_state := Disconnected,
              client_log := client_log c @ [ErrorOccurred (q ''IPC frame size out of bounds''), DisconnectFromServer,
                ClientStateChanged Disconnected]\<rparr>)"
proof -
  let ?out = "snd (ServeConnection cfg (Some HandleIpc) conn)"
  have len: "length (HandleIpc p m) = 10" for p m by (simp add: HandleIpc_def)
  have pre: "?out = [] \<or> (\<exists>m t. service_frame (HandleIpc (AuthenticatePeer (cred conn)) m) = ?out @ t)"
  proof -
    have "\<exists>t. service_frame (HandleIpc p m) = reply_out ws (HandleIpc p m) @ t" for ws p m
      by (rule reply_out_prefix) (simp add: len)
    with ServeConnection_snd [of cfg HandleIpc conn] show ?thesis by metis
  qed
  show ?thesis
  proof (cases "length ?out < 4")
    case True
    then have "ui_unframe ?out = None" "\<not> bad_prefix ?out"
      by (simp_all add: ui_unframe_def bad_prefix_def kLenBytes_def)
    with True assms(1) drain_wait [of "c\<lparr>rx_buffer := ?out\<rparr>" True] show ?thesis
      by (simp add: onReadyRead_def)
  next
    case False
    with pre obtain m t where mt: "service_frame (HandleIpc (AuthenticatePeer (cred conn)) m) = ?out @ t" by auto
    have "bad_prefix (?out @ t)"
      using service_frame_bad_prefix [of "HandleIpc (AuthenticatePeer (cred conn)) m" "[]"] len mt by simp
    then have "bad_prefix ?out" using False by (simp add: prefix_bad kLenBytes_def)
    with False assms show ?thesis
      by (simp add: onReadyRead_def drain_bad disconnectFromService_def setClientState_def client_emit_def)
  qed
qed

theorem ui_rejects_service_replies_witness:
  "client_state (onReadyRead True (snd (ServeConnection default_ipc_config (Some HandleIpc) (demo_conn\<lparr>accepts := replicate 14 1\<rparr>)))
     (new_service_client\<lparr>client_state := Ready\<rparr>)) = Disconnected"
proof -
  have "length (snd (ServeConnection default_ipc_config (Some HandleIpc) (demo_conn\<lparr>accepts := replicate 14 1\<rparr>))) = 14"
    using demo_conn_answered [of default_ipc_config HandleIpc 14]
    by (simp add: default_ipc_config_def HandleIpc_def service_frame_def)
  then show ?thesis
    using ui_rejects_service_replies [of "new_service_client\<lparr>client_state := Ready\<rparr>" default_ipc_config
        "demo_conn\<lparr>accepts := replicate 14 1\<rparr>"]
    by (simp add: new_service_client_def)
qed

text \<open>The service cannot read the UI: a frame as the UI's framing describes it, unless its opcode and
  payload have a multiple of 256 bytes, announces more than the service's limit, so the service
  closes the connection without calling its handler or answering.\<close>

theorem service_rejects_ui_frames:
  assumes "stream (input conn) = ui_frame (op, p) @ rest" and "(2 + length p) mod 256 \<noteq> 0"
  shows "ServeConnection default_ipc_config (Some h) conn = (None, [])"
proof -
  have "1048576 < unat (of_le_bytes (take 4 (stream (input conn))) :: u32)"
    using swapped_length_large [OF assms(2)] by (simp add: assms(1) ui_frame_def kOpBytes_def)
  then have "fst (ServeConnection default_ipc_config (Some h) conn) = None"
    by (simp add: ServeConnection_call request_of_def default_ipc_config_def)
  with ServeConnection_silent [OF this] show ?thesis by (simp add: prod_eq_iff)
qed

theorem service_rejects_ui_frames_witness:
  "ServeConnection default_ipc_config (Some HandleIpc)
     \<lparr>cred = Some (1000, 42), input = [ui_frame (7, [1, 2, 3])], accepts = [100, 100]\<rparr> = (None, [])"
  by (rule service_rejects_ui_frames [where op = 7 and p = "[1, 2, 3]" and rest = "[]"]) (simp_all add: stream_def ui_frame_def)

end
